(* ===== verification/Prelude.thy ===== *)
theory Prelude
  imports
    "HOL-Library.Word" "HOL-Library.AList" "HOL-Library.Multiset"
    "HOL-Library.Char_ord" "HOL-Library.List_Lexorder"
begin

text \<open>
  What every component shares.

  \<^item> Go maps keyed by strings.  A map value is the list of its entries in one of
    the orders in which a \<open>range\<close> loop may deliver them, so a loop over a map is a \<open>fold\<close>
    over that list and ``the result does not depend on the iteration order'' is a theorem about
    permuted lists, not an assumption.  \<open>go_wf\<close> says that no key occurs twice, which every Go
    map satisfies; all operations keep it.
  \<^item> Strings are byte sequences: \<open>char\<close> is an 8-bit type in HOL, and \<open>List_Lexorder\<close> with
    \<open>Char_ord\<close> compares lists of bytes exactly as \<open>strings.Compare\<close> does.
  \<^item> Two locales, \<open>invariant_machine\<close> and \<open>growing_machine\<close>, lift one-step facts
    (``the operation keeps the invariant'', ``the operation only adds'') to whole runs; each
    stateful component interprets them on its own operations.
\<close>

named_theorems go_map_simps "lookup after update in a Go map"

section \<open>Go maps with string keys\<close>

type_synonym 'v gomap = "(string \<times> 'v) list"

type_synonym u64 = "64 word"

text \<open>\<open>m[k]\<close>: the zero value \<open>z\<close> of the element type when the key is absent.\<close>

definition go_get :: "'v \<Rightarrow> 'v gomap \<Rightarrow> string \<Rightarrow> 'v" where
  "go_get z m k = (case map_of m k of None \<Rightarrow> z | Some v \<Rightarrow> v)"

text \<open>\<open>_, ok := m[k]\<close>\<close>

definition go_has :: "'v gomap \<Rightarrow> string \<Rightarrow> bool" where
  "go_has m k = (map_of m k \<noteq> None)"

text \<open>\<open>m[k] = v\<close>\<close>

definition go_put :: "string \<Rightarrow> 'v \<Rightarrow> 'v gomap \<Rightarrow> 'v gomap" where
  "go_put k v m = AList.update k v m"

definition go_wf :: "'v gomap \<Rightarrow> bool" where
  "go_wf m = distinct (map fst m)"

text \<open>The copying loop \<open>for k, v := range m { out[k] = v }\<close>.\<close>

definition go_copy :: "'v gomap \<Rightarrow> 'v gomap" where
  "go_copy m = fold (\<lambda>(k, v) out. go_put k v out) m []"

lemma map_of_go_put [go_map_simps]: "map_of (go_put k v m) = (map_of m)(k \<mapsto> v)"
  by (simp add: go_put_def update_conv')

lemma go_get_put [go_map_simps]:
  "go_get z (go_put k v m) k' = (if k' = k then v else go_get z m k')"
  by (simp add: go_get_def map_of_go_put)

lemma go_has_put [go_map_simps]: "go_has (go_put k v m) k' \<longleftrightarrow> k' = k \<or> go_has m k'"
  by (auto simp: go_has_def map_of_go_put)

lemma go_get_Nil [simp]: "go_get z [] k = z"
  by (simp add: go_get_def)

lemma go_has_Nil [simp]: "\<not> go_has [] k"
  by (simp add: go_has_def)

lemma go_has_set: "go_has m k \<longleftrightarrow> k \<in> fst ` set m"
  by (simp add: go_has_def map_of_eq_None_iff)

lemma go_get_absent: "k \<notin> fst ` set m \<Longrightarrow> go_get z m k = z"
  by (simp add: go_get_def map_of_eq_None_iff [THEN iffD2])

lemma go_get_entry: "go_wf m \<Longrightarrow> (k, v) \<in> set m \<Longrightarrow> go_get z m k = v"
  by (simp add: go_wf_def go_get_def)

lemma go_wf_Nil [simp]: "go_wf []"
  by (simp add: go_wf_def)

lemma go_wf_put [simp]: "go_wf m \<Longrightarrow> go_wf (go_put k v m)"
  by (simp add: go_wf_def go_put_def distinct_update)

lemma set_go_put_keys: "fst ` set (go_put k v m) = insert k (fst ` set m)"
  by (simp add: go_put_def dom_update)

lemma go_put_fresh: "k \<notin> fst ` set m \<Longrightarrow> go_put k v m = m @ [(k, v)]"
  by (induction m) (auto simp: go_put_def)

text \<open>A copy of a map is that map: a snapshot loses and adds nothing.\<close>

lemma go_copy_append:
  "go_wf (acc @ m) \<Longrightarrow> fold (\<lambda>(k, v) out. go_put k v out) m acc = acc @ m"
proof (induction m arbitrary: acc)
  case Nil
  then show ?case by simp
next
  case (Cons e m)
  obtain k v where e: "e = (k, v)" by (cases e)
  from Cons.prems have "k \<notin> fst ` set acc" by (auto simp: go_wf_def e)
  then have "go_put k v acc = acc @ [(k, v)]" by (rule go_put_fresh)
  with Cons.IH [of "acc @ [(k, v)]"] Cons.prems show ?case by (simp add: e)
qed

lemma go_copy_id [simp]: "go_wf m \<Longrightarrow> go_copy m = m"
  using go_copy_append [of "[]" m] by (simp add: go_copy_def)

text \<open>Reordering the entries changes no lookup.\<close>

lemma go_perm_lookup:
  assumes "go_wf m" and "mset m = mset m'"
  shows "go_wf m'" and "map_of m = map_of m'" and "go_get z m = go_get z m'"
proof -
  have keys: "mset (map fst m) = mset (map fst m')"
    using assms(2) by (simp add: mset_map)
  show wf: "go_wf m'"
    using assms(1) keys unfolding go_wf_def by (metis mset_eq_imp_distinct_iff)
  show eq: "map_of m = map_of m'"
    using assms wf unfolding go_wf_def
    by (intro map_of_inject_set [THEN iffD2]) (auto dest: mset_eq_setD)
  show "go_get z m = go_get z m'"
    by (rule ext) (simp add: go_get_def eq)
qed

section \<open>Comparing strings\<close>

text \<open>\<open>strings.Compare\<close>: \<open>-1\<close>, \<open>0\<close> or \<open>1\<close> by the bytes.\<close>

definition strings_Compare :: "string \<Rightarrow> string \<Rightarrow> int" where
  "strings_Compare a b = (if a = b then 0 else if a < b then - 1 else 1)"

lemma strings_Compare_simps [simp]:
  "strings_Compare a a = 0"
  "strings_Compare a b = 0 \<longleftrightarrow> a = b"
  "strings_Compare a b < 0 \<longleftrightarrow> a < b"
  "0 < strings_Compare a b \<longleftrightarrow> b < a"
  by (auto simp: strings_Compare_def)

lemma strings_Compare_flip: "strings_Compare b a = - strings_Compare a b"
  by (auto simp: strings_Compare_def)

section \<open>From one operation to a run\<close>

text \<open>
  A component offers operations to its clients; \<open>perform op s\<close> is the state an operation
  leaves, \<open>ok op\<close> what its callers guarantee.  Providers discharge the laws once for one
  operation, clients get them for every sequence of operations.
\<close>

locale invariant_machine =
  fixes perform :: "'op \<Rightarrow> 's \<Rightarrow> 's"
    and ok :: "'op \<Rightarrow> bool"
    and inv :: "'s \<Rightarrow> bool"
  assumes perform_inv: "ok op \<Longrightarrow> inv s \<Longrightarrow> inv (perform op s)"
begin

lemma run_inv: "list_all ok ops \<Longrightarrow> inv s \<Longrightarrow> inv (fold perform ops s)"
  by (induction ops arbitrary: s) (auto intro: perform_inv)

end

text \<open>A component in which something only ever grows along \<open>grows\<close>.\<close>

locale growing_machine = invariant_machine perform ok inv
  for perform :: "'op \<Rightarrow> 's \<Rightarrow> 's" and ok :: "'op \<Rightarrow> bool" and inv :: "'s \<Rightarrow> bool" +
  fixes grows :: "'s \<Rightarrow> 's \<Rightarrow> bool"
  assumes grows_refl: "grows s s"
    and grows_trans: "grows s t \<Longrightarrow> grows t u \<Longrightarrow> grows s u"
    and perform_grows: "ok op \<Longrightarrow> inv s \<Longrightarrow> grows s (perform op s)"
begin

lemma run_grows: "list_all ok ops \<Longrightarrow> inv s \<Longrightarrow> grows s (fold perform ops s)"
proof (induction ops arbitrary: s)
  case Nil
  show ?case by (simp add: grows_refl)
next
  case (Cons op ops)
  then have "grows s (perform op s)" and "inv (perform op s)"
    by (auto intro: perform_grows perform_inv)
  with Cons show ?case by (auto intro: grows_trans)
qed

end

end
