(* ===== verification/Vector_Clock.thy ===== *)
theory Vector_Clock
  imports Prelude
begin

text \<open>
  \<open>internal/clock/vector.go\<close>: the vector clock, keyed by peer id, with \<open>uint64\<close> counters that
  wrap around.  The mutex of the struct makes every method atomic, so a method is one function
  on the state.
\<close>

section \<open>Data and operations\<close>

datatype ordering = Before | After | Concurrent | Equal

fun Ordering_int :: "ordering \<Rightarrow> int" where
  "Ordering_int Before = - 1"
| "Ordering_int After = 1"
| "Ordering_int Concurrent = 0"
| "Ordering_int Equal = 2"

record VectorClock =
  clock :: "u64 gomap"

lemma VectorClock_eta [simp]: "\<lparr>clock = clock v\<rparr> = v"
  by simp

definition VectorClock_New :: VectorClock where
  "VectorClock_New = \<lparr>clock = []\<rparr>"

definition Increment :: "string \<Rightarrow> VectorClock \<Rightarrow> VectorClock" where
  "Increment nodeID vc = vc\<lparr>clock := go_put nodeID (go_get 0 (clock vc) nodeID + 1) (clock vc)\<rparr>"

definition Merge :: "u64 gomap \<Rightarrow> VectorClock \<Rightarrow> VectorClock" where
  "Merge remote vc = vc\<lparr>clock :=
     fold (\<lambda>(k, v) c. if v > go_get 0 c k then go_put k v c else c) remote (clock vc)\<rparr>"

definition Snapshot :: "VectorClock \<Rightarrow> u64 gomap" where
  "Snapshot vc = go_copy (clock vc)"

text \<open>The closure \<open>check\<close> of \<open>Compare\<close>; the pair is \<open>(aLess, bLess)\<close>.\<close>

definition Compare_check ::
  "u64 gomap \<Rightarrow> u64 gomap \<Rightarrow> u64 gomap \<Rightarrow> bool \<times> bool \<Rightarrow> bool \<times> bool" where
  "Compare_check a b m flags = fold (\<lambda>(k, _) (aLess, bLess).
     let va = go_get 0 a k; vb = go_get 0 b k
     in (if va < vb then True else aLess, if vb < va then True else bLess)) m flags"

definition Compare :: "u64 gomap \<Rightarrow> u64 gomap \<Rightarrow> ordering" where
  "Compare a b =
     (case Compare_check a b b (Compare_check a b a (False, False)) of (aLess, bLess) \<Rightarrow>
        if aLess \<and> \<not> bLess then Before
        else if bLess \<and> \<not> aLess then After
        else if \<not> aLess \<and> \<not> bLess then Equal
        else Concurrent)"

definition Sum_clock :: "u64 gomap \<Rightarrow> u64" where
  "Sum_clock vc = fold (\<lambda>(_, v) s. s + v) vc 0"

section \<open>The abstract clock: a function from peers to counters\<close>

text \<open>
  Two Go maps that differ only in absent versus zero entries denote the same clock.  The
  library's pointwise order on functions is the causal order.
\<close>

definition counters :: "u64 gomap \<Rightarrow> string \<Rightarrow> u64" where
  "counters m = go_get 0 m"

lemma counters_Nil [simp]: "counters [] = (\<lambda>_. 0)"
  by (simp add: counters_def fun_eq_iff)

lemma counters_put [go_map_simps]: "counters (go_put k v m) = (counters m)(k := v)"
  by (auto simp: counters_def go_map_simps)

lemma counters_absent: "k \<notin> fst ` set m \<Longrightarrow> counters m k = 0"
  by (simp add: counters_def go_get_absent)

lemma Compare_check_flags:
  "Compare_check a b m (p, q) =
     (p \<or> (\<exists>k \<in> fst ` set m. counters a k < counters b k),
      q \<or> (\<exists>k \<in> fst ` set m. counters b k < counters a k))"
  by (induction m arbitrary: p q)
    (auto simp: Compare_check_def counters_def Let_def split: prod.splits)

text \<open>Only keys of one of the maps can differ, so the two loops see every difference.\<close>

lemma less_counter_key:
  "counters a k < counters b k \<Longrightarrow> k \<in> fst ` set b"
  by (metis counters_absent word_not_simps(1))

lemma Compare_flags:
  "Compare a b =
     (if (\<exists>k. counters a k < counters b k)
      then (if \<exists>k. counters b k < counters a k then Concurrent else Before)
      else (if \<exists>k. counters b k < counters a k then After else Equal))"
proof -
  have "(\<exists>k \<in> fst ` set a \<union> fst ` set b. counters a k < counters b k) \<longleftrightarrow>
          (\<exists>k. counters a k < counters b k)"
    and "(\<exists>k \<in> fst ` set a \<union> fst ` set b. counters b k < counters a k) \<longleftrightarrow>
          (\<exists>k. counters b k < counters a k)"
    by (blast dest: less_counter_key)+
  then show ?thesis
    by (auto simp: Compare_def Compare_check_flags split: prod.splits)
qed


lemma Compare_le:
  "Compare a b =
     (if counters a \<le> counters b
      then (if counters b \<le> counters a then Equal else Before)
      else (if counters b \<le> counters a then After else Concurrent))"
  by (auto simp: Compare_flags le_fun_def not_less [symmetric])

text \<open>
  The four results of \<open>Compare\<close> are the four ways two clocks can lie in the causal order.
\<close>

lemma Compare_iff:
  "Compare a b = Equal \<longleftrightarrow> counters a = counters b"
  "Compare a b = Before \<longleftrightarrow> counters a < counters b"
  "Compare a b = After \<longleftrightarrow> counters b < counters a"
  "Compare a b = Concurrent \<longleftrightarrow> \<not> counters a \<le> counters b \<and> \<not> counters b \<le> counters a"
  by (auto simp: Compare_le less_le_not_le)

lemma Compare_cong: "counters a = counters a' \<Longrightarrow> counters b = counters b' \<Longrightarrow> Compare a b = Compare a' b'"
  by (simp add: Compare_flags)

lemma Compare_perm:
  assumes "go_wf a" "mset a = mset a'" "go_wf b" "mset b = mset b'"
  shows "Compare a b = Compare a' b'"
  unfolding Compare_flags counters_def go_perm_lookup(3) [OF assms(1,2)] go_perm_lookup(3) [OF assms(3,4)] ..

section \<open>Merging, ticking and copying\<close>

lemma Merge_fold_counters:
  "go_wf remote \<Longrightarrow> counters (fold (\<lambda>(k, v) c. if v > go_get 0 c k then go_put k v c else c) remote c) =
     (\<lambda>k. max (counters c k) (counters remote k))"
proof (induction remote arbitrary: c)
  case Nil
  then show ?case by simp
next
  case (Cons e remote)
  obtain k v where e: "e = (k, v)" by (cases e)
  from Cons.prems have wf: "go_wf remote" and "k \<notin> fst ` set remote"
    by (auto simp: go_wf_def e)
  then have absent: "counters remote k = 0" by (simp add: counters_absent)
  have step: "counters (if v > go_get 0 c k then go_put k v c else c) = (counters c)(k := max (counters c k) v)"
    by (auto simp: counters_put max_def fun_eq_iff) (simp_all add: counters_def)
  have "counters (e # remote) = (counters remote)(k := v)"
    by (auto simp: e counters_def go_get_def)
  then show ?case
    by (simp add: e Cons.IH [OF wf] step absent fun_eq_iff)
qed

lemma counters_Merge:
  "go_wf remote \<Longrightarrow> counters (clock (Merge remote vc)) = (\<lambda>k. max (counters (clock vc) k) (counters remote k))"
  by (simp add: Merge_def Merge_fold_counters)

lemma Merge_wf [simp]: "go_wf (clock vc) \<Longrightarrow> go_wf (clock (Merge remote vc))"
proof -
  have "go_wf c \<Longrightarrow> go_wf (fold (\<lambda>(k, v) c. if v > go_get 0 c k then go_put k v c else c) remote c)" for c
    by (induction remote arbitrary: c) auto
  then show "go_wf (clock vc) \<Longrightarrow> go_wf (clock (Merge remote vc))" by (simp add: Merge_def)
qed

lemma counters_Increment:
  "counters (clock (Increment n vc)) = (counters (clock vc))(n := counters (clock vc) n + 1)"
  by (simp add: Increment_def counters_put) (simp add: counters_def)

lemma Increment_wf [simp]: "go_wf (clock vc) \<Longrightarrow> go_wf (clock (Increment n vc))"
  by (simp add: Increment_def)

lemma Snapshot_id [simp]: "go_wf (clock vc) \<Longrightarrow> Snapshot vc = clock vc"
  by (simp add: Snapshot_def)

lemma New_wf [simp]: "go_wf (clock VectorClock_New)"
  by (simp add: VectorClock_New_def)

lemma word_Suc_less: "(w :: 'a::len word) \<noteq> - 1 \<Longrightarrow> w < w + 1"
  using inc_less_eq_self_iff_eq [of w] by (simp add: not_le [symmetric])

section \<open>The interface: a causal order with merge and tick\<close>

text \<open>
  What the ledger and the application rely on, as contracts: a comparison that sorts two clocks
  into four classes, and on top of it the least upper bound and the local event.
\<close>

locale causal_order =
  fixes cmp :: "'c \<Rightarrow> 'c \<Rightarrow> ordering"
  assumes cmp_self: "cmp a a = Equal"
    and cmp_flip: "cmp a b = Before \<longleftrightarrow> cmp b a = After"
    and cmp_equal_sym: "cmp a b = Equal \<Longrightarrow> cmp b a = Equal"
    and before_trans: "cmp a b = Before \<Longrightarrow> cmp b c = Before \<Longrightarrow> cmp a c = Before"
    and before_equal: "cmp a b = Before \<Longrightarrow> cmp b c = Equal \<Longrightarrow> cmp a c = Before"
    and equal_before: "cmp a b = Equal \<Longrightarrow> cmp b c = Before \<Longrightarrow> cmp a c = Before"
begin

definition at_most :: "'c \<Rightarrow> 'c \<Rightarrow> bool" where
  "at_most a b \<longleftrightarrow> cmp a b = Before \<or> cmp a b = Equal"

lemma before_irrefl: "cmp a a \<noteq> Before"
  by (simp add: cmp_self)

lemma before_asym: "cmp a b = Before \<Longrightarrow> cmp b a \<noteq> Before"
  using before_trans before_irrefl by blast

lemma concurrent_sym: "cmp a b = Concurrent \<Longrightarrow> cmp b a = Concurrent"
  using cmp_flip [of a b] cmp_flip [of b a] cmp_equal_sym [of b a] by (cases "cmp b a") auto

lemma at_most_before_trans: "at_most a b \<Longrightarrow> cmp b c = Before \<Longrightarrow> cmp a c = Before"
  unfolding at_most_def using before_trans equal_before by blast

end

locale causal_clock = causal_order cmp
  for cmp :: "'c \<Rightarrow> 'c \<Rightarrow> ordering" +
  fixes valid :: "'c \<Rightarrow> bool"
    and merge :: "'c \<Rightarrow> 'c \<Rightarrow> 'c"
    and tick :: "'p \<Rightarrow> 'c \<Rightarrow> 'c"
    and exhausted :: "'p \<Rightarrow> 'c \<Rightarrow> bool"
  assumes valid_merge: "valid a \<Longrightarrow> valid (merge r a)"
    and valid_tick: "valid a \<Longrightarrow> valid (tick p a)"
    and merge_local: "valid r \<Longrightarrow> at_most a (merge r a)"
    and merge_remote: "valid r \<Longrightarrow> at_most r (merge r a)"
    and tick_after: "\<not> exhausted p a \<Longrightarrow> cmp a (tick p a) = Before"
begin

text \<open>What a peer says after receiving \<open>r\<close> is causally after \<open>r\<close> and after its own past.\<close>

lemma send_after_receive:
  assumes "valid r" and "\<not> exhausted p (merge r a)"
  shows "cmp r (tick p (merge r a)) = Before" and "cmp a (tick p (merge r a)) = Before"
  using assms merge_local merge_remote tick_after at_most_before_trans by blast+

text \<open>Later merges never lose an event that was already known.\<close>

lemma merge_all_keeps:
  "list_all valid rs \<Longrightarrow> cmp b a = Before \<Longrightarrow> cmp b (fold merge rs a) = Before"
proof (induction rs arbitrary: a)
  case Nil
  then show ?case by simp
next
  case (Cons r rs)
  have "at_most a (merge r a)" using Cons.prems merge_local by simp
  then have "cmp b (merge r a) = Before"
    using Cons.prems(2) before_trans before_equal unfolding at_most_def by blast
  with Cons show ?case by simp
qed

end


section \<open>The clock of the program meets the interface\<close>

interpretation vco: causal_order Compare
  by unfold_locales (auto simp: Compare_iff)

lemma at_most_counters: "vco.at_most a b \<longleftrightarrow> counters a \<le> counters b"
  by (auto simp: vco.at_most_def Compare_iff le_less)

interpretation vc: causal_clock Compare go_wf
  "\<lambda>r a. clock (Merge r \<lparr>clock = a\<rparr>)" "\<lambda>p a. clock (Increment p \<lparr>clock = a\<rparr>)"
  "\<lambda>p a. counters a p = - 1"
proof unfold_locales
  fix a :: "u64 gomap" and p
  assume "\<not> counters a p = - 1"
  then have "counters a p < counters a p + 1" by (simp add: word_Suc_less)
  then show "Compare a (clock (Increment p \<lparr>clock = a\<rparr>)) = Before"
    by (auto simp: Compare_iff counters_Increment less_le_not_le le_fun_def)
qed (simp_all add: at_most_counters counters_Merge le_fun_def)

section \<open>The sum of the counters\<close>

lemma Sum_clock_fold: "fold (\<lambda>(_, v) s. s + v) vc (s :: u64) = s + sum_list (map snd vc)"
  by (induction vc arbitrary: s) (auto simp: ac_simps)

lemma Sum_clock_sum_list: "Sum_clock vc = sum_list (map snd vc)"
  by (simp add: Sum_clock_def Sum_clock_fold)

lemma sum_list_counters:
  "go_wf m \<Longrightarrow> sum_list (map snd m) = (\<Sum>k \<in> fst ` set m. counters m k)"
proof (induction m)
  case Nil
  then show ?case by simp
next
  case (Cons e m)
  obtain k v where e: "e = (k, v)" by (cases e)
  from Cons.prems have wf: "go_wf m" and new: "k \<notin> fst ` set m"
    by (auto simp: go_wf_def e)
  have upd: "counters (e # m) = (counters m)(k := v)"
    by (auto simp: e counters_def go_get_def)
  have same: "(\<Sum>j \<in> fst ` set m. counters (e # m) j) = (\<Sum>j \<in> fst ` set m. counters m j)"
  proof (rule sum.cong [OF refl])
    fix j assume "j \<in> fst ` set m"
    with new have "j \<noteq> k" by metis
    then show "counters (e # m) j = counters m j" by (simp add: upd)
  qed
  have "fst ` set (e # m) = insert k (fst ` set m)" by (simp add: e)
  then have "(\<Sum>j \<in> fst ` set (e # m). counters (e # m) j) =
      counters (e # m) k + (\<Sum>j \<in> fst ` set m. counters m j)"
    using new same by simp
  also have "counters (e # m) k = v" by (simp add: upd)
  also have "(\<Sum>j \<in> fst ` set m. counters m j) = sum_list (map snd m)"
    using Cons.IH [OF wf] by simp
  finally show ?case by (simp add: e)
qed

lemma of_nat_unat_sum: "(\<Sum>k \<in> A. f k) = (of_nat (\<Sum>k \<in> A. unat (f k :: u64)) :: u64)"
  by (induction A rule: infinite_finite_induct) auto

lemma of_nat_u64_less: "m < n \<Longrightarrow> n < 2 ^ 64 \<Longrightarrow> (of_nat m :: u64) < of_nat n"
  by (simp add: word_less_nat_alt unat_of_nat take_bit_nat_def)

lemma Sum_clock_counters:
  assumes "go_wf m" and "finite A" and "fst ` set m \<subseteq> A"
  shows "Sum_clock m = of_nat (\<Sum>k \<in> A. unat (counters m k))"
proof -
  have "Sum_clock m = (\<Sum>k \<in> fst ` set m. counters m k)"
    by (simp add: Sum_clock_sum_list sum_list_counters assms(1))
  also have "\<dots> = (\<Sum>k \<in> A. counters m k)"
    using assms(2,3) by (intro sum.mono_neutral_left) (auto simp: counters_absent)
  finally show ?thesis by (simp only: of_nat_unat_sum)
qed

section \<open>Properties\<close>

text \<open>C15. \<open>Compare\<close> decides the causal order: it answers \<open>Before\<close>, \<open>After\<close>, \<open>Equal\<close> or
  \<open>Concurrent\<close> exactly when the first clock is pointwise below, above, equal to or incomparable
  with the second, absent entries counting as zero.\<close>

theorem Compare_decides_causality:
  "(Compare a b = Before \<longleftrightarrow> counters a < counters b) \<and>
   (Compare a b = After \<longleftrightarrow> counters b < counters a) \<and>
   (Compare a b = Equal \<longleftrightarrow> counters a = counters b) \<and>
   (Compare a b = Concurrent \<longleftrightarrow>
      (\<exists>j k. counters a j < counters b j \<and> counters b k < counters a k))"
  by (auto simp: Compare_iff le_fun_def not_le)

text \<open>C14. \<open>Merge\<close> computes the least upper bound: the merged clock is below a bound exactly when
  both the local and the received clock are, whatever order the received map is iterated in.\<close>

theorem Merge_least_upper_bound:
  assumes "go_wf remote"
  shows "counters (clock (Merge remote vc)) \<le> u \<longleftrightarrow>
           counters (clock vc) \<le> u \<and> counters remote \<le> u"
  by (auto simp: counters_Merge [OF assms] le_fun_def)

theorem Merge_least_upper_bound_witness:
  "counters (clock (Merge [(''b'', 3), (''a'', 1)] \<lparr>clock = [(''a'', 2)]\<rparr>)) \<le> (\<lambda>_. 3) \<and>
   \<not> counters (clock (Merge [(''b'', 3), (''a'', 1)] \<lparr>clock = [(''a'', 2)]\<rparr>)) \<le> (\<lambda>_. 2)"
proof -
  have wf: "go_wf [(''b'', 3 :: u64), (''a'', 1)]" by (simp add: go_wf_def)
  show ?thesis
    unfolding Merge_least_upper_bound [OF wf]
    by (auto simp: le_fun_def counters_def go_get_def intro: exI [of _ "''b''"])
qed

text \<open>C29. A message sent after a clock was received is causally after it, unless the own counter stands at
  its last value, 2^64 - 1, after the merge (a value that a received clock can bring, and from which the
  counter wraps to 0): merging the received clock, incrementing the own counter and taking the snapshot
  then gives a clock that \<open>Compare\<close> places strictly after the received clock and after everything the
  sender knew.\<close>

theorem reply_is_causally_after:
  assumes "go_wf r" and "go_wf (clock v)" and "counters (clock (Merge r v)) p \<noteq> - 1"
  shows "Compare r (Snapshot (Increment p (Merge r v))) = Before \<and>
         Compare (clock v) (Snapshot (Increment p (Merge r v))) = Before"
  using vc.send_after_receive [where r = r and a = "clock v" and p = p] assms
  by (simp add: VectorClock_eta)

theorem reply_is_causally_after_witness:
  "Compare [(''a'', 4)] (Snapshot (Increment ''b'' (Merge [(''a'', 4)] \<lparr>clock = [(''b'', 1)]\<rparr>))) = Before"
proof -
  have "counters (clock (Merge [(''a'', 4)] \<lparr>clock = [(''b'', 1)]\<rparr>)) ''b'' \<noteq> - 1"
    by (simp add: Merge_def counters_def go_get_def go_put_def)
  then show ?thesis
    using reply_is_causally_after [of "[(''a'', 4)]" "\<lparr>clock = [(''b'', 1)]\<rparr>" "''b''"]
    by (simp add: go_wf_def)
qed

text \<open>C40. \<open>Sum\<close> is a tiebreaker that respects causality while the total of the later clock fits in
  64 bits: an event that happened before another has the smaller sum.\<close>

theorem Sum_respects_causality:
  assumes "go_wf a" and "go_wf b" and "Compare a b = Before"
    and "(\<Sum>k \<in> fst ` set a \<union> fst ` set b. unat (counters b k)) < 2 ^ 64"
  shows "Sum_clock a < Sum_clock b"
proof -
  let ?A = "fst ` set a \<union> fst ` set b"
  from assms(3) have less: "counters a < counters b" by (simp add: Compare_iff)
  then obtain k where k: "counters a k < counters b k"
    by (auto simp: less_fun_def le_fun_def not_le)
  then have "k \<in> ?A" by (blast dest: less_counter_key)
  have below: "unat (counters a j) \<le> unat (counters b j)" for j
    using less by (auto simp: less_fun_def le_fun_def word_le_nat_alt)
  have lt: "(\<Sum>j \<in> ?A. unat (counters a j)) < (\<Sum>j \<in> ?A. unat (counters b j))"
  proof (intro sum_strict_mono_ex1)
    show "\<exists>j \<in> ?A. unat (counters a j) < unat (counters b j)"
      using k \<open>k \<in> ?A\<close> by (auto simp only: word_less_nat_alt)
  qed (simp_all add: below)
  have "Sum_clock a = of_nat (\<Sum>j \<in> ?A. unat (counters a j))"
    and "Sum_clock b = of_nat (\<Sum>j \<in> ?A. unat (counters b j))"
    by (rule Sum_clock_counters; simp add: assms)+
  with of_nat_u64_less [OF lt assms(4)] show ?thesis by (simp only:)
qed

theorem Sum_respects_causality_witness:
  "Sum_clock [(''a'', 1), (''b'', 1)] < Sum_clock [(''a'', 2), (''b'', 1)]"
proof -
  have "Compare [(''a'', 1), (''b'', 1)] [(''a'', 2), (''b'', 1)] = Before"
    by (simp add: Compare_def Compare_check_def go_get_def)
  then show ?thesis
    by (rule Sum_respects_causality [rotated 2]) (simp_all add: go_wf_def counters_def go_get_def)
qed

end
