(* ===== verification/Go_Sort.thy ===== *)
theory Go_Sort
  imports Prelude
begin

text \<open>
  \<open>sort.SliceStable\<close>, which both message orders of the program are computed with.

  The comparison the program passes to it is not transitive on every set of messages, so what the
  sort returns depends on the algorithm and not only on its specification.  The algorithm of Go's
  standard library is therefore modelled step by step: insertion sort on blocks of 20, then
  passes of \<open>symMerge\<close> (binary search for the split, rotation, two recursive merges) with doubling
  block size.  Two facts are proved: the result is a permutation of the input for every
  comparison whatever, and it is sorted when the comparison is a strict weak order on the elements.
\<close>

section \<open>The algorithm\<close>

type_synonym 'a less_fun = "'a \<Rightarrow> 'a \<Rightarrow> bool"

text \<open>One step of the insertion sort: the sorted prefix is held in reverse, so that moving the new
  element towards the front is a walk along the list.\<close>

fun ins_rev :: "'a less_fun \<Rightarrow> 'a \<Rightarrow> 'a list \<Rightarrow> 'a list" where
  "ins_rev lt x [] = [x]"
| "ins_rev lt x (y # ys) = (if lt x y then y # ins_rev lt x ys else x # y # ys)"

definition insertionSort :: "'a less_fun \<Rightarrow> 'a list \<Rightarrow> 'a list" where
  "insertionSort lt xs = rev (fold (ins_rev lt) xs [])"

text \<open>The binary search loops of \<open>symMerge\<close>: \<open>while i < j { h := (i+j)/2; if P(h) { i = h+1 } else { j = h } }\<close>.\<close>

function bsearch :: "(nat \<Rightarrow> bool) \<Rightarrow> nat \<Rightarrow> nat \<Rightarrow> nat" where
  "bsearch P i j =
     (if i < j then (if P ((i + j) div 2) then bsearch P ((i + j) div 2 + 1) j else bsearch P i ((i + j) div 2))
      else i)"
  by pat_completeness auto
termination
  by (relation "measure (\<lambda>(P, i, j). j - i)") auto

declare bsearch.simps [simp del]

text \<open>\<open>rotate\<close>: exchange the blocks \<open>[start, m)\<close> and \<open>[m, end)\<close>.\<close>

definition rotate_blocks :: "nat \<Rightarrow> nat \<Rightarrow> nat \<Rightarrow> 'a list \<Rightarrow> 'a list" where
  "rotate_blocks start m en D =
     take start D @ take (en - m) (drop m D) @ take (m - start) (drop start D) @ drop en D"

text \<open>\<open>symMerge(data, a, m, b)\<close> on the segment \<open>D = data[a:b]\<close>, with \<open>m\<close> counted from \<open>a\<close>.  All the
  indices of the Go code shift by \<open>a\<close>, so nothing else changes.\<close>

definition split_point :: "'a less_fun \<Rightarrow> nat \<Rightarrow> 'a list \<Rightarrow> nat" where
  "split_point lt m D =
     (let b = length D; mid = b div 2; n = mid + m;
          (start, r) = (if m > mid then (n - b, mid) else (0, m));
          p = n - 1
      in bsearch (\<lambda>c. \<not> lt (D ! (p - c)) (D ! c)) start r)"

lemma mset_rotate_blocks:
  assumes "start \<le> m" "m \<le> en"
  shows "mset (rotate_blocks start m en D) = mset D"
proof -
  have "D = take start D @ take (m - start) (drop start D) @ take (en - m) (drop m D) @ drop en D"
  proof -
    have "drop start D = take (m - start) (drop start D) @ drop m D"
      using assms(1) by (metis append_take_drop_id drop_drop le_add_diff_inverse2)
    moreover have "drop m D = take (en - m) (drop m D) @ drop en D"
      using assms(2) by (metis append_take_drop_id drop_drop le_add_diff_inverse2)
    ultimately show ?thesis by (metis append_take_drop_id)
  qed
  then have "mset D = mset (take start D) + mset (take (m - start) (drop start D)) +
      mset (take (en - m) (drop m D)) + mset (drop en D)"
    by (metis (no_types) mset_append add.assoc)
  then show ?thesis by (simp add: rotate_blocks_def)
qed

lemma length_rotate_blocks: "start \<le> m \<Longrightarrow> m \<le> en \<Longrightarrow> length (rotate_blocks start m en D) = length D"
  using mset_rotate_blocks by (metis size_mset)

lemma half_diff_less: "n div 2 < a \<Longrightarrow> a < n \<Longrightarrow> n - n div 2 < (n :: nat)"
  by arith

function symMerge :: "'a less_fun \<Rightarrow> nat \<Rightarrow> 'a list \<Rightarrow> 'a list" where
  "symMerge lt m D =
     (if m = 0 \<or> length D \<le> m then D
      else if m = 1 then
        (let x = hd D; R = tl D; i = bsearch (\<lambda>h. lt (R ! h) x) 0 (length R)
         in take i R @ x # drop i R)
      else if length D - m = 1 then
        (let y = D ! m; L = take m D; i = bsearch (\<lambda>h. \<not> lt y (L ! h)) 0 m
         in take i L @ y # drop i L)
      else
        (let b = length D; mid = b div 2; start = split_point lt m D; en = mid + m - start;
             D' = (if start < m \<and> m < en then rotate_blocks start m en D else D);
             A = take mid D'; B = drop mid D'
         in (if 0 < start \<and> start < mid then symMerge lt start A else A) @
            (if mid < en \<and> en < b then symMerge lt (en - mid) B else B)))"
  by pat_completeness auto
termination
  by (relation "measure (\<lambda>(_, _, D). length D)")
    (auto simp: length_rotate_blocks intro: half_diff_less split: if_splits)

declare symMerge.simps [simp del]

text \<open>The blocks \<open>xs[0:k]\<close>, \<open>xs[k:2k]\<close>, \dots, the last one possibly shorter.\<close>

function chunks :: "nat \<Rightarrow> 'a list \<Rightarrow> 'a list list" where
  "chunks k xs = (if k = 0 \<or> xs = [] then [] else take k xs # chunks k (drop k xs))"
  by pat_completeness auto
termination
  by (relation "measure (\<lambda>(_, xs). length xs)") auto

declare chunks.simps [simp del]

function merge_pass :: "'a less_fun \<Rightarrow> nat \<Rightarrow> 'a list \<Rightarrow> 'a list" where
  "merge_pass lt k xs =
     (if k = 0 \<or> length xs \<le> k then xs
      else symMerge lt k (take (2 * k) xs) @ merge_pass lt k (drop (2 * k) xs))"
  by pat_completeness auto
termination
  by (relation "measure (\<lambda>(_, _, xs). length xs)") auto

declare merge_pass.simps [simp del]

function stable_loop :: "'a less_fun \<Rightarrow> nat \<Rightarrow> nat \<Rightarrow> 'a list \<Rightarrow> 'a list" where
  "stable_loop lt n k xs =
     (if k = 0 \<or> n \<le> k then xs else stable_loop lt n (2 * k) (merge_pass lt k xs))"
  by pat_completeness auto
termination
  by (relation "measure (\<lambda>(_, n, k, _). n - k)") auto

declare stable_loop.simps [simp del]

definition SliceStable :: "'a less_fun \<Rightarrow> 'a list \<Rightarrow> 'a list" where
  "SliceStable lt xs =
     stable_loop lt (length xs) 20 (concat (map (insertionSort lt) (chunks 20 xs)))"

section \<open>A permutation, whatever the comparison\<close>

lemma mset_ins_rev [simp]: "mset (ins_rev lt x ys) = add_mset x (mset ys)"
  by (induction ys) auto

lemma mset_insertionSort [simp]: "mset (insertionSort lt xs) = mset xs"
proof -
  have "mset (fold (ins_rev lt) xs acc) = mset acc + mset xs" for acc
    by (induction xs arbitrary: acc) auto
  then show ?thesis by (simp add: insertionSort_def)
qed

lemma mset_insert_at: "mset (take i R @ x # drop i R) = add_mset x (mset R)"
  by (metis append_take_drop_id mset.simps(2) mset_append union_mset_add_mset_right)

lemma mset_take_drop [simp]: "mset (take n D) + mset (drop n D) = mset D"
  by (metis append_take_drop_id mset_append)

lemma symMerge_trivial: "m = 0 \<or> length D \<le> m \<Longrightarrow> symMerge lt m D = D"
  by (subst symMerge.simps) simp

lemma symMerge_left_one:
  "symMerge lt 1 (x # y # R) =
     (let i = bsearch (\<lambda>h. lt ((y # R) ! h) x) 0 (Suc (length R)) in take i (y # R) @ x # drop i (y # R))"
  by (subst symMerge.simps) (simp add: Let_def)

lemma symMerge_right_one:
  assumes "length L > 1"
  shows "symMerge lt (length L) (L @ [y]) =
     (let i = bsearch (\<lambda>h. \<not> lt y (L ! h)) 0 (length L) in take i L @ y # drop i L)"
proof -
  have "bsearch (\<lambda>h. \<not> lt ((L @ [y]) ! length L) (take (length L) (L @ [y]) ! h)) 0 (length L) =
      bsearch (\<lambda>h. \<not> lt y (L ! h)) 0 (length L)"
    by simp
  with assms show ?thesis by (subst symMerge.simps) (simp add: Let_def)
qed

text \<open>After the rotation: the two halves, each the concatenation of an initial and a final piece
  of the two runs.\<close>

definition half_merged :: "'a less_fun \<Rightarrow> nat \<Rightarrow> 'a list \<Rightarrow> 'a list" where
  "half_merged lt m D =
     (let start = split_point lt m D; en = length D div 2 + m - start
      in if start < m \<and> m < en then rotate_blocks start m en D else D)"

lemma mset_half_merged [simp]: "mset (half_merged lt m D) = mset D"
  by (simp add: half_merged_def Let_def mset_rotate_blocks)

lemma length_half_merged [simp]: "length (half_merged lt m D) = length D"
  by (metis mset_half_merged size_mset)

lemma symMerge_split:
  assumes "1 < m" "m < length D" "length D - m \<noteq> 1"
    and "mid = length D div 2" and "start = split_point lt m D" and "en = mid + m - start"
    and "D' = half_merged lt m D"
  shows "symMerge lt m D =
     (if 0 < start \<and> start < mid then symMerge lt start (take mid D') else take mid D') @
     (if mid < en \<and> en < length D then symMerge lt (en - mid) (drop mid D') else drop mid D')"
  using assms(1-3) unfolding assms(4-7)
  by (subst symMerge.simps) (simp only: half_merged_def Let_def, simp)

lemma symMerge_cases:
  fixes m :: nat and D :: "'a list"
  obtains (trivial) "m = 0 \<or> length D \<le> m"
  | (left_one) x y R where "m = 1" "D = x # y # R"
  | (right_one) L y where "m = length L" "D = L @ [y]" "1 < length L"
  | (split) "1 < m" "m < length D" "length D - m \<noteq> 1"
proof -
  consider "m = 0 \<or> length D \<le> m" | "m = 1" "1 < length D" | "1 < m" "length D = Suc m"
    | "1 < m" "m < length D" "length D - m \<noteq> 1"
    by linarith
  then show ?thesis
  proof cases
    case 1
    then show ?thesis by (rule trivial)
  next
    case 2
    then show ?thesis by (metis left_one One_nat_def length_Cons length_greater_0_conv less_nat_zero_code
        list.exhaust list.size(3) not_less_eq zero_less_one less_trans)
  next
    case 3
    then obtain L y where "D = L @ [y]" by (metis append_butlast_last_id list.size(3) nat.distinct(1))
    with 3 show ?thesis by (intro right_one) auto
  next
    case 4
    then show ?thesis by (rule split)
  qed
qed

lemma mset_symMerge [simp]: "mset (symMerge lt m D) = mset D"
proof (induction "length D" arbitrary: m D rule: less_induct)
  case less
  show ?case
  proof (cases rule: symMerge_cases [of m D])
    case trivial
    then show ?thesis by (simp add: symMerge_trivial)
  next
    case left_one
    then show ?thesis by (simp only: symMerge_left_one Let_def mset_insert_at mset.simps)
  next
    case right_one
    then show ?thesis by (simp add: symMerge_right_one Let_def mset_insert_at)
  next
    case split
    let ?mid = "length D div 2" and ?D = "half_merged lt m D"
    have mid: "0 < ?mid" "?mid < length D" using split(1,2) by auto
    then have "mset (symMerge lt i (take ?mid ?D)) = mset (take ?mid ?D)"
      and "mset (symMerge lt i (drop ?mid ?D)) = mset (drop ?mid ?D)" for i
      by (intro less; simp)+
    then show ?thesis
      unfolding symMerge_split [OF split refl refl refl refl] by simp
  qed
qed

lemma chunks_Nil [simp]: "chunks k [] = []"
  by (subst chunks.simps) simp

lemma concat_chunks: "0 < k \<Longrightarrow> concat (chunks k xs) = xs"
  by (induction k xs rule: chunks.induct) (subst chunks.simps, simp)

lemma mset_merge_pass [simp]: "mset (merge_pass lt k xs) = mset xs"
  by (induction lt k xs rule: merge_pass.induct) (subst merge_pass.simps, simp)

lemma mset_stable_loop [simp]: "mset (stable_loop lt n k xs) = mset xs"
  by (induction lt n k xs rule: stable_loop.induct) (subst stable_loop.simps, simp)

lemma mset_concat_map_insertionSort: "mset (concat (map (insertionSort lt) xss)) = mset (concat xss)"
  by (induction xss) auto

lemma mset_SliceStable [simp]: "mset (SliceStable lt xs) = mset xs"
  by (simp add: SliceStable_def mset_concat_map_insertionSort concat_chunks)

lemma set_SliceStable [simp]: "set (SliceStable lt xs) = set xs"
  by (rule mset_eq_setD) simp

lemma length_SliceStable [simp]: "length (SliceStable lt xs) = length xs"
  by (rule mset_eq_length) simp

section \<open>Sorted, when the comparison is a strict weak order\<close>

text \<open>\<open>weak_on A lt\<close>: on the elements of \<open>A\<close>, \<open>lt\<close> is asymmetric and ``not greater'' is
  transitive.\<close>

definition weak_on :: "'a set \<Rightarrow> 'a less_fun \<Rightarrow> bool" where
  "weak_on A lt \<longleftrightarrow>
     (\<forall>x \<in> A. \<forall>y \<in> A. lt x y \<longrightarrow> \<not> lt y x) \<and>
     (\<forall>x \<in> A. \<forall>y \<in> A. \<forall>z \<in> A. lt x z \<longrightarrow> lt x y \<or> lt y z)"

abbreviation in_order :: "'a less_fun \<Rightarrow> 'a list \<Rightarrow> bool" where
  "in_order lt \<equiv> sorted_wrt (\<lambda>x y. \<not> lt y x)"

lemma weak_on_subset: "weak_on A lt \<Longrightarrow> B \<subseteq> A \<Longrightarrow> weak_on B lt"
  unfolding weak_on_def by (meson subsetD)

lemma weak_on_asym: "weak_on A lt \<Longrightarrow> x \<in> A \<Longrightarrow> y \<in> A \<Longrightarrow> lt x y \<Longrightarrow> \<not> lt y x"
  unfolding weak_on_def by blast

lemma weak_on_le_trans:
  "weak_on A lt \<Longrightarrow> x \<in> A \<Longrightarrow> y \<in> A \<Longrightarrow> z \<in> A \<Longrightarrow> \<not> lt y x \<Longrightarrow> \<not> lt z y \<Longrightarrow> \<not> lt z x"
  unfolding weak_on_def by blast

subsection \<open>Insertion sort\<close>

lemma set_ins_rev [simp]: "set (ins_rev lt x ys) = insert x (set ys)"
  using mset_ins_rev by (metis set_mset_add_mset_insert set_mset_mset)

lemma ins_rev_ordered:
  assumes "weak_on (insert x (set ys)) lt" and "sorted_wrt (\<lambda>x y. \<not> lt x y) ys"
  shows "sorted_wrt (\<lambda>x y. \<not> lt x y) (ins_rev lt x ys)"
  using assms
proof (induction ys)
  case Nil
  then show ?case by simp
next
  case (Cons y ys)
  have weak: "weak_on (insert x (set ys)) lt"
    using Cons.prems(1) by (rule weak_on_subset) auto
  show ?case
  proof (cases "lt x y")
    case True
    then have "\<not> lt y x" using Cons.prems(1) by (auto dest: weak_on_asym)
    with True Cons weak show ?thesis by auto
  next
    case False
    have "\<not> lt x z" if "z \<in> set ys" for z
      by (rule weak_on_le_trans [OF Cons.prems(1), of z y x]) (use that Cons.prems(2) False in auto)
    with False Cons.prems show ?thesis by auto
  qed
qed

lemma insertionSort_in_order: "weak_on (set xs) lt \<Longrightarrow> in_order lt (insertionSort lt xs)"
proof -
  have "weak_on (set acc \<union> set xs) lt \<Longrightarrow> sorted_wrt (\<lambda>x y. \<not> lt x y) acc \<Longrightarrow>
      sorted_wrt (\<lambda>x y. \<not> lt x y) (fold (ins_rev lt) xs acc)" for acc
  proof (induction xs arbitrary: acc)
    case Nil
    then show ?case by simp
  next
    case (Cons x xs)
    have "sorted_wrt (\<lambda>x y. \<not> lt x y) (ins_rev lt x acc)"
      using Cons.prems by (intro ins_rev_ordered) (auto elim: weak_on_subset)
    with Cons.IH [of "ins_rev lt x acc"] Cons.prems(1) show ?case by simp
  qed
  from this [of "[]"] show "weak_on (set xs) lt \<Longrightarrow> in_order lt (insertionSort lt xs)"
    by (simp add: insertionSort_def sorted_wrt_rev)
qed

subsection \<open>\<open>symMerge\<close>\<close>

lemma bsearch_spec:
  assumes "i \<le> j" and "s = bsearch P i j"
  shows "i \<le> s" "s \<le> j" "s = i \<or> P (s - 1)" "s = j \<or> \<not> P s"
proof -
  have "i \<le> bsearch P i j \<and> bsearch P i j \<le> j \<and> (bsearch P i j = i \<or> P (bsearch P i j - 1)) \<and>
      (bsearch P i j = j \<or> \<not> P (bsearch P i j))"
    using assms(1)
  proof (induction P i j rule: bsearch.induct)
    case (1 P i j)
    let ?h = "(i + j) div 2"
    consider "i = j" | "i < j" "P ?h" | "i < j" "\<not> P ?h" using "1.prems" by linarith
    then show ?case
    proof cases
      case 1
      have "bsearch P j j = j" by (subst bsearch.simps) simp
      with 1 show ?thesis by simp
    next
      case 2
      then have "?h + 1 \<le> j" "i \<le> ?h" by auto
      moreover have "bsearch P i j = bsearch P (?h + 1) j" using 2 by (subst bsearch.simps) simp
      ultimately have s: "i \<le> bsearch P i j" "bsearch P i j \<le> j" "bsearch P i j = j \<or> \<not> P (bsearch P i j)"
        and "bsearch P i j = ?h + 1 \<or> P (bsearch P i j - 1)"
        using "1.IH"(1) [OF 2] by auto
      then have "P (bsearch P i j - 1)" using 2(2) by (metis add_diff_cancel_right')
      with s show ?thesis by blast
    next
      case 3
      then have "i \<le> ?h" "?h \<le> j" by auto
      moreover have "bsearch P i j = bsearch P i ?h" using 3 by (subst bsearch.simps) simp
      ultimately show ?thesis using "1.IH"(2) [OF 3] 3 by auto
    qed
  qed
  then show "i \<le> s" "s \<le> j" "s = i \<or> P (s - 1)" "s = j \<or> \<not> P s"
    unfolding assms(2) by blast+
qed

text \<open>If the element before position \<open>s\<close> of one run is not above the element at position \<open>t\<close> of
  another, nothing before \<open>s\<close> is above anything from \<open>t\<close> on.\<close>

lemma pieces_in_order:
  assumes weak: "weak_on A lt" and sub: "set xs \<subseteq> A" "set ys \<subseteq> A"
    and ord: "in_order lt xs" "in_order lt ys"
    and cut: "0 < s \<Longrightarrow> s \<le> length xs \<Longrightarrow> t < length ys \<Longrightarrow> \<not> lt (ys ! t) (xs ! (s - 1))"
    and s: "s \<le> length xs" and x: "x \<in> set (take s xs)" and y: "y \<in> set (drop t ys)"
  shows "\<not> lt y x"
proof -
  from x obtain i where i: "i < s" "i < length xs" "x = xs ! i" by (auto simp: in_set_conv_nth)
  from y obtain j where "j < length ys - t" and yj: "y = ys ! (t + j)" by (auto simp: in_set_conv_nth)
  then have j: "t + j < length ys" "y = ys ! (t + j)" by simp_all
  have mem: "x \<in> A" "y \<in> A" "xs ! (s - 1) \<in> A" "ys ! t \<in> A"
    using i j s by (auto intro!: subsetD [OF sub(1) nth_mem] subsetD [OF sub(2) nth_mem])
  have "\<not> lt (xs ! (s - 1)) x"
    using ord(1) i s weak mem(1) by (cases "i = s - 1") (auto simp: sorted_wrt_iff_nth_less dest: weak_on_asym)
  moreover have "\<not> lt (ys ! t) (xs ! (s - 1))" using cut i j s by simp
  ultimately have "\<not> lt (ys ! t) x" using weak mem weak_on_le_trans by metis
  moreover have "\<not> lt y (ys ! t)"
    using ord(2) j weak mem(2) by (cases "j = 0") (auto simp: sorted_wrt_iff_nth_less dest: weak_on_asym)
  ultimately show ?thesis using weak mem weak_on_le_trans by metis
qed

lemma in_order_insert:
  assumes "weak_on (insert x (set R)) lt" "in_order lt R" "s \<le> length R"
    and "0 < s \<Longrightarrow> \<not> lt x (R ! (s - 1))" and "s < length R \<Longrightarrow> \<not> lt (R ! s) x"
  shows "in_order lt (take s R @ x # drop s R)"
proof -
  have "\<not> lt x y" if "y \<in> set (take s R)" for y
    by (rule pieces_in_order [of "insert x (set R)" lt R "[x]" s 0]) (use assms that in auto)
  moreover have "\<not> lt y x" if "y \<in> set (drop s R)" for y
    by (rule pieces_in_order [of "insert x (set R)" lt "[x]" R 1 s]) (use assms that in auto)
  moreover have "in_order lt (take s R @ drop s R)" using assms(2) by simp
  ultimately show ?thesis by (auto simp only: sorted_wrt_append sorted_wrt.simps set_simps)
qed

lemma split_point_facts:
  assumes "1 < m" "m < length D"
    and "mid = length D div 2" and "s = split_point lt m D" and "en = mid + m - s"
  shows "s \<le> m" "s \<le> mid" "m \<le> en" "mid \<le> en" "en \<le> length D"
    and "0 < s \<Longrightarrow> en < length D \<Longrightarrow> \<not> lt (D ! en) (D ! (s - 1))"
    and "s < m \<Longrightarrow> m < en \<Longrightarrow> lt (D ! (en - 1)) (D ! s)"
proof -
  let ?P = "\<lambda>c. \<not> lt (D ! (mid + m - 1 - c)) (D ! c)"
  define start0 r0 where "start0 = (if mid < m then mid + m - length D else 0)"
    and "r0 = (if mid < m then mid else m)"
  have s: "s = bsearch ?P start0 r0"
    by (simp add: assms(3,4) split_point_def Let_def start0_def r0_def)
  have le: "start0 \<le> r0" using assms(1-3) by (auto simp: start0_def r0_def)
  note sb = bsearch_spec(1,2) [OF le s] and res = bsearch_spec(3,4) [OF le s]
  have half: "2 * mid \<le> length D" "length D \<le> 2 * mid + 1" using assms(3) by simp_all
  show bounds: "s \<le> m" "s \<le> mid" "m \<le> en" "mid \<le> en" "en \<le> length D"
    using sb assms(1,2,5) half unfolding start0_def r0_def by (cases "mid < m"; simp)+
  show "\<not> lt (D ! en) (D ! (s - 1))" if "0 < s" "en < length D"
  proof -
    have "s \<noteq> start0" using that assms(1,2,5) half by (cases "mid < m") (auto simp: start0_def)
    moreover have "mid + m - 1 - (s - 1) = en" using that(1) bounds assms(1,5) by simp
    ultimately show ?thesis using res(1) by simp
  qed
  show "lt (D ! (en - 1)) (D ! s)" if "s < m" "m < en"
  proof -
    have "s \<noteq> r0" using that assms(5) by (cases "mid < m") (auto simp: r0_def)
    moreover have "mid + m - 1 - s = en - 1" using assms(5) by simp
    ultimately show ?thesis using res(2) by simp
  qed
qed

lemma half_merged_pieces:
  assumes "m \<le> length D" and "s = split_point lt m D" and "s \<le> m" and "s \<le> length D div 2"
    and "t = length D div 2 - s" and "t \<le> length D - m"
  shows "take (length D div 2) (half_merged lt m D) = take s (take m D) @ take t (drop m D)"
    and "drop (length D div 2) (half_merged lt m D) = drop s (take m D) @ drop t (drop m D)"
proof -
  let ?mid = "length D div 2"
  have en: "?mid + m - s - m = t" "?mid + m - s = m + t" using assms(3,4,5) by simp_all
  have D: "D = take s D @ drop s (take m D) @ drop m D"
    using assms(3) by (metis append.assoc append_take_drop_id take_take min.absorb1)
  have "half_merged lt m D = take s (take m D) @ take t (drop m D) @ drop s (take m D) @ drop t (drop m D)"
  proof (cases "s < m \<and> m < ?mid + m - s")
    case True
    have "take (m - s) (drop s D) = drop s (take m D)" by (simp add: drop_take)
    with True show ?thesis
      unfolding half_merged_def Let_def assms(2) [symmetric] rotate_blocks_def en
      using assms(3) by (simp add: add.commute min_absorb1)
  next
    case False
    then have "s = m \<or> t = 0" using assms(3,4,5) by auto
    then have "take s (take m D) @ take t (drop m D) @ drop s (take m D) @ drop t (drop m D) = D"
    proof
      assume "s = m"
      then have "take s (take m D) = take m D" "drop s (take m D) = []" by simp_all
      then show ?thesis by (simp only: append_Nil append_take_drop_id)
    next
      assume "t = 0"
      then have "take t (drop m D) = []" "drop t (drop m D) = drop m D" by simp_all
      moreover have "take s (take m D) = take s D" using assms(3) by (simp add: min_absorb1)
      ultimately show ?thesis using D by (simp only: append_Nil)
    qed
    with False show ?thesis
      by (auto simp: half_merged_def Let_def assms(2) [symmetric])
  qed
  moreover have "length (take s (take m D) @ take t (drop m D)) = ?mid"
    using assms(1,3,4,5,6) by simp
  ultimately show "take ?mid (half_merged lt m D) = take s (take m D) @ take t (drop m D)"
    and "drop ?mid (half_merged lt m D) = drop s (take m D) @ drop t (drop m D)"
    by (metis append_eq_conv_conj append.assoc)+
qed

lemma set_symMerge: "set (symMerge lt m D) = set D"
  by (rule mset_eq_setD) simp

lemma in_order_take_drop:
  "in_order lt xs \<Longrightarrow> x \<in> set (take s xs) \<Longrightarrow> y \<in> set (drop s xs) \<Longrightarrow> \<not> lt y x"
  by (metis append_take_drop_id sorted_wrt_append)

text \<open>The two halves after the rotation: every element of the first is at most every element of the
  second, and each is again two consecutive sorted runs.\<close>

lemma halves_in_order:
  assumes weak: "weak_on (set D) lt" and ord: "in_order lt (take m D)" "in_order lt (drop m D)"
    and m: "1 < m" "m < length D"
    and mid: "mid = length D div 2" and s: "s = split_point lt m D" and en: "en = mid + m - s"
    and x: "x \<in> set (take mid (half_merged lt m D))" and y: "y \<in> set (drop mid (half_merged lt m D))"
  shows "\<not> lt y x"
proof -
  define t L R where "t = mid - s" and "L = take m D" and "R = drop m D"
  note defs = t_def L_def R_def
  note facts = split_point_facts [OF m mid s en]
  have ord': "in_order lt L" "in_order lt R" using ord by (simp_all add: defs)
  have sub: "set L \<subseteq> set D" "set R \<subseteq> set D" by (auto simp: defs dest: in_set_takeD in_set_dropD)
  have lens: "length L = m" "length R = length D - m" "en = m + t" using m facts(2) by (simp_all add: defs en)
  have R_at: "j < length R \<Longrightarrow> R ! j = D ! (m + j)" for j using m by (simp add: R_def)
  have L_at: "j < m \<Longrightarrow> L ! j = D ! j" for j by (simp add: L_def)
  have LR: "\<not> lt y x" if "x \<in> set (take s L)" "y \<in> set (drop t R)"
    by (rule pieces_in_order [OF weak sub ord' _ _ that]) (use facts(1,6) lens L_at R_at in auto)
  have RL: "\<not> lt y x" if "x \<in> set (take t R)" "y \<in> set (drop s L)"
  proof (rule pieces_in_order [OF weak sub(2,1) ord'(2,1) _ _ that])
    show "t \<le> length R" using facts(5) lens by simp
    assume t: "0 < t" "t \<le> length R" "s < length L"
    then have "lt (R ! (t - 1)) (L ! s)" using facts(7) lens L_at R_at by simp
    then show "\<not> lt (L ! s) (R ! (t - 1))"
      using t by (intro weak_on_asym [OF weak]) (auto intro!: subsetD [OF sub(1) nth_mem] subsetD [OF sub(2) nth_mem])
  qed
  have "x \<in> set (take s L @ take t R)" and "y \<in> set (drop s L @ drop t R)"
    using x y half_merged_pieces [OF less_imp_le [OF m(2)] s facts(1), of t] facts(2,5) lens(3)
    by (simp_all add: mid defs)
  then show ?thesis
    using LR RL in_order_take_drop [OF ord'(1)] in_order_take_drop [OF ord'(2)] by auto
qed

lemma halves_are_runs:
  assumes ord: "in_order lt (take m D)" "in_order lt (drop m D)" and m: "1 < m" "m < length D"
    and mid: "mid = length D div 2" and s: "s = split_point lt m D" and en: "en = mid + m - s"
    and A: "A = take mid (half_merged lt m D)" and B: "B = drop mid (half_merged lt m D)"
  shows "in_order lt (take s A)" "in_order lt (drop s A)"
    and "in_order lt (take (en - mid) B)" "in_order lt (drop (en - mid) B)"
    and "\<not> (0 < s \<and> s < mid) \<Longrightarrow> in_order lt A"
    and "\<not> (mid < en \<and> en < length D) \<Longrightarrow> in_order lt B"
proof -
  define t L R where "t = mid - s" and "L = take m D" and "R = drop m D"
  note facts = split_point_facts [OF m mid s en]
  have L: "in_order lt (take i L)" "in_order lt (drop i L)" and R: "in_order lt (take i R)" "in_order lt (drop i R)" for i
    using ord unfolding L_def [symmetric] R_def [symmetric] by (simp_all only: sorted_wrt_take sorted_wrt_drop)
  have lens: "length L = m" "length R = length D - m" using m by (simp_all add: L_def R_def)
  have pieces: "A = take s L @ take t R" "B = drop s L @ drop t R"
    using half_merged_pieces [OF less_imp_le [OF m(2)] s facts(1), of t] facts(2,5)
    by (simp_all add: A B mid t_def L_def R_def en)
  have len: "length (drop s L) = en - mid" "length (take s L) = s"
    using facts(1,2) lens by (simp_all add: en)
  show "in_order lt (take s A)" "in_order lt (drop s A)"
    using L R len(2) by (simp_all add: pieces)
  show "in_order lt (take (en - mid) B)" "in_order lt (drop (en - mid) B)"
    using L R by (simp_all add: pieces len(1) [symmetric])
  show "in_order lt A" if "\<not> (0 < s \<and> s < mid)"
  proof -
    have "s = 0 \<or> t = 0" using that facts(2) by (auto simp: t_def)
    then show ?thesis using L R by (auto simp: pieces)
  qed
  show "in_order lt B" if "\<not> (mid < en \<and> en < length D)"
  proof -
    have "s = m \<or> t = length R" using that facts lens by (auto simp: t_def en)
    then show ?thesis using L R lens by (auto simp: pieces)
  qed
qed

lemma symMerge_left_one_in_order:
  assumes weak: "weak_on (insert x (set R)) lt" and "in_order lt R" and "R \<noteq> []"
  shows "in_order lt (symMerge lt 1 (x # R))"
proof -
  define i where "i = bsearch (\<lambda>h. lt (R ! h) x) 0 (length R)"
  note spec = bsearch_spec [OF le0 i_def]
  have "in_order lt (take i R @ x # drop i R)"
  proof (rule in_order_insert [OF weak assms(2) spec(2)])
    assume "0 < i"
    then have "lt (R ! (i - 1)) x" "R ! (i - 1) \<in> set R" using spec(2,3) by auto
    then show "\<not> lt x (R ! (i - 1))" by (intro weak_on_asym [OF weak]) auto
  qed (use spec(4) in simp)
  then show ?thesis using assms(3) by (cases R) (simp_all add: symMerge_left_one [simplified] i_def Let_def)
qed

lemma symMerge_right_one_in_order:
  assumes weak: "weak_on (insert y (set L)) lt" and "in_order lt L" and "1 < length L"
  shows "in_order lt (symMerge lt (length L) (L @ [y]))"
proof -
  define i where "i = bsearch (\<lambda>h. \<not> lt y (L ! h)) 0 (length L)"
  note spec = bsearch_spec [OF le0 i_def]
  have "in_order lt (take i L @ y # drop i L)"
  proof (rule in_order_insert [OF weak assms(2) spec(2)])
    assume "i < length L"
    then have "lt y (L ! i)" "L ! i \<in> set L" using spec(4) by auto
    then show "\<not> lt (L ! i) y" by (intro weak_on_asym [OF weak]) auto
  qed (use spec(3) in simp)
  then show ?thesis unfolding symMerge_right_one [OF assms(3)] Let_def i_def .
qed

lemma symMerge_in_order:
  assumes "weak_on (set D) lt" and "in_order lt (take m D)" and "in_order lt (drop m D)"
  shows "in_order lt (symMerge lt m D)"
  using assms
proof (induction "length D" arbitrary: m D rule: less_induct)
  case less
  show ?case
  proof (cases rule: symMerge_cases [of m D])
    case trivial
    with less.prems show ?thesis by (auto simp: symMerge_trivial)
  next
    case (left_one x y R)
    with less.prems symMerge_left_one_in_order [of x "y # R" lt] show ?thesis by simp
  next
    case (right_one L y)
    with less.prems symMerge_right_one_in_order [of y L lt] show ?thesis by simp
  next
    case split
    define mid s where "mid = length D div 2" and "s = split_point lt m D"
    define en where "en = mid + m - s"
    define A B where "A = take mid (half_merged lt m D)" and "B = drop mid (half_merged lt m D)"
    note runs = halves_are_runs [OF less.prems(2,3) split(1,2) mid_def s_def en_def A_def B_def]
    note cross = halves_in_order [OF less.prems split(1,2) mid_def s_def en_def, folded A_def B_def]
    have "set A \<union> set B = set (half_merged lt m D)"
      by (simp add: A_def B_def flip: set_append)
    also have "\<dots> = set D" by (rule mset_eq_setD) simp
    finally have weak: "weak_on (set A) lt" "weak_on (set B) lt"
      using less.prems(1) by (auto elim: weak_on_subset)
    have len: "length A < length D" "length B < length D"
      using split(1,2) by (auto simp: A_def B_def mid_def)
    have "in_order lt (if 0 < s \<and> s < mid then symMerge lt s A else A)"
      and "in_order lt (if mid < en \<and> en < length D then symMerge lt (en - mid) B else B)"
      using runs less.hyps len weak by auto
    moreover have "set (if 0 < s \<and> s < mid then symMerge lt s A else A) = set A"
      and "set (if mid < en \<and> en < length D then symMerge lt (en - mid) B else B) = set B"
      by (auto simp: set_symMerge)
    ultimately show ?thesis
      unfolding symMerge_split [OF split mid_def s_def en_def refl] A_def [symmetric] B_def [symmetric]
      using cross by (simp add: sorted_wrt_append)
  qed
qed

subsection \<open>The passes\<close>

text \<open>The state between the passes: consecutive runs of length \<open>k\<close>, each in order.\<close>

function runs_in_order :: "'a less_fun \<Rightarrow> nat \<Rightarrow> 'a list \<Rightarrow> bool" where
  "runs_in_order lt k xs =
     (if k = 0 \<or> xs = [] then True else in_order lt (take k xs) \<and> runs_in_order lt k (drop k xs))"
  by pat_completeness auto
termination
  by (relation "measure (\<lambda>(_, _, xs). length xs)") auto

declare runs_in_order.simps [simp del]

lemma runs_in_order_step:
  "0 < k \<Longrightarrow> runs_in_order lt k xs \<longleftrightarrow> in_order lt (take k xs) \<and> runs_in_order lt k (drop k xs)"
  by (cases "xs = []") (simp_all add: runs_in_order.simps [of lt k "[]"] runs_in_order.simps [of lt k xs])

lemma runs_in_order_Nil [simp]: "runs_in_order lt k []"
  by (subst runs_in_order.simps) simp

lemma runs_in_order_short: "0 < k \<Longrightarrow> length xs \<le> k \<Longrightarrow> in_order lt xs \<Longrightarrow> runs_in_order lt k xs"
  by (subst runs_in_order_step) simp_all

lemma runs_in_order_append:
  assumes "0 < k" and "in_order lt P" and "runs_in_order lt k Q" and "length P = k \<or> length P \<le> k \<and> Q = []"
  shows "runs_in_order lt k (P @ Q)"
  using assms(4)
proof
  assume "length P = k"
  with assms(1-3) show ?thesis by (subst runs_in_order_step) simp_all
qed (use assms(1,2) in \<open>simp add: runs_in_order_short\<close>)

lemma merge_pass_runs:
  assumes "0 < k" and "weak_on (set xs) lt" and "runs_in_order lt k xs"
  shows "runs_in_order lt (2 * k) (merge_pass lt k xs)"
  using assms
proof (induction lt k xs rule: merge_pass.induct)
  case (1 lt k xs)
  show ?case
  proof (cases "length xs \<le> k")
    case True
    then have "in_order lt xs" using "1.prems" runs_in_order_step [of k lt xs] by simp
    moreover have "merge_pass lt k xs = xs" using True by (subst merge_pass.simps) simp
    ultimately show ?thesis using True "1.prems"(1) by (simp add: runs_in_order_short)
  next
    case False
    let ?P = "symMerge lt k (take (2 * k) xs)" and ?Q = "merge_pass lt k (drop (2 * k) xs)"
    from "1.prems"(1,3) have "in_order lt (take k xs)" "in_order lt (take k (drop k xs))"
      and runs: "runs_in_order lt k (drop (2 * k) xs)"
      using runs_in_order_step [of k lt] by (metis, metis, metis drop_drop mult_2)
    then have "in_order lt (take k (take (2 * k) xs))" "in_order lt (drop k (take (2 * k) xs))"
      by (simp_all add: drop_take mult_2 min_absorb1)
    then have P: "in_order lt ?P"
      by (intro symMerge_in_order weak_on_subset [OF "1.prems"(2)] set_take_subset)
    have Q: "runs_in_order lt (2 * k) ?Q"
      using False "1.prems"(1) runs by (intro "1.IH" weak_on_subset [OF "1.prems"(2)] set_drop_subset) simp_all
    have eq: "merge_pass lt k xs = ?P @ ?Q" using False "1.prems"(1) by (subst merge_pass.simps) simp
    have len: "length ?P = min (length xs) (2 * k)"
      by (metis length_take mset_eq_length mset_symMerge)
    have "?Q = []" if "length xs \<le> 2 * k"
      using that "1.prems"(1) by (subst merge_pass.simps) simp
    with len have "length ?P = 2 * k \<or> length ?P \<le> 2 * k \<and> ?Q = []"
      by (cases "length xs \<le> 2 * k") auto
    with P Q "1.prems"(1) show ?thesis
      unfolding eq by (intro runs_in_order_append) simp_all
  qed
qed

lemma stable_loop_in_order:
  assumes "0 < k" and "weak_on (set xs) lt" and "runs_in_order lt k xs" and "n = length xs"
  shows "in_order lt (stable_loop lt n k xs)"
  using assms
proof (induction lt n k xs rule: stable_loop.induct)
  case (1 lt n k xs)
  show ?case
  proof (cases "n \<le> k")
    case True
    with "1.prems" runs_in_order_step [of k lt xs] have "in_order lt xs" by simp
    moreover have "stable_loop lt n k xs = xs" using True by (subst stable_loop.simps) simp
    ultimately show ?thesis by simp
  next
    case False
    have "length (merge_pass lt k xs) = length xs" by (rule mset_eq_length) simp
    moreover have "set (merge_pass lt k xs) = set xs" by (rule mset_eq_setD) simp
    ultimately have "in_order lt (stable_loop lt n (2 * k) (merge_pass lt k xs))"
      using False "1.prems" merge_pass_runs [of k xs lt] by (intro "1.IH") auto
    with False "1.prems"(1) show ?thesis by (simp add: stable_loop.simps [of lt n k xs])
  qed
qed

lemma runs_of_chunks:
  assumes "0 < k" and "weak_on (set xs) lt"
  shows "runs_in_order lt k (concat (map (insertionSort lt) (chunks k xs)))"
  using assms
proof (induction k xs rule: chunks.induct)
  case (1 k xs)
  show ?case
  proof (cases "xs = []")
    case True
    then show ?thesis by simp
  next
    case False
    let ?P = "insertionSort lt (take k xs)" and ?Q = "concat (map (insertionSort lt) (chunks k (drop k xs)))"
    have P: "in_order lt ?P"
      by (intro insertionSort_in_order weak_on_subset [OF "1.prems"(2)] set_take_subset)
    have Q: "runs_in_order lt k ?Q"
      using False "1.prems"(1) by (intro "1.IH" weak_on_subset [OF "1.prems"(2)] set_drop_subset) simp_all
    have len: "length ?P = min (length xs) k" by (metis length_take mset_eq_length mset_insertionSort)
    have "?Q = []" if "length xs < k" using that by simp
    then have "length ?P = k \<or> length ?P \<le> k \<and> ?Q = []" using len by (cases "length xs < k") auto
    then have "runs_in_order lt k (?P @ ?Q)" by (rule runs_in_order_append [OF "1.prems"(1) P Q])
    moreover have "chunks k xs = take k xs # chunks k (drop k xs)"
      using False "1.prems"(1) by (subst chunks.simps) simp
    ultimately show ?thesis by simp
  qed
qed

lemma SliceStable_in_order:
  assumes "weak_on (set xs) lt"
  shows "in_order lt (SliceStable lt xs)"
proof -
  let ?ys = "concat (map (insertionSort lt) (chunks 20 xs))"
  have "mset ?ys = mset xs" by (simp add: mset_concat_map_insertionSort concat_chunks)
  then have "set ?ys = set xs" "length ?ys = length xs" by (rule mset_eq_setD, rule mset_eq_length)
  with assms runs_of_chunks [of 20 xs lt] show ?thesis
    unfolding SliceStable_def by (intro stable_loop_in_order) auto
qed

section \<open>The interface\<close>

text \<open>
  What a client of the sort may rely on.  \<open>decisive_on\<close> is what makes the result canonical: two
  different elements are never equivalent.
\<close>

definition decisive_on :: "'a set \<Rightarrow> 'a less_fun \<Rightarrow> bool" where
  "decisive_on A lt \<longleftrightarrow> (\<forall>x \<in> A. \<forall>y \<in> A. x \<noteq> y \<longrightarrow> lt x y \<or> lt y x)"

locale sorter =
  fixes lt :: "'a less_fun" and srt :: "'a list \<Rightarrow> 'a list"
  assumes mset_srt: "mset (srt xs) = mset xs"
    and srt_in_order: "weak_on (set xs) lt \<Longrightarrow> in_order lt (srt xs)"
begin

lemma set_srt: "set (srt xs) = set xs"
  by (rule mset_eq_setD [OF mset_srt])

lemma length_srt: "length (srt xs) = length xs"
  by (rule mset_eq_length [OF mset_srt])

lemma in_order_unique:
  assumes "decisive_on (set xs) lt" and "in_order lt xs" "in_order lt ys" and "mset xs = mset ys"
  shows "xs = ys"
  using assms
proof (induction xs arbitrary: ys)
  case Nil
  then show ?case by simp
next
  case (Cons x xs)
  then obtain y zs where ys: "ys = y # zs" by (cases ys) auto
  have sets: "set (x # xs) = set (y # zs)" using Cons.prems(4) by (metis ys mset_eq_setD)
  have "x = y"
  proof (rule ccontr)
    assume "x \<noteq> y"
    then have "y \<in> set xs" "x \<in> set zs" using sets by auto
    then have "\<not> lt y x" "\<not> lt x y" using Cons.prems(2,3) by (auto simp: ys)
    then show False using \<open>x \<noteq> y\<close> \<open>y \<in> set xs\<close> Cons.prems(1) by (auto simp: decisive_on_def)
  qed
  moreover have "xs = zs"
    using Cons \<open>x = y\<close> by (intro Cons.IH) (auto simp: ys decisive_on_def)
  ultimately show ?case by (simp add: ys)
qed

text \<open>With a decisive strict weak order the sorted list depends on the elements only, not on the
  order in which they came.\<close>

lemma srt_canonical:
  assumes "weak_on (set xs) lt" and "decisive_on (set xs) lt" and "mset xs = mset ys"
  shows "srt xs = srt ys"
proof (rule in_order_unique)
  have "set ys = set xs" using assms(3) by (metis mset_eq_setD)
  then show "in_order lt (srt ys)" using assms(1) by (intro srt_in_order) simp
qed (use assms in \<open>simp_all add: set_srt srt_in_order mset_srt\<close>)

end

interpretation go: sorter lt "SliceStable lt" for lt
  by unfold_locales (simp_all add: SliceStable_in_order)

text \<open>On few elements the algorithm is the insertion sort alone.\<close>

lemma SliceStable_small: "length xs \<le> 20 \<Longrightarrow> SliceStable lt xs = insertionSort lt xs"
proof -
  assume "length xs \<le> 20"
  moreover have "chunks 20 xs = (if xs = [] then [] else [xs])" using \<open>length xs \<le> 20\<close>
    by (subst chunks.simps) simp
  ultimately show ?thesis
    by (simp add: SliceStable_def stable_loop.simps [of lt "length xs"] insertionSort_def)
qed

end
