(* ===== verification/Go_JSON.thy ===== *)
theory Go_JSON
  imports Go_Strings
begin

text \<open>
  The parts of \<open>encoding/json\<close> the program depends on: signatures cover the bytes of
  \<open>json.Marshal\<close>, and everything a peer receives goes through \<open>json.Unmarshal\<close>.

  The encoder writes a tree of values with Go's escaping rules (HTML characters, control
  characters, U+2028/2029, and \<open>\ufffd\<close> for a byte that is not valid UTF-8).  The decoder is
  a recursive-descent version of Go's scanner with its limit of 10000 nested containers; \<open>unquote\<close>
  turns the body of a string literal into bytes.  A fuel argument bounds the recursion, and
  \<open>parse_enough_fuel\<close> shows that the fuel \<open>json_Parse\<close> passes is never used up.
\<close>

section \<open>UTF-8\<close>

abbreviation cont_byte :: "char \<Rightarrow> bool" where
  "cont_byte c \<equiv> 128 \<le> byte c \<and> byte c \<le> 191"

text \<open>\<open>utf8.DecodeRune\<close>: the length of the well-formed multi-byte encoding at the head of a string
  whose first byte is at least 128, and 0 where Go answers \<open>RuneError\<close> with width 1.\<close>

definition utf8_len :: "string \<Rightarrow> nat" where
  "utf8_len s = (case s of
      [] \<Rightarrow> 0
    | a # s1 \<Rightarrow>
      (case s1 of
        [] \<Rightarrow> 0
      | b # s2 \<Rightarrow>
        if 194 \<le> byte a \<and> byte a \<le> 223 then (if cont_byte b then 2 else 0)
        else (case s2 of
          [] \<Rightarrow> 0
        | c # s3 \<Rightarrow>
          if 224 \<le> byte a \<and> byte a \<le> 239 then
            (if cont_byte b \<and> (byte a = 224 \<longrightarrow> 160 \<le> byte b) \<and> (byte a = 237 \<longrightarrow> byte b \<le> 159) \<and> cont_byte c
             then 3 else 0)
          else (case s3 of
            [] \<Rightarrow> 0
          | d # _ \<Rightarrow>
            if 240 \<le> byte a \<and> byte a \<le> 244 \<and> cont_byte b \<and> (byte a = 240 \<longrightarrow> 144 \<le> byte b) \<and>
               (byte a = 244 \<longrightarrow> byte b \<le> 143) \<and> cont_byte c \<and> cont_byte d
            then 4 else 0))))"

lemma utf8_len_bounds: "utf8_len s \<le> length s" "utf8_len s \<le> 4" "utf8_len s \<noteq> 1"
  by (auto simp: utf8_len_def split: list.splits)

text \<open>Strings that are valid UTF-8.\<close>

function valid_utf8 :: "string \<Rightarrow> bool" where
  "valid_utf8 [] = True"
| "valid_utf8 (c # s) =
     (if byte c < 128 then valid_utf8 s
      else if utf8_len (c # s) = 0 then False
      else valid_utf8 (drop (utf8_len (c # s)) (c # s)))"
  by pat_completeness auto
termination
  by (relation "measure length") (auto simp: less_Suc_eq_le)

declare valid_utf8.simps(2) [simp del]

section \<open>Values and the encoder\<close>

datatype json = JNull | JBool bool | JNum string | JStr string | JArr "json list" | JObj "(string \<times> json) list"

definition hex_digit :: "nat \<Rightarrow> char" where
  "hex_digit n = (if n < 10 then char_of (48 + n) else char_of (87 + n))"

definition hex_byte :: "char \<Rightarrow> string" where
  "hex_byte c = [hex_digit (byte c div 16), hex_digit (byte c mod 16)]"

definition esc_ascii :: "char \<Rightarrow> string" where
  "esc_ascii c =
     (if c = CHR 0x5C \<or> c = CHR 0x22 then [CHR 0x5C, c]
      else if c = CHR 0x08 then [CHR 0x5C, CHR ''b'']
      else if c = CHR 0x0C then [CHR 0x5C, CHR ''f'']
      else if c = CHR 0x0A then [CHR 0x5C, CHR ''n'']
      else if c = CHR 0x0D then [CHR 0x5C, CHR ''r'']
      else if c = CHR 0x09 then [CHR 0x5C, CHR ''t'']
      else if byte c < 32 \<or> c = CHR ''<'' \<or> c = CHR ''>'' \<or> c = CHR ''&''
        then [CHR 0x5C, CHR ''u'', CHR ''0'', CHR ''0''] @ hex_byte c
      else [c])"

text \<open>U+2028 and U+2029 are written as escapes, other multi-byte code points as they are.\<close>

definition esc_rune :: "string \<Rightarrow> string" where
  "esc_rune u =
     (if u = [CHR 0xE2, CHR 0x80, CHR 0xA8] then [CHR 0x5C] @ ''u2028''
      else if u = [CHR 0xE2, CHR 0x80, CHR 0xA9] then [CHR 0x5C] @ ''u2029''
      else u)"

function json_escape :: "string \<Rightarrow> string" where
  "json_escape [] = []"
| "json_escape (c # s) =
     (if byte c < 128 then esc_ascii c @ json_escape s
      else if utf8_len (c # s) = 0 then [CHR 0x5C] @ ''ufffd'' @ json_escape s
      else esc_rune (take (utf8_len (c # s)) (c # s)) @ json_escape (drop (utf8_len (c # s)) (c # s)))"
  by pat_completeness auto
termination
  by (relation "measure length") (auto simp: less_Suc_eq_le)

declare json_escape.simps(2) [simp del]

definition json_string :: "string \<Rightarrow> string" where
  "json_string s = [CHR 0x22] @ json_escape s @ [CHR 0x22]"

fun commas :: "string list \<Rightarrow> string" where
  "commas [] = []"
| "commas [x] = x"
| "commas (x # y # xs) = x @ '','' @ commas (y # xs)"

fun json_Render :: "json \<Rightarrow> string" where
  "json_Render JNull = ''null''"
| "json_Render (JBool b) = (if b then ''true'' else ''false'')"
| "json_Render (JNum n) = n"
| "json_Render (JStr s) = json_string s"
| "json_Render (JArr vs) = ''['' @ commas (map json_Render vs) @ '']''"
| "json_Render (JObj ms) = ''{'' @ commas (map (\<lambda>(k, v). json_string k @ '':'' @ json_Render v) ms) @ ''}''"

text \<open>\<open>json.MarshalIndent\<close>: the same tokens with white space between them -- \<open>nl l\<close> before an element at
  nesting level \<open>l\<close> and before a closing bracket, \<open>sp\<close> after a colon.\<close>

fun joined :: "string \<Rightarrow> string list \<Rightarrow> string" where
  "joined sep [] = []"
| "joined sep [x] = x"
| "joined sep (x # y # xs) = x @ sep @ joined sep (y # xs)"

fun json_Layout :: "(nat \<Rightarrow> string) \<Rightarrow> string \<Rightarrow> nat \<Rightarrow> json \<Rightarrow> string" where
  "json_Layout nl sp l JNull = ''null''"
| "json_Layout nl sp l (JBool b) = (if b then ''true'' else ''false'')"
| "json_Layout nl sp l (JNum n) = n"
| "json_Layout nl sp l (JStr s) = json_string s"
| "json_Layout nl sp l (JArr vs) =
     (if vs = [] then ''[]''
      else ''['' @ nl (Suc l) @ joined (CHR '','' # nl (Suc l)) (map (json_Layout nl sp (Suc l)) vs) @ nl l @ '']'')"
| "json_Layout nl sp l (JObj ms) =
     (if ms = [] then ''{}''
      else ''{'' @ nl (Suc l) @
        joined (CHR '','' # nl (Suc l)) (map (\<lambda>(k, v). json_string k @ '':'' @ sp @ json_Layout nl sp (Suc l) v) ms) @ nl l @ ''}'')"

definition json_Indent :: "json \<Rightarrow> string" where
  "json_Indent v = json_Layout (\<lambda>l. CHR 0x0A # concat (replicate l ''  '')) '' '' 0 v"

section \<open>The decoder\<close>

datatype parse_fail = BadChar | EndOfInput | TooDeep | FuelOut

definition is_ws :: "char \<Rightarrow> bool" where
  "is_ws c = (c = CHR 0x20 \<or> c = CHR 0x09 \<or> c = CHR 0x0D \<or> c = CHR 0x0A)"

definition skip_ws :: "string \<Rightarrow> string" where
  "skip_ws s = dropWhile is_ws s"

definition is_digit :: "char \<Rightarrow> bool" where
  "is_digit c = (48 \<le> byte c \<and> byte c \<le> 57)"

definition hex_value :: "char \<Rightarrow> nat option" where
  "hex_value c =
     (if is_digit c then Some (byte c - 48)
      else if 97 \<le> byte c \<and> byte c \<le> 102 then Some (byte c - 87)
      else if 65 \<le> byte c \<and> byte c \<le> 70 then Some (byte c - 55)
      else None)"

definition is_hex :: "char \<Rightarrow> bool" where
  "is_hex c = (hex_value c \<noteq> None)"

text \<open>A scanner returns what it read and the rest; \<open>push\<close> puts a prefix before what was read.\<close>

definition push :: "string \<Rightarrow> parse_fail + (string \<times> string) \<Rightarrow> parse_fail + (string \<times> string)" where
  "push p x = map_sum id (\<lambda>(b, r). (p @ b, r)) x"

text \<open>The body of a string literal after the opening quote, and what follows the closing one.\<close>

fun scan_string :: "string \<Rightarrow> parse_fail + (string \<times> string)" where
  "scan_string [] = Inl EndOfInput"
| "scan_string (c # s) =
     (if c = CHR 0x22 then Inr ([], s)
      else if c = CHR 0x5C then
        (case s of
          [] \<Rightarrow> Inl EndOfInput
        | e # s1 \<Rightarrow>
          if e = CHR ''u'' then
            (case s1 of
              h1 # h2 # h3 # h4 # s2 \<Rightarrow>
                if is_hex h1 \<and> is_hex h2 \<and> is_hex h3 \<and> is_hex h4
                then push [c, e, h1, h2, h3, h4] (scan_string s2)
                else Inl BadChar
            | _ \<Rightarrow> if list_all is_hex s1 then Inl EndOfInput else Inl BadChar)
          else if e \<in> set (''bfnrt/'' @ [CHR 0x5C, CHR 0x22])
            then push [c, e] (scan_string s1)
          else Inl BadChar)
      else if byte c < 32 then Inl BadChar
      else push [c] (scan_string s))"

definition hex4 :: "char \<Rightarrow> char \<Rightarrow> char \<Rightarrow> char \<Rightarrow> nat" where
  "hex4 a b c d =
     (let v = \<lambda>x. (case hex_value x of Some n \<Rightarrow> n | None \<Rightarrow> 0)
      in ((v a * 16 + v b) * 16 + v c) * 16 + v d)"

text \<open>\<open>utf8.EncodeRune\<close>\<close>

definition encode_rune :: "nat \<Rightarrow> string" where
  "encode_rune r = map char_of
     (if r < 128 then [r]
      else if r < 2048 then [192 + r div 64, 128 + r mod 64]
      else if 55296 \<le> r \<and> r \<le> 57343 \<or> 1114111 < r then [239, 191, 189]
      else if r < 65536 then [224 + r div 4096, 128 + r div 64 mod 64, 128 + r mod 64]
      else [240 + r div 262144, 128 + r div 4096 mod 64, 128 + r div 64 mod 64, 128 + r mod 64])"

definition simple_escape :: "char \<Rightarrow> char" where
  "simple_escape e =
     (if e = CHR ''b'' then CHR 0x08 else if e = CHR ''f'' then CHR 0x0C
      else if e = CHR ''n'' then CHR 0x0A else if e = CHR ''r'' then CHR 0x0D
      else if e = CHR ''t'' then CHR 0x09 else e)"

text \<open>Go's \<open>unquote\<close> on the scanned body: escapes, surrogate pairs, and U+FFFD for a lone
  surrogate or a byte that is not valid UTF-8.\<close>

text \<open>\<open>getu4\<close>: the code unit of a \<open>\uXXXX\<close> escape at the head of a string.\<close>

definition getu4 :: "string \<Rightarrow> nat option" where
  "getu4 s =
     (case s of b # u # h1 # h2 # h3 # h4 # _ \<Rightarrow>
        if b = CHR 0x5C \<and> u = CHR ''u'' \<and> is_hex h1 \<and> is_hex h2 \<and> is_hex h3 \<and> is_hex h4
        then Some (hex4 h1 h2 h3 h4) else None
      | _ \<Rightarrow> None)"

text \<open>\<open>utf16.DecodeRune\<close>, \<open>None\<close> for the replacement character.\<close>

definition utf16_pair :: "nat \<Rightarrow> nat option \<Rightarrow> nat option" where
  "utf16_pair r r1 =
     (case r1 of None \<Rightarrow> None | Some q \<Rightarrow>
        if 55296 \<le> r \<and> r < 56320 \<and> 56320 \<le> q \<and> q < 57344
        then Some ((r - 55296) * 1024 + (q - 56320) + 65536) else None)"

function unquote :: "string \<Rightarrow> string" where
  "unquote s =
     (case s of
        [] \<Rightarrow> []
      | c # s1 \<Rightarrow>
        if c = CHR 0x5C then
          (case getu4 s of
             Some r \<Rightarrow>
               if 55296 \<le> r \<and> r \<le> 57343 then
                 (case utf16_pair r (getu4 (drop 6 s)) of
                    Some p \<Rightarrow> encode_rune p @ unquote (drop 12 s)
                  | None \<Rightarrow> encode_rune 65533 @ unquote (drop 6 s))
               else encode_rune r @ unquote (drop 6 s)
           | None \<Rightarrow> (case s1 of [] \<Rightarrow> [] | e # _ \<Rightarrow> simple_escape e # unquote (drop 2 s)))
        else if byte c < 128 then c # unquote s1
        else if utf8_len s = 0 then encode_rune 65533 @ unquote s1
        else take (utf8_len s) s @ unquote (drop (utf8_len s) s))"
  by pat_completeness auto
termination
  by (relation "measure length") (auto simp: less_Suc_eq_le)

declare unquote.simps [simp del]

text \<open>The digits of a number; at least one is required.\<close>

definition scan_digits :: "string \<Rightarrow> parse_fail + (string \<times> string)" where
  "scan_digits s =
     (case s of [] \<Rightarrow> Inl EndOfInput
      | c # _ \<Rightarrow> if is_digit c then Inr (takeWhile is_digit s, dropWhile is_digit s) else Inl BadChar)"

definition scan_int :: "string \<Rightarrow> parse_fail + (string \<times> string)" where
  "scan_int s =
     (case s of c # t \<Rightarrow> if c = CHR ''0'' then Inr (''0'', t) else scan_digits s | [] \<Rightarrow> scan_digits s)"

definition scan_frac :: "string \<Rightarrow> parse_fail + (string \<times> string)" where
  "scan_frac s =
     (case s of c # t \<Rightarrow> if c = CHR ''.'' then push [c] (scan_digits t) else Inr ([], s)
      | [] \<Rightarrow> Inr ([], s))"

definition scan_exp :: "string \<Rightarrow> parse_fail + (string \<times> string)" where
  "scan_exp s =
     (case s of
        c # t \<Rightarrow>
          if c = CHR ''e'' \<or> c = CHR ''E'' then
            (case t of
               g # u \<Rightarrow> if g = CHR ''+'' \<or> g = CHR ''-'' then push [c, g] (scan_digits u)
                         else push [c] (scan_digits t)
             | [] \<Rightarrow> Inl EndOfInput)
          else Inr ([], s)
      | [] \<Rightarrow> Inr ([], s))"

definition scan_number :: "string \<Rightarrow> parse_fail + (string \<times> string)" where
  "scan_number s =
     (let (sign, s1) = (case s of c # t \<Rightarrow> if c = CHR ''-'' then ([c], t) else ([], s) | [] \<Rightarrow> ([], s))
      in (case scan_int s1 of Inl f \<Rightarrow> Inl f | Inr (i, s2) \<Rightarrow>
           (case scan_frac s2 of Inl f \<Rightarrow> Inl f | Inr (q, s3) \<Rightarrow>
             (case scan_exp s3 of Inl f \<Rightarrow> Inl f | Inr (e, s4) \<Rightarrow> Inr (sign @ i @ q @ e, s4)))))"

text \<open>\<open>true\<close>, \<open>false\<close> and \<open>null\<close>, character by character.\<close>

fun scan_word :: "string \<Rightarrow> string \<Rightarrow> parse_fail + string" where
  "scan_word [] s = Inr s"
| "scan_word (w # ws) [] = Inl EndOfInput"
| "scan_word (w # ws) (c # s) = (if c = w then scan_word ws s else Inl BadChar)"

text \<open>\<open>depth\<close> counts how many containers may still be opened.  \<open>parse_elems\<close> stands before the first
  element of a non-empty array, \<open>parse_members\<close> before the first key of a non-empty object.\<close>

fun parse_value :: "nat \<Rightarrow> nat \<Rightarrow> string \<Rightarrow> parse_fail + (json \<times> string)"
  and parse_elems :: "nat \<Rightarrow> nat \<Rightarrow> string \<Rightarrow> parse_fail + (json list \<times> string)"
  and parse_members :: "nat \<Rightarrow> nat \<Rightarrow> string \<Rightarrow> parse_fail + ((string \<times> json) list \<times> string)" where
  "parse_value 0 depth s = Inl FuelOut"
| "parse_value (Suc n) depth s =
     (case skip_ws s of
        [] \<Rightarrow> Inl EndOfInput
      | c # t \<Rightarrow>
        if c = CHR 0x22 then map_sum id (\<lambda>(b, r). (JStr (unquote b), r)) (scan_string t)
        else if c = CHR ''{'' then
          (if depth = 0 then Inl TooDeep
           else (case skip_ws t of
                   [] \<Rightarrow> Inl EndOfInput
                 | d # r \<Rightarrow> if d = CHR ''}'' then Inr (JObj [], r)
                            else map_sum id (\<lambda>(ms, r). (JObj ms, r)) (parse_members n (depth - 1) t)))
        else if c = CHR ''['' then
          (if depth = 0 then Inl TooDeep
           else (case skip_ws t of
                   [] \<Rightarrow> Inl EndOfInput
                 | d # r \<Rightarrow> if d = CHR '']'' then Inr (JArr [], r)
                            else map_sum id (\<lambda>(vs, r). (JArr vs, r)) (parse_elems n (depth - 1) t)))
        else if c = CHR ''t'' then map_sum id (\<lambda>r. (JBool True, r)) (scan_word ''rue'' t)
        else if c = CHR ''f'' then map_sum id (\<lambda>r. (JBool False, r)) (scan_word ''alse'' t)
        else if c = CHR ''n'' then map_sum id (\<lambda>r. (JNull, r)) (scan_word ''ull'' t)
        else if c = CHR ''-'' \<or> is_digit c then map_sum id (\<lambda>(b, r). (JNum b, r)) (scan_number (c # t))
        else Inl BadChar)"
| "parse_elems 0 depth s = Inl FuelOut"
| "parse_elems (Suc n) depth s =
     (case parse_value n depth s of Inl f \<Rightarrow> Inl f | Inr (v, r) \<Rightarrow>
        (case skip_ws r of
           [] \<Rightarrow> Inl EndOfInput
         | c # r1 \<Rightarrow>
           if c = CHR '']'' then Inr ([v], r1)
           else if c = CHR '','' then map_sum id (\<lambda>(vs, r2). (v # vs, r2)) (parse_elems n depth r1)
           else Inl BadChar))"
| "parse_members 0 depth s = Inl FuelOut"
| "parse_members (Suc n) depth s =
     (case skip_ws s of
        [] \<Rightarrow> Inl EndOfInput
      | q # t \<Rightarrow>
        if q \<noteq> CHR 0x22 then Inl BadChar
        else (case scan_string t of Inl f \<Rightarrow> Inl f | Inr (k, r) \<Rightarrow>
          (case skip_ws r of
             [] \<Rightarrow> Inl EndOfInput
           | c # r1 \<Rightarrow>
             if c \<noteq> CHR '':'' then Inl BadChar
             else (case parse_value n depth r1 of Inl f \<Rightarrow> Inl f | Inr (v, r2) \<Rightarrow>
               (case skip_ws r2 of
                  [] \<Rightarrow> Inl EndOfInput
                | e # r3 \<Rightarrow>
                  if e = CHR ''}'' then Inr ([(unquote k, v)], r3)
                  else if e = CHR '','' then
                    map_sum id (\<lambda>(ms, r4). ((unquote k, v) # ms, r4)) (parse_members n depth r3)
                  else Inl BadChar)))))"

definition json_max_depth :: nat where
  "json_max_depth = 10000"

definition json_Parse :: "string \<Rightarrow> parse_fail + json" where
  "json_Parse s =
     (case parse_value (2 * length s + 1) json_max_depth s of
        Inl f \<Rightarrow> Inl f
      | Inr (v, r) \<Rightarrow> if skip_ws r = [] then Inr v else Inl BadChar)"

text \<open>\<open>strconv.ParseUint(s, 10, 64)\<close> on a JSON number: only plain digits in range are accepted.\<close>

definition decimal_value :: "string \<Rightarrow> nat" where
  "decimal_value s = fold (\<lambda>c n. n * 10 + (byte c - 48)) s 0"

definition parse_uint64 :: "string \<Rightarrow> u64 option" where
  "parse_uint64 s =
     (if s \<noteq> [] \<and> list_all is_digit s \<and> decimal_value s < 2 ^ 64 then Some (of_nat (decimal_value s)) else None)"

text \<open>The key comparison of struct decoding: \<open>foldName\<close>.  Two code points beyond ASCII fold to an
  ASCII letter, U+017F to S and U+212A to K; every other one folds to something beyond ASCII, so it
  can stay as it is when compared with the field names of this program.\<close>

fun fold_name :: "string \<Rightarrow> string" where
  "fold_name [] = []"
| "fold_name (a # s) =
     (case s of
        b # t \<Rightarrow>
          if a = CHR 0xC5 \<and> b = CHR 0xBF then CHR ''S'' # fold_name t
          else (case t of
                  c # u \<Rightarrow> if a = CHR 0xE2 \<and> b = CHR 0x84 \<and> c = CHR 0xAA then CHR ''K'' # fold_name u
                           else ascii_upper a # fold_name s
                | [] \<Rightarrow> ascii_upper a # fold_name s)
      | [] \<Rightarrow> [ascii_upper a])"

definition is_field :: "string \<Rightarrow> string \<Rightarrow> bool" where
  "is_field name key = (fold_name key = fold_name name)"

section \<open>The fuel is enough\<close>

lemma map_sum_InrD: "map_sum id f x = Inr y \<Longrightarrow> \<exists>z. x = Inr z \<and> y = f z"
  by (cases x) auto

lemma map_sum_Inl [simp]: "map_sum id f x = Inl e \<longleftrightarrow> x = Inl e"
  by (cases x) auto

lemma length_skip_ws: "length (skip_ws s) \<le> length s"
  by (simp add: skip_ws_def length_dropWhile_le)

lemma skip_ws_Cons: "skip_ws s = c # t \<Longrightarrow> length t < length s"
  using length_skip_ws [of s] by simp

lemma push_Inr: "push p x = Inr (b, r) \<longleftrightarrow> (\<exists>b'. x = Inr (b', r) \<and> b = p @ b')"
  by (cases x) (auto simp: push_def)

lemma push_Inl [simp]: "push p x = Inl e \<longleftrightarrow> x = Inl e"
  by (simp add: push_def)

lemma push_Inr_simp [simp]: "push p (Inr (b, r)) = Inr (p @ b, r)"
  by (simp add: push_def)

lemma scan_string_split: "scan_string s = Inr (b, r) \<Longrightarrow> s = b @ CHR 0x22 # r"
proof (induction s arbitrary: b rule: scan_string.induct)
  case 1
  then show ?case by simp
next
  case (2 c s)
  consider "c = CHR 0x22" | "c \<noteq> CHR 0x22" "c = CHR 0x5C" | "c \<noteq> CHR 0x22" "c \<noteq> CHR 0x5C" by blast
  then show ?case
  proof cases
    case 1
    with "2.prems" show ?thesis by simp
  next
    case esc: 2
    with "2.prems" obtain e s1 where s: "s = e # s1" by (cases s) simp_all
    note IH = "2.IH"(1,2) [OF esc s]
    show ?thesis
    proof (cases "e = CHR ''u''")
      case True
      with "2.prems" esc obtain h1 h2 h3 h4 s2 b' where "s1 = h1 # h2 # h3 # h4 # s2"
        and "scan_string s2 = Inr (b', r)" "b = [c, e, h1, h2, h3, h4] @ b'"
        and "is_hex h1 \<and> is_hex h2 \<and> is_hex h3 \<and> is_hex h4"
        by (simp add: s push_Inr split: list.splits if_splits) blast
      with IH(1) True show ?thesis by (simp add: s)
    next
      case False
      with "2.prems" esc obtain b' where "scan_string s1 = Inr (b', r)" "b = [c, e] @ b'"
        and "e \<in> set (''bfnrt/'' @ [CHR 0x5C, CHR 0x22])"
        by (simp add: s push_Inr split: if_splits) blast
      with IH(2) False show ?thesis by (simp add: s)
    qed
  next
    case 3
    with "2.prems" obtain b' where "scan_string s = Inr (b', r)" "b = [c] @ b'" "\<not> byte c < 32"
      by (simp add: push_Inr split: if_splits) blast
    with "2.IH"(3) 3 show ?thesis by simp
  qed
qed

lemma scan_string_fuel: "scan_string s \<noteq> Inl FuelOut"
proof (induction s rule: scan_string.induct)
  case (2 c s)
  consider "c = CHR 0x22" | "c \<noteq> CHR 0x22" "c = CHR 0x5C" | "c \<noteq> CHR 0x22" "c \<noteq> CHR 0x5C" by blast
  then show ?case
  proof cases
    case 2
    then show ?thesis using "2.IH"(1,2) [OF 2] by (cases s) (simp_all split: list.splits)
  next
    case 3
    then show ?thesis using "2.IH"(3) [OF 3] by simp
  qed simp
qed simp

lemma scan_digits_split: "scan_digits s = Inr (b, r) \<Longrightarrow> s = b @ r \<and> b \<noteq> []"
  by (auto simp: scan_digits_def split: list.splits if_splits)

lemma scan_int_split: "scan_int s = Inr (b, r) \<Longrightarrow> s = b @ r \<and> b \<noteq> []"
  by (auto simp: scan_int_def split: list.splits if_splits dest: scan_digits_split)

lemma scan_frac_split: "scan_frac s = Inr (b, r) \<Longrightarrow> s = b @ r"
  by (auto simp: scan_frac_def push_Inr split: list.splits if_splits dest: scan_digits_split)

lemma scan_exp_split: "scan_exp s = Inr (b, r) \<Longrightarrow> s = b @ r"
  by (auto simp: scan_exp_def push_Inr split: list.splits if_splits dest: scan_digits_split)

lemma scan_number_split: "scan_number s = Inr (b, r) \<Longrightarrow> s = b @ r \<and> b \<noteq> []"
  by (auto simp: scan_number_def Let_def split: list.splits if_splits sum.splits prod.splits
      dest!: scan_int_split scan_frac_split scan_exp_split)

lemma scan_digits_fuel: "scan_digits s \<noteq> Inl FuelOut"
  by (auto simp: scan_digits_def split: list.splits)

lemma scan_int_fuel: "scan_int s \<noteq> Inl FuelOut"
  using scan_digits_fuel by (auto simp: scan_int_def split: list.splits)

lemma scan_frac_fuel: "scan_frac s \<noteq> Inl FuelOut"
  using scan_digits_fuel by (auto simp: scan_frac_def split: list.splits)

lemma scan_exp_fuel: "scan_exp s \<noteq> Inl FuelOut"
  using scan_digits_fuel by (auto simp: scan_exp_def split: list.splits)

lemma scan_number_fuel: "scan_number s \<noteq> Inl FuelOut"
  using scan_int_fuel scan_frac_fuel scan_exp_fuel
  by (auto simp: scan_number_def Let_def split: sum.splits prod.splits)

lemma scan_word_rest: "scan_word w s = Inr r \<Longrightarrow> length r \<le> length s"
  by (induction w s rule: scan_word.induct) (auto split: if_splits)

lemma scan_word_fuel: "scan_word w s \<noteq> Inl FuelOut"
  by (induction w s rule: scan_word.induct) auto

lemma scan_string_rest: "scan_string s = Inr (b, r) \<Longrightarrow> length r < length s"
  by (drule scan_string_split) simp

lemma scan_number_rest: "scan_number s = Inr (b, r) \<Longrightarrow> length r < length s"
  by (drule scan_number_split) simp

text \<open>The branches of \<open>parse_value\<close> as equations, one per first character.\<close>

lemma parse_value_string:
  "skip_ws s = CHR 0x22 # t \<Longrightarrow>
     parse_value (Suc n) d s = map_sum id (\<lambda>(b, r). (JStr (unquote b), r)) (scan_string t)"
  by simp

lemma parse_value_object:
  "skip_ws s = CHR ''{'' # t \<Longrightarrow> parse_value (Suc n) d s =
     (if d = 0 then Inl TooDeep
      else (case skip_ws t of [] \<Rightarrow> Inl EndOfInput
            | c # r \<Rightarrow> if c = CHR ''}'' then Inr (JObj [], r)
                     else map_sum id (\<lambda>(ms, r). (JObj ms, r)) (parse_members n (d - 1) t)))"
  by simp

lemma parse_value_array:
  "skip_ws s = CHR ''['' # t \<Longrightarrow> parse_value (Suc n) d s =
     (if d = 0 then Inl TooDeep
      else (case skip_ws t of [] \<Rightarrow> Inl EndOfInput
            | c # r \<Rightarrow> if c = CHR '']'' then Inr (JArr [], r)
                     else map_sum id (\<lambda>(vs, r). (JArr vs, r)) (parse_elems n (d - 1) t)))"
  by simp

lemma parse_value_word:
  "skip_ws s = CHR ''t'' # t \<Longrightarrow> parse_value (Suc n) d s = map_sum id (\<lambda>r. (JBool True, r)) (scan_word ''rue'' t)"
  "skip_ws s = CHR ''f'' # t \<Longrightarrow> parse_value (Suc n) d s = map_sum id (\<lambda>r. (JBool False, r)) (scan_word ''alse'' t)"
  "skip_ws s = CHR ''n'' # t \<Longrightarrow> parse_value (Suc n) d s = map_sum id (\<lambda>r. (JNull, r)) (scan_word ''ull'' t)"
  by (simp_all del: scan_word.simps)

lemma is_digit_neq:
  "is_digit c \<Longrightarrow> c \<noteq> CHR 0x22 \<and> c \<noteq> CHR ''{'' \<and> c \<noteq> CHR ''['' \<and> c \<noteq> CHR ''t'' \<and> c \<noteq> CHR ''f'' \<and> c \<noteq> CHR ''n''"
  by (auto simp: is_digit_def)

lemma parse_value_number:
  "skip_ws s = c # t \<Longrightarrow> c = CHR ''-'' \<or> is_digit c \<Longrightarrow>
     parse_value (Suc n) d s = map_sum id (\<lambda>(b, r). (JNum b, r)) (scan_number (c # t))"
  using is_digit_neq [of c] by (elim disjE) (simp_all del: scan_word.simps)

lemma parse_value_split:
  fixes s :: string
  obtains (eof) "skip_ws s = []"
  | (str) t where "skip_ws s = CHR 0x22 # t"
  | (obj) t where "skip_ws s = CHR ''{'' # t"
  | (arr) t where "skip_ws s = CHR ''['' # t"
  | (word) w t where "skip_ws s = w # t" "w = CHR ''t'' \<or> w = CHR ''f'' \<or> w = CHR ''n''"
  | (num) c t where "skip_ws s = c # t" "c = CHR ''-'' \<or> is_digit c"
  | (bad) "\<And>n d. parse_value (Suc n) d s = Inl BadChar"
proof (cases "skip_ws s")
  case Nil
  then show ?thesis by (rule eof)
next
  case (Cons c t)
  note split = Cons
  consider "c = CHR 0x22" | "c = CHR ''{''" | "c = CHR ''[''" | "c = CHR ''t'' \<or> c = CHR ''f'' \<or> c = CHR ''n''"
    | "c = CHR ''-'' \<or> is_digit c"
    | "c \<noteq> CHR 0x22" "c \<noteq> CHR ''{''" "c \<noteq> CHR ''[''" "c \<noteq> CHR ''t''" "c \<noteq> CHR ''f''" "c \<noteq> CHR ''n''"
      "c \<noteq> CHR ''-''" "\<not> is_digit c"
    by metis
  then show ?thesis
  proof cases
    case 1
    with split show ?thesis by (intro str) simp
  next
    case 2
    with split show ?thesis by (intro obj) simp
  next
    case 3
    with split show ?thesis by (intro arr) simp
  next
    case 4
    with split show ?thesis by (intro word)
  next
    case 5
    with split show ?thesis by (intro num)
  next
    case 6
    with split have "parse_value (Suc n) d s = Inl BadChar" for n d by simp
    then show ?thesis by (rule bad)
  qed
qed

lemma parse_value_eof: "skip_ws s = [] \<Longrightarrow> parse_value (Suc n) d s = Inl EndOfInput"
  by simp

lemmas parse_value_branches = parse_value_eof parse_value_string parse_value_object parse_value_array
  parse_value_word parse_value_number

declare parse_value.simps(2) [simp del]

lemma scan_word_map_rest:
  "map_sum id (\<lambda>r. (v, r)) (scan_word w t) = Inr (v', r) \<Longrightarrow> length r \<le> length t"
  by (auto dest!: map_sum_InrD scan_word_rest)

lemma parse_value_rest: "parse_value n d s = Inr (v, r) \<Longrightarrow> length r < length s"
  and parse_elems_rest: "parse_elems n d s = Inr (vs, r) \<Longrightarrow> length r < length s"
  and parse_members_rest: "parse_members n d s = Inr (ms, r) \<Longrightarrow> length r < length s"
proof (induction n d s and n d s and n d s arbitrary: v r and vs r and ms r
    rule: parse_value_parse_elems_parse_members.induct)
  case (2 n d s)
  have body: "length r < length s" if "skip_ws s = c # t" "length r \<le> length t" for c t
    using skip_ws_Cons [OF that(1)] that(2) by simp
  show ?case
  proof (cases rule: parse_value_split [of s])
    case (str t)
    show ?thesis
      by (rule body [OF str])
        (use "2.prems" in \<open>auto simp: parse_value_string [OF str] less_imp_le dest!: map_sum_InrD scan_string_rest\<close>)
  next
    case (obj t)
    have "length r \<le> length t"
      using "2.prems" "2.IH"(1) [OF obj] unfolding parse_value_object [OF obj]
      by (auto split: if_splits list.splits dest!: map_sum_InrD skip_ws_Cons intro: less_imp_le)
    then show ?thesis by (rule body [OF obj])
  next
    case (arr t)
    have "length r \<le> length t"
      using "2.prems" "2.IH"(2) [OF arr] unfolding parse_value_array [OF arr]
      by (auto split: if_splits list.splits dest!: map_sum_InrD skip_ws_Cons intro: less_imp_le)
    then show ?thesis by (rule body [OF arr])
  next
    case (word w t)
    have "length r \<le> length t"
      using word(2)
    proof (elim disjE)
      assume "w = CHR ''t''"
      with word(1) "2.prems" show ?thesis by (auto simp only: parse_value_word(1) intro: scan_word_map_rest)
    next
      assume "w = CHR ''f''"
      with word(1) "2.prems" show ?thesis by (auto simp only: parse_value_word(2) intro: scan_word_map_rest)
    next
      assume "w = CHR ''n''"
      with word(1) "2.prems" show ?thesis by (auto simp only: parse_value_word(3) intro: scan_word_map_rest)
    qed
    then show ?thesis by (rule body [OF word(1)])
  next
    case (num c t)
    have "length r < length (c # t)"
      using "2.prems" unfolding parse_value_number [OF num] by (auto dest!: map_sum_InrD scan_number_rest)
    then show ?thesis by (intro body [OF num(1)]) simp
  qed (use "2.prems" in \<open>simp_all add: parse_value_eof\<close>)
next
  case (4 n d s)
  from "4.prems" obtain v r' where v: "parse_value n d s = Inr (v, r')"
    by (auto split: sum.splits prod.splits)
  with "4.prems" obtain c r1 where c: "skip_ws r' = c # r1" by (cases "skip_ws r'") simp_all
  have "length r' < length s" using "4.IH"(1) v by blast
  moreover have "length r \<le> length r1"
    using "4.prems" v c "4.IH"(2) [OF v refl c]
    by (auto simp: less_imp_le split: if_splits dest!: map_sum_InrD)
  ultimately show ?case using skip_ws_Cons [OF c] by simp
next
  case (6 n d s)
  from "6.prems" obtain q t where q: "skip_ws s = q # t" "\<not> q \<noteq> CHR 0x22"
    by (cases "skip_ws s") (simp_all split: if_splits)
  with "6.prems" obtain k r0 where k: "scan_string t = Inr (k, r0)"
    by (auto split: sum.splits prod.splits)
  with "6.prems" q obtain c r1 where c: "skip_ws r0 = c # r1" "\<not> c \<noteq> CHR '':''"
    by (cases "skip_ws r0") (simp_all split: if_splits)
  with "6.prems" q k obtain v r2 where v: "parse_value n d r1 = Inr (v, r2)"
    by (auto split: sum.splits prod.splits)
  with "6.prems" q k c obtain e r3 where e: "skip_ws r2 = e # r3"
    by (cases "skip_ws r2") (simp_all split: if_splits)
  have "length r2 < length r1" using "6.IH"(1) [OF q k refl c] v by blast
  moreover have "length r \<le> length r3"
    using "6.prems" q k c v e "6.IH"(2) [OF q k refl c v refl e]
    by (auto simp: less_imp_le split: if_splits dest!: map_sum_InrD)
  ultimately show ?case
    using skip_ws_Cons [OF q(1)] skip_ws_Cons [OF c(1)] skip_ws_Cons [OF e] scan_string_rest [OF k] by simp
qed simp_all

text \<open>Each call reads at least one character or passes to a call that does, so twice the length of
  the input bounds the recursion.\<close>

lemma parse_value_fuel: "2 * length s < n \<Longrightarrow> parse_value n d s \<noteq> Inl FuelOut"
  and parse_elems_fuel: "2 * length s + 1 < n \<Longrightarrow> parse_elems n d s \<noteq> Inl FuelOut"
  and parse_members_fuel: "2 * length s < n \<Longrightarrow> parse_members n d s \<noteq> Inl FuelOut"
proof (induction n d s and n d s and n d s rule: parse_value_parse_elems_parse_members.induct)
  case (2 n d s)
  show ?case
  proof (cases rule: parse_value_split [of s])
    case (str t)
    then show ?thesis by (simp add: parse_value_string scan_string_fuel)
  next
    case (obj t)
    with "2.prems" "2.IH"(1) [OF obj] skip_ws_Cons [OF obj] show ?thesis
      by (auto simp: parse_value_object split: list.splits)
  next
    case (arr t)
    with "2.prems" "2.IH"(2) [OF arr] skip_ws_Cons [OF arr] show ?thesis
      by (auto simp: parse_value_array split: list.splits)
  next
    case (word w t)
    then show ?thesis
      by (elim disjE) (auto simp only: parse_value_word map_sum_Inl scan_word_fuel)
  next
    case (num c t)
    then show ?thesis by (simp add: parse_value_number scan_number_fuel)
  qed (simp_all add: parse_value_eof)
next
  case (4 n d s)
  show ?case
  proof (cases "parse_value n d s")
    case (Inl f)
    with "4.prems" "4.IH"(1) show ?thesis by simp
  next
    case (Inr vr)
    obtain v r where vr: "vr = (v, r)" by (cases vr)
    have len: "length r < length s" using parse_value_rest Inr vr by simp
    show ?thesis
    proof (cases "skip_ws r")
      case Nil
      then show ?thesis by (simp add: Inr vr)
    next
      case (Cons c r1)
      with "4.prems" len skip_ws_Cons [OF Cons] "4.IH"(2) [OF Inr [unfolded vr] refl Cons] show ?thesis
        by (simp add: Inr vr)
    qed
  qed
next
  case (6 n d s)
  show ?case
  proof (cases "skip_ws s")
    case (Cons q t)
    note q = Cons
    show ?thesis
    proof (cases "scan_string t")
      case (Inl f)
      then show ?thesis using q scan_string_fuel [of t] by simp
    next
      case (Inr kr)
      obtain k r where kr: "kr = (k, r)" by (cases kr)
      show ?thesis
      proof (cases "q = CHR 0x22 \<and> skip_ws r \<noteq> [] \<and> hd (skip_ws r) = CHR '':''")
        case True
        then obtain r1 where r1: "skip_ws r = CHR '':'' # r1" by (cases "skip_ws r") auto
        have q': "\<not> q \<noteq> CHR 0x22" and c': "\<not> CHR '':'' \<noteq> CHR '':''" using True by simp_all
        have len: "length r1 < length s"
          using skip_ws_Cons [OF q] skip_ws_Cons [OF r1] scan_string_rest [OF Inr [unfolded kr]] by simp
        note IH = "6.IH" [OF q q' Inr [unfolded kr] refl r1 c']
        show ?thesis
        proof (cases "parse_value n d r1")
          case (Inl f)
          with IH(1) "6.prems" len True show ?thesis by (simp add: q Inr kr r1 Inl)
        next
          case val: (Inr vr)
          obtain v r2 where vr: "vr = (v, r2)" by (cases vr)
          have len2: "length r2 < length r1" using parse_value_rest val vr by simp
          show ?thesis
          proof (cases "skip_ws r2")
            case Nil
            with True show ?thesis by (simp add: q Inr kr r1 val vr)
          next
            case (Cons e r3)
            with IH(2) [OF val [unfolded vr] refl Cons] "6.prems" len len2 skip_ws_Cons [OF Cons] True
            show ?thesis by (simp add: q Inr kr r1 val vr)
          qed
        qed
      next
        case False
        then show ?thesis by (auto simp: q Inr kr split: list.splits)
      qed
    qed
  qed simp
qed simp_all

lemma parse_enough_fuel: "json_Parse s \<noteq> Inl FuelOut"
  using parse_value_fuel [of s "2 * length s + 1" json_max_depth]
  by (auto simp: json_Parse_def split: sum.splits prod.splits)


section \<open>What the encoder writes, the decoder reads back\<close>

lemma push_push [simp]: "push p (push q x) = push (p @ q) x"
  by (cases x) (auto simp: push_def)

lemma push_Nil [simp]: "push [] x = x"
  by (cases x) (auto simp: push_def)

lemma hex_value_digit [simp]: "n < 16 \<Longrightarrow> hex_value (hex_digit n) = Some n"
  by (auto simp: hex_value_def hex_digit_def is_digit_def)

lemma is_hex_digit [simp]: "n < 16 \<Longrightarrow> is_hex (hex_digit n)"
  by (simp add: is_hex_def)

lemma hex_digit_0 [simp]: "hex_digit 0 = CHR ''0''"
  by code_simp

lemma is_hex_0 [simp]: "is_hex CHR ''0''"
  by (simp add: is_hex_def hex_value_def is_digit_def)

lemma hex4_byte: "byte c < 128 \<Longrightarrow> hex4 CHR ''0'' CHR ''0'' (hex_digit (byte c div 16)) (hex_digit (byte c mod 16)) = byte c"
  using hex_value_digit [of 0] by (simp add: hex4_def)

lemma encode_rune_ascii: "byte c < 128 \<Longrightarrow> encode_rune (byte c) = [c]"
  by (simp add: encode_rune_def)

text \<open>The escape of one ASCII byte: the byte itself, a short escape, or four hexadecimal digits.\<close>

lemma esc_ascii_cases:
  "(esc_ascii c = [c] \<and> c \<noteq> CHR 0x22 \<and> c \<noteq> CHR 0x5C \<and> \<not> byte c < 32) \<or>
   (\<exists>e \<in> set (''bfnrt/'' @ [CHR 0x5C, CHR 0x22]). esc_ascii c = [CHR 0x5C, e] \<and> e \<noteq> CHR ''u'' \<and> simple_escape e = c) \<or>
   esc_ascii c = [CHR 0x5C, CHR ''u'', CHR ''0'', CHR ''0'', hex_digit (byte c div 16), hex_digit (byte c mod 16)]"
  by (simp add: esc_ascii_def hex_byte_def simple_escape_def)

lemma scan_string_esc_ascii:
  assumes "byte c < 128"
  shows "scan_string (esc_ascii c @ t) = push (esc_ascii c) (scan_string t)"
proof -
  have "byte c div 16 < 16" "byte c mod 16 < 16" using assms by auto
  with esc_ascii_cases [of c] show ?thesis
    by (elim disjE conjE bexE) simp_all
qed

lemma scan_string_high:
  "list_all (\<lambda>c. 128 \<le> byte c) u \<Longrightarrow> scan_string (u @ t) = push u (scan_string t)"
  by (induction u) auto

lemma utf8_len_high: "list_all (\<lambda>c. 128 \<le> byte c) (take (utf8_len s) s)"
  by (auto simp: utf8_len_def split: list.splits)

lemma utf8_len_2:
  "utf8_len (a # b # t) = 2 \<longleftrightarrow> 194 \<le> byte a \<and> byte a \<le> 223 \<and> cont_byte b"
  by (auto simp: utf8_len_def split: list.splits if_splits)
lemma utf8_len_3:
  "utf8_len (a # b # c # t) = 3 \<longleftrightarrow> 224 \<le> byte a \<and> byte a \<le> 239 \<and> cont_byte b \<and> (byte a = 224 \<longrightarrow> 160 \<le> byte b) \<and>
     (byte a = 237 \<longrightarrow> byte b \<le> 159) \<and> cont_byte c"
  by (simp add: utf8_len_def split: list.split) 
lemma utf8_len_4:
  "utf8_len (a # b # c # d # t) = 4 \<longleftrightarrow> 240 \<le> byte a \<and> byte a \<le> 244 \<and> cont_byte b \<and> (byte a = 240 \<longrightarrow> 144 \<le> byte b) \<and>
               (byte a = 244 \<longrightarrow> byte b \<le> 143) \<and> cont_byte c \<and> cont_byte d"
  by (simp add: utf8_len_def)
lemma utf8_len_values: "utf8_len s \<in> {0, 2, 3, 4}"
  by (simp add: utf8_len_def split: list.split)

lemma utf8_len_take: "utf8_len s \<noteq> 0 \<Longrightarrow> utf8_len (take (utf8_len s) s @ t) = utf8_len s"
proof -
  assume "utf8_len s \<noteq> 0"
  with utf8_len_values [of s] consider "utf8_len s = 2" | "utf8_len s = 3" | "utf8_len s = 4" by auto
  then show ?thesis
  proof cases
    case 1
    with utf8_len_bounds(1) [of s] obtain a b u where s: "s = a # b # u"
      by (auto simp: numeral_eq_Suc Suc_le_length_iff)
    from 1 have "utf8_len (a # b # u) = 2" by (simp only: s)
    then have "utf8_len (a # b # t) = 2" unfolding utf8_len_2 .
    with 1 s show ?thesis by simp
  next
    case 2
    with utf8_len_bounds(1) [of s] obtain a b c u where s: "s = a # b # c # u"
      by (auto simp: numeral_eq_Suc Suc_le_length_iff)
    from 2 have "utf8_len (a # b # c # u) = 3" by (simp only: s)
    then have "utf8_len (a # b # c # t) = 3" unfolding utf8_len_3 .
    with 2 s show ?thesis by simp
  next
    case 3
    with utf8_len_bounds(1) [of s] obtain a b c d u where s: "s = a # b # c # d # u"
      by (auto simp: numeral_eq_Suc Suc_le_length_iff)
    from 3 have "utf8_len (a # b # c # d # u) = 4" by (simp only: s)
    then have "utf8_len (a # b # c # d # t) = 4" unfolding utf8_len_4 .
    with 3 s show ?thesis by simp
  qed
qed

lemma scan_string_esc_rune:
  "scan_string (esc_rune (take (utf8_len s) s) @ t) = push (esc_rune (take (utf8_len s) s)) (scan_string t)"
proof (cases "take (utf8_len s) s \<in> {[CHR 0xE2, CHR 0x80, CHR 0xA8], [CHR 0xE2, CHR 0x80, CHR 0xA9]}")
  case True
  then show ?thesis by (auto simp: esc_rune_def is_hex_def hex_value_def is_digit_def)
next
  case False
  then show ?thesis using scan_string_high [OF utf8_len_high] by (simp add: esc_rune_def)
qed

lemma scan_string_escape: "scan_string (json_escape s @ CHR 0x22 # r) = Inr (json_escape s, r)"
proof (induction s rule: json_escape.induct)
  case (2 c s)
  then show ?case
    by (simp add: json_escape.simps(2) scan_string_esc_ascii scan_string_esc_rune
        is_hex_def hex_value_def is_digit_def)
qed simp


lemma getu4_None [simp]: "e \<noteq> CHR ''u'' \<Longrightarrow> getu4 (CHR 0x5C # e # t) = None"
  by (simp add: getu4_def split: list.splits)

lemma unquote_u4:
  assumes "getu4 s = Some r" and "\<not> (55296 \<le> r \<and> r \<le> 57343)"
  shows "unquote s = encode_rune r @ unquote (drop 6 s)"
proof -
  from assms(1) obtain t where "s = CHR 0x5C # t" by (auto simp: getu4_def split: list.splits if_splits)
  with assms show ?thesis by (subst unquote.simps) auto
qed

lemma unquote_esc_ascii:
  assumes "byte c < 128"
  shows "unquote (esc_ascii c @ t) = c # unquote t"
proof -
  have bounds: "byte c div 16 < 16" "byte c mod 16 < 16" using assms by auto
  from esc_ascii_cases [of c] show ?thesis
  proof (elim disjE conjE bexE)
    assume "esc_ascii c = [c]" "c \<noteq> CHR 0x5C"
    with assms show ?thesis by (simp add: unquote.simps [of "c # t"])
  next
    fix e assume "esc_ascii c = [CHR 0x5C, e]" "e \<noteq> CHR ''u''" "simple_escape e = c"
    then show ?thesis by (simp add: unquote.simps [of "CHR 0x5C # e # t"])
  next
    let ?u = "[CHR 0x5C, CHR ''u'', CHR ''0'', CHR ''0'', hex_digit (byte c div 16), hex_digit (byte c mod 16)]"
    assume "esc_ascii c = ?u"
    moreover have "getu4 (?u @ t) = Some (byte c)"
      using assms bounds by (simp add: getu4_def hex4_byte)
    ultimately show ?thesis using assms unquote_u4 [of "?u @ t"] by (simp add: encode_rune_ascii)
  qed
qed

lemma unquote_esc_rune:
  assumes "utf8_len s \<noteq> 0"
  shows "unquote (esc_rune (take (utf8_len s) s) @ t) = take (utf8_len s) s @ unquote t"
proof (cases "take (utf8_len s) s \<in> {[CHR 0xE2, CHR 0x80, CHR 0xA8], [CHR 0xE2, CHR 0x80, CHR 0xA9]}")
  case True
  let ?E8 = "[CHR 0x5C, CHR ''u'', CHR ''2'', CHR ''0'', CHR ''2'', CHR ''8'']"
  let ?E9 = "[CHR 0x5C, CHR ''u'', CHR ''2'', CHR ''0'', CHR ''2'', CHR ''9'']"
  have hex: "hex4 CHR ''2'' CHR ''0'' CHR ''2'' CHR ''8'' = 8232" "hex4 CHR ''2'' CHR ''0'' CHR ''2'' CHR ''9'' = 8233"
    "is_hex CHR ''2''" "is_hex CHR ''8''" "is_hex CHR ''9''"
    by code_simp+
  have enc: "encode_rune 8232 = [CHR 0xE2, CHR 0x80, CHR 0xA8]" "encode_rune 8233 = [CHR 0xE2, CHR 0x80, CHR 0xA9]"
    by (simp_all add: encode_rune_def char_of_def bit_Suc_0_iff)
  have "getu4 (?E8 @ t) = Some 8232" "getu4 (?E9 @ t) = Some 8233"
    by (simp_all add: getu4_def hex)
  then have "unquote (?E8 @ t) = encode_rune 8232 @ unquote t" "unquote (?E9 @ t) = encode_rune 8233 @ unquote t"
    using unquote_u4 [of "?E8 @ t" 8232] unquote_u4 [of "?E9 @ t" 8233] by simp_all
  with True show ?thesis
    unfolding enc by (elim insertE emptyE) (simp_all add: esc_rune_def)
next
  case False
  then have esc: "esc_rune (take (utf8_len s) s) = take (utf8_len s) s" by (simp add: esc_rune_def)
  obtain c u where u: "take (utf8_len s) s = c # u"
    using assms utf8_len_bounds(1) [of s] by (cases "take (utf8_len s) s") auto
  have high: "128 \<le> byte c" using utf8_len_high [of s] by (simp add: u)
  have len: "utf8_len (c # u @ t) = Suc (length u)"
    using utf8_len_take [OF assms, of t] utf8_len_bounds(1) [of s] u
    by (metis append_Cons length_Cons length_take min.absorb2)
  have "c \<noteq> CHR 0x5C" using high by auto
  with high len show ?thesis
    by (simp add: esc [unfolded u] u unquote.simps [of "c # u @ t"])
qed

lemma unquote_escape: "valid_utf8 s \<Longrightarrow> unquote (json_escape s) = s"
proof (induction s rule: valid_utf8.induct)
  case 1
  show ?case by (simp add: unquote.simps)
next
  case (2 c s)
  then show ?case
    by (auto simp: json_escape.simps(2) valid_utf8.simps(2) unquote_esc_ascii unquote_esc_rune
        simp del: take_Cons' split: if_splits)
qed


text \<open>Values within the depth limit whose strings are valid UTF-8 and whose numbers are written the
  way \<open>json.Marshal\<close> writes unsigned integers.\<close>

definition num_token :: "string \<Rightarrow> bool" where
  "num_token n = (n \<noteq> [] \<and> list_all is_digit n \<and> (hd n = CHR ''0'' \<longrightarrow> n = ''0''))"

fun json_fits :: "nat \<Rightarrow> json \<Rightarrow> bool" where
  "json_fits d JNull = True"
| "json_fits d (JBool b) = True"
| "json_fits d (JNum n) = num_token n"
| "json_fits d (JStr s) = valid_utf8 s"
| "json_fits d (JArr vs) = (d \<noteq> 0 \<and> (\<forall>v \<in> set vs. json_fits (d - 1) v))"
| "json_fits d (JObj ms) = (d \<noteq> 0 \<and> (\<forall>(k, v) \<in> set ms. valid_utf8 k \<and> json_fits (d - 1) v))"

text \<open>What may follow a value inside a document.\<close>

definition closes :: "string \<Rightarrow> bool" where
  "closes r = (case r of [] \<Rightarrow> True | c # _ \<Rightarrow> c \<in> set '',]}'' \<or> is_ws c)"

lemma closes_simps [simp]:
  "closes []" "closes (CHR '','' # r)" "closes (CHR '']'' # r)" "closes (CHR ''}'' # r)"
  by (simp_all add: closes_def)

lemma closes_tail: "closes r \<Longrightarrow> takeWhile is_digit r = [] \<and> dropWhile is_digit r = r \<and> scan_frac r = Inr ([], r) \<and> scan_exp r = Inr ([], r)"
  by (cases r) (auto simp: closes_def scan_frac_def scan_exp_def is_digit_def is_ws_def)

lemma scan_number_token:
  assumes "num_token n" and "closes r"
  shows "scan_number (n @ r) = Inr (n, r)"
proof -
  obtain c t where n: "n = c # t" "is_digit c" "list_all is_digit t"
    using assms(1) by (cases n) (auto simp: num_token_def)
  then have "c \<noteq> CHR ''-''" by (auto simp: is_digit_def)
  moreover have "scan_int (n @ r) = Inr (n, r)"
  proof (cases "c = CHR ''0''")
    case True
    then show ?thesis using assms(1) n by (simp add: num_token_def scan_int_def)
  next
    case False
    have "takeWhile is_digit (n @ r) = n" "dropWhile is_digit (n @ r) = r"
      using n closes_tail [OF assms(2)] by (auto simp: list_all_iff takeWhile_append dropWhile_append takeWhile_eq_Nil_iff split: list.splits)
    with False n show ?thesis by (simp add: scan_int_def scan_digits_def)
  qed
  ultimately show ?thesis
    using closes_tail [OF assms(2)] by (simp add: scan_number_def n)
qed

lemma skip_ws_id [simp]: "\<not> is_ws c \<Longrightarrow> skip_ws (c # t) = c # t"
  by (simp add: skip_ws_def)

lemma not_ws [simp]: "\<not> is_ws CHR 0x22" "\<not> is_ws CHR '':''" "\<not> is_ws CHR '',''" "\<not> is_ws CHR '']''" "\<not> is_ws CHR ''}''"
  "\<not> is_ws CHR ''{''" "\<not> is_ws CHR ''[''" "\<not> is_ws CHR ''t''" "\<not> is_ws CHR ''f''" "\<not> is_ws CHR ''n''"
  by (simp_all add: is_ws_def)

definition white :: "string \<Rightarrow> bool" where
  "white w = list_all is_ws w"

lemma skip_white [simp]: "white w \<Longrightarrow> skip_ws (w @ s) = skip_ws s"
  by (induction w) (simp_all add: white_def skip_ws_def)

lemma parse_value_white [simp]: "white w \<Longrightarrow> parse_value n d (w @ s) = parse_value n d s"
  by (cases n) (simp_all add: parse_value.simps(2))

lemma parse_members_white: "white w \<Longrightarrow> parse_members n d (w @ s) = parse_members n d s"
  by (cases n) simp_all

lemma closes_white [simp]: "white w \<Longrightarrow> closes r \<Longrightarrow> closes (w @ r)"
  by (cases w) (simp_all add: white_def closes_def)

lemma joined_Cons: "joined sep (x # xs) = x @ (if xs = [] then [] else sep @ joined sep xs)"
  by (cases xs) simp_all

text \<open>Any layout of a value is read back as that value.\<close>

abbreviation laid_out_members :: "(nat \<Rightarrow> string) \<Rightarrow> string \<Rightarrow> nat \<Rightarrow> string \<Rightarrow> (string \<times> json) list \<Rightarrow> string" where
  "laid_out_members nl sp l b ms \<equiv> joined (CHR '','' # b) (map (\<lambda>(k, v). json_string k @ '':'' @ sp @ json_Layout nl sp l v) ms)"

lemma json_Layout_head:
  assumes "json_fits d v"
  obtains c t where "json_Layout nl sp l v = c # t" "\<not> is_ws c" "c \<noteq> CHR '']''" "c \<noteq> CHR ''}''"
proof (cases v)
  case (JNum n)
  with assms obtain c t where n: "n = c # t" "is_digit c" by (cases n) (auto simp: num_token_def)
  then have "\<not> is_ws c" "c \<noteq> CHR '']''" "c \<noteq> CHR ''}''" by (auto simp: is_digit_def is_ws_def)
  with n JNum show ?thesis by (intro that) simp_all
next
  case (JBool b)
  then show ?thesis by (cases b) (auto simp: is_ws_def intro!: that)
next
  case (JArr vs)
  then have "json_Layout nl sp l v = CHR ''['' # tl (json_Layout nl sp l v)" by simp
  then show ?thesis by (rule that) simp_all
next
  case (JObj ms)
  then have "json_Layout nl sp l v = CHR ''{'' # tl (json_Layout nl sp l v)" by simp
  then show ?thesis by (rule that) simp_all
qed (auto simp: is_ws_def json_string_def intro!: that)

lemma json_string_append: "json_string k @ t = CHR 0x22 # json_escape k @ CHR 0x22 # t"
  by (simp add: json_string_def)

lemma scan_string_json: "valid_utf8 k \<Longrightarrow>
    \<exists>b. scan_string (json_escape k @ CHR 0x22 # t) = Inr (b, t) \<and> unquote b = k"
  by (simp add: scan_string_escape unquote_escape)

text \<open>Unless the fuel runs out, parsing a rendered value gives that value and leaves what follows.\<close>

definition reads :: "parse_fail + ('a \<times> string) \<Rightarrow> 'a \<Rightarrow> string \<Rightarrow> bool" where
  "reads p v r = (p = Inr (v, r) \<or> p = Inl FuelOut)"

lemma reads_cases:
  assumes "reads p v r"
  obtains "p = Inr (v, r)" | "p = Inl FuelOut"
  using assms by (auto simp: reads_def)

lemma parse_value_Layout_step:
  assumes ws: "\<And>l. white (nl l)" "white sp"
    and fits: "json_fits d v" and closes: "closes r"
    and elems: "\<And>vs l d a b e r. vs \<noteq> [] \<Longrightarrow> \<forall>v \<in> set vs. json_fits d v \<Longrightarrow> white a \<Longrightarrow> white b \<Longrightarrow> white e \<Longrightarrow>
      reads (parse_elems n d (a @ joined (CHR '','' # b) (map (json_Layout nl sp l) vs) @ e @ '']'' @ r)) vs r"
    and members: "\<And>ms l d a b e r. ms \<noteq> [] \<Longrightarrow> \<forall>(k, v) \<in> set ms. valid_utf8 k \<and> json_fits d v \<Longrightarrow> white a \<Longrightarrow> white b \<Longrightarrow> white e \<Longrightarrow>
      reads (parse_members n d (a @ laid_out_members nl sp l b ms @ e @ ''}'' @ r)) ms r"
  shows "reads (parse_value (Suc n) d (json_Layout nl sp l v @ r)) v r"
proof (cases v)
  case JNull
  then show ?thesis by (simp add: parse_value_word reads_def)
next
  case (JBool b)
  then show ?thesis by (cases b) (simp_all add: parse_value_word reads_def)
next
  case (JNum num)
  with fits obtain c t where num: "num = c # t" "is_digit c"
    by (cases num) (auto simp: num_token_def)
  then have "\<not> is_ws c" by (auto simp: is_digit_def is_ws_def)
  with num JNum fits closes show ?thesis
    using scan_number_token [of num r] by (simp add: parse_value_number reads_def)
next
  case (JStr s)
  with fits scan_string_json [of s r] show ?thesis
    by (auto simp: json_string_append parse_value_string reads_def)
next
  case (JArr vs)
  show ?thesis
  proof (cases "vs = []")
    case True
    with JArr fits show ?thesis by (simp add: parse_value_array reads_def)
  next
    case False
    then obtain w ws' where vs: "vs = w # ws'" by (cases vs) auto
    with JArr fits have w: "json_fits (d - 1) w" "d \<noteq> 0" by simp_all
    let ?t = "nl (Suc l) @ joined (CHR '','' # nl (Suc l)) (map (json_Layout nl sp (Suc l)) vs) @ nl l @ '']'' @ r"
    from w(1) obtain c t where c: "json_Layout nl sp (Suc l) w = c # t" "\<not> is_ws c" "c \<noteq> CHR '']''"
      by (rule json_Layout_head)
    then have "\<exists>u. skip_ws ?t = c # u" using ws by (simp add: vs joined_Cons)
    moreover have "reads (parse_elems n (d - 1) ?t) vs r"
      using JArr fits False ws by (intro elems) auto
    moreover have "json_Layout nl sp l v @ r = CHR ''['' # ?t" by (simp add: JArr False)
    ultimately show ?thesis
      using w(2) c(3) JArr by (auto simp: parse_value_array reads_def)
  qed
next
  case (JObj ms)
  show ?thesis
  proof (cases "ms = []")
    case True
    with JObj fits show ?thesis by (simp add: parse_value_object reads_def)
  next
    case False
    then obtain k w ns where ms: "ms = (k, w) # ns" by (cases ms) auto
    let ?t = "nl (Suc l) @ laid_out_members nl sp (Suc l) (nl (Suc l)) ms @ nl l @ ''}'' @ r"
    have "\<exists>u. skip_ws ?t = CHR 0x22 # u" using ws by (simp add: ms joined_Cons json_string_append)
    moreover have "reads (parse_members n (d - 1) ?t) ms r"
      using JObj fits False ws by (intro members) auto
    moreover have "json_Layout nl sp l v @ r = CHR ''{'' # ?t" by (simp add: JObj False)
    ultimately show ?thesis
      using JObj fits by (auto simp: parse_value_object reads_def)
  qed
qed

lemma parse_Layout:
  assumes ws: "\<And>l. white (nl l)" "white sp"
  shows "json_fits d v \<Longrightarrow> closes r \<Longrightarrow> reads (parse_value n d (json_Layout nl sp l v @ r)) v r"
    and "vs \<noteq> [] \<Longrightarrow> \<forall>v \<in> set vs. json_fits d v \<Longrightarrow> white a \<Longrightarrow> white b \<Longrightarrow> white e \<Longrightarrow>
      reads (parse_elems n d (a @ joined (CHR '','' # b) (map (json_Layout nl sp l) vs) @ e @ '']'' @ r)) vs r"
    and "ms \<noteq> [] \<Longrightarrow> \<forall>(k, v) \<in> set ms. valid_utf8 k \<and> json_fits d v \<Longrightarrow> white a \<Longrightarrow> white b \<Longrightarrow> white e \<Longrightarrow>
      reads (parse_members n d (a @ laid_out_members nl sp l b ms @ e @ ''}'' @ r)) ms r"
proof (induction n arbitrary: l d v a b e r vs ms)
  case 0
  { case 1 show ?case by (simp add: reads_def) }
  { case 2 show ?case by (simp add: reads_def) }
  { case 3 show ?case by (simp add: reads_def) }
next
  case (Suc n)
  { case 1
    show ?case using ws 1 Suc.IH(2,3) by (rule parse_value_Layout_step) }
  { case 2
    then obtain w ws' where vs: "vs = w # ws'" by (cases vs) auto
    let ?t = "(if ws' = [] then [] else CHR '','' # b @ joined (CHR '','' # b) (map (json_Layout nl sp l) ws')) @ e @ '']'' @ r"
    have "closes ?t" using 2(5) by simp
    then have "reads (parse_value n d (json_Layout nl sp l w @ ?t)) w ?t"
      using 2(2) vs by (intro Suc.IH(1)) simp_all
    then show ?case
    proof (cases rule: reads_cases)
      case 1
      then show ?thesis
        using Suc.IH(2) [of ws' d b b e l r] 2(2-5)
        by (cases "ws' = []") (auto simp: vs joined_Cons reads_def)
    next
      case 2
      then show ?thesis using \<open>white a\<close> by (cases "ws' = []") (simp_all add: vs joined_Cons reads_def)
    qed }
  { case 3
    then obtain k w ns where ms: "ms = (k, w) # ns" by (cases ms) auto
    let ?t = "(if ns = [] then [] else CHR '','' # b @ laid_out_members nl sp l b ns) @ e @ ''}'' @ r"
    have str: "scan_string (json_escape k @ CHR 0x22 # t) = Inr (json_escape k, t)" "unquote (json_escape k) = k" for t
      using 3(2) by (simp_all add: ms scan_string_escape unquote_escape)
    have "closes ?t" using 3(5) by simp
    then have "reads (parse_value n d (json_Layout nl sp l w @ ?t)) w ?t"
      using 3(2) ms by (intro Suc.IH(1)) simp_all
    then show ?case
    proof (cases rule: reads_cases)
      case 1
      then show ?thesis
        using Suc.IH(3) [of ns d b b e l r] 3(2-5) ws(2)
        by (cases "ns = []") (auto simp: ms joined_Cons json_string_append reads_def str)
    next
      case 2
      then show ?thesis using \<open>white a\<close> ws(2) by (cases "ns = []") (simp_all add: ms joined_Cons json_string_append reads_def str)
    qed }
qed

lemma json_Parse_Layout:
  assumes "\<And>l. white (nl l)" "white sp" and "json_fits json_max_depth v"
  shows "json_Parse (json_Layout nl sp l v) = Inr v"
proof -
  let ?s = "json_Layout nl sp l v"
  have "reads (parse_value (2 * length ?s + 1) json_max_depth (?s @ [])) v []"
    by (rule parse_Layout(1)) (simp_all add: assms)
  with parse_value_fuel [of ?s "2 * length ?s + 1" json_max_depth]
  show ?thesis by (auto simp: reads_def json_Parse_def skip_ws_def)
qed

lemma joined_commas: "joined '','' xs = commas xs"
  by (induction xs rule: commas.induct) simp_all

lemma json_Layout_compact: "json_Layout (\<lambda>_. []) [] l v = json_Render v"
proof (induction v arbitrary: l)
  case (JArr vs)
  then show ?case by (cases "vs = []") (simp_all add: joined_commas cong: map_cong)
next
  case (JObj ms)
  then have "map (\<lambda>(k, v). json_string k @ '':'' @ [] @ json_Layout (\<lambda>_. []) [] (Suc l) v) ms =
      map (\<lambda>(k, v). json_string k @ '':'' @ json_Render v) ms" by fastforce
  then show ?case by (simp only: json_Layout.simps json_Render.simps append_Nil joined_commas) simp
qed simp_all

lemma json_Parse_Render:
  assumes "json_fits json_max_depth v"
  shows "json_Parse (json_Render v) = Inr v"
  using json_Parse_Layout [of "\<lambda>_. []" "[]" v 0] assms by (simp add: json_Layout_compact white_def)

lemma json_Parse_Indent:
  assumes "json_fits json_max_depth v"
  shows "json_Parse (json_Indent v) = Inr v"
  unfolding json_Indent_def
  by (rule json_Parse_Layout) (use assms in \<open>auto simp: white_def list_all_iff is_ws_def\<close>)

lemma json_Render_inj:
  "json_fits json_max_depth v \<Longrightarrow> json_fits json_max_depth w \<Longrightarrow> json_Render v = json_Render w \<longleftrightarrow> v = w"
  by (metis json_Parse_Render sum.inject(2))


section \<open>Decoded strings are valid UTF-8\<close>

lemma valid_utf8_chunk:
  assumes "utf8_len s \<noteq> 0" and "valid_utf8 t"
  shows "valid_utf8 (take (utf8_len s) s @ t)"
proof -
  obtain c u where u: "take (utf8_len s) s = c # u"
    using assms utf8_len_bounds(1) [of s] by (cases "take (utf8_len s) s") auto
  have high: "128 \<le> byte c" using utf8_len_high [of s] by (simp add: u)
  have "utf8_len (c # u @ t) = Suc (length u)"
    using utf8_len_take [OF assms(1), of t] utf8_len_bounds(1) [of s] u
    by (metis append_Cons length_Cons length_take min.absorb2)
  with high assms(2) show ?thesis by (simp add: u valid_utf8.simps(2))
qed

lemma valid_utf8_multi:
  "utf8_len u = length u \<Longrightarrow> u \<noteq> [] \<Longrightarrow> valid_utf8 t \<Longrightarrow> valid_utf8 (u @ t)"
  using valid_utf8_chunk [of u t] by simp

lemma valid_utf8_2: "utf8_len [a, b] = 2 \<Longrightarrow> valid_utf8 t \<Longrightarrow> valid_utf8 (a # b # t)"
  and valid_utf8_3: "utf8_len [a, b, c] = 3 \<Longrightarrow> valid_utf8 t \<Longrightarrow> valid_utf8 (a # b # c # t)"
  and valid_utf8_4: "utf8_len [a, b, c, d] = 4 \<Longrightarrow> valid_utf8 t \<Longrightarrow> valid_utf8 (a # b # c # d # t)"
  using valid_utf8_multi [of "[a, b]" t] valid_utf8_multi [of "[a, b, c]" t] valid_utf8_multi [of "[a, b, c, d]" t]
  by simp_all

lemma valid_utf8_ascii_Cons: "byte c < 128 \<Longrightarrow> valid_utf8 (c # t) \<longleftrightarrow> valid_utf8 t"
  by (simp add: valid_utf8.simps(2))

text \<open>The sextets of a code point.\<close>

lemma split_64:
  fixes r :: nat
  shows "r div 64 mod 64 + 64 * (r div 4096) = r div 64" "r mod 64 + 64 * (r div 64) = r"
    "r div 4096 mod 64 + 64 * (r div 262144) = r div 4096"
    "r div 64 mod 64 < 64" "r mod 64 < 64" "r div 4096 mod 64 < 64"
proof -
  have "r div 4096 = r div 64 div 64" "r div 262144 = r div 4096 div 64" by (simp_all add: div_mult2_eq [symmetric])
  then show "r div 64 mod 64 + 64 * (r div 4096) = r div 64" "r mod 64 + 64 * (r div 64) = r"
    "r div 4096 mod 64 + 64 * (r div 262144) = r div 4096"
    "r div 64 mod 64 < 64" "r mod 64 < 64" "r div 4096 mod 64 < 64" by simp_all
qed

lemma valid_utf8_encode_rune:
  assumes "valid_utf8 t"
  shows "valid_utf8 (encode_rune r @ t)"
proof -
  consider "r < 128" | "128 \<le> r" "r < 2048"
    | "2048 \<le> r" "55296 \<le> r \<and> r \<le> 57343 \<or> 1114111 < r"
    | "2048 \<le> r" "r < 55296" | "57344 \<le> r" "r < 65536" | "65536 \<le> r" "r \<le> 1114111" by linarith
  then show ?thesis
  proof cases
    case 1
    with assms show ?thesis by (simp add: encode_rune_def valid_utf8_ascii_Cons)
  next
    case 2
    then have "2 \<le> r div 64" "r div 64 \<le> 31" by auto
    with 2 assms show ?thesis
      by (auto simp: encode_rune_def utf8_len_2 intro!: valid_utf8_2)
  next
    case 3
    with assms show ?thesis
      by (auto simp: encode_rune_def utf8_len_3 intro!: valid_utf8_3)
  next
    case 4
    have "r div 4096 \<le> 13" "r div 4096 = 0 \<Longrightarrow> 32 \<le> r div 64 mod 64" "r div 4096 = 13 \<Longrightarrow> r div 64 mod 64 \<le> 31"
      using 4 split_64 [of r] by linarith+
    with 4 assms show ?thesis
      by (auto simp: encode_rune_def utf8_len_3 intro!: valid_utf8_3)
  next
    case 5
    have "r div 4096 \<le> 15" "14 \<le> r div 4096" using 5 split_64 [of r] by linarith+
    with 5 assms show ?thesis
      by (auto simp: encode_rune_def utf8_len_3 intro!: valid_utf8_3)
  next
    case 6
    have "r div 262144 \<le> 4" "r div 262144 = 0 \<Longrightarrow> 16 \<le> r div 4096 mod 64" "r div 262144 = 4 \<Longrightarrow> r div 4096 mod 64 \<le> 15"
      using 6 split_64 [of r] by linarith+
    with 6 assms show ?thesis
      by (auto simp: encode_rune_def utf8_len_4 intro!: valid_utf8_4)
  qed
qed

lemma push_Inl_simp [simp]: "push p (Inl e) = Inl e"
  by (simp add: push_def)

text \<open>Bodies of string literals as the scanner accepts them.\<close>

definition literal_body :: "string \<Rightarrow> bool" where
  "literal_body b = (scan_string (b @ ''\"'') = Inr (b, []))"

lemma scan_string_body: "scan_string s = Inr (b, r) \<Longrightarrow> literal_body b"
proof (induction s arbitrary: b rule: scan_string.induct)
  case 1
  then show ?case by simp
next
  case (2 c s)
  consider "c = CHR 0x22" | "c \<noteq> CHR 0x22" "c = CHR 0x5C" | "c \<noteq> CHR 0x22" "c \<noteq> CHR 0x5C" by blast
  then show ?case
  proof cases
    case 1
    with "2.prems" show ?thesis by (simp add: literal_body_def)
  next
    case esc: 2
    with "2.prems" obtain e s1 where s: "s = e # s1" by (cases s) simp_all
    note IH = "2.IH"(1,2) [OF esc s]
    show ?thesis
    proof (cases "e = CHR ''u''")
      case True
      with "2.prems" esc obtain h1 h2 h3 h4 s2 b' where "s1 = h1 # h2 # h3 # h4 # s2"
        and "scan_string s2 = Inr (b', r)" "b = [c, e, h1, h2, h3, h4] @ b'"
        and "is_hex h1 \<and> is_hex h2 \<and> is_hex h3 \<and> is_hex h4"
        by (simp add: s push_Inr split: list.splits if_splits) blast
      with IH(1) True esc show ?thesis by (simp add: s literal_body_def)
    next
      case False
      with "2.prems" esc obtain b' where "scan_string s1 = Inr (b', r)" "b = [c, e] @ b'"
        and "e \<in> set (''bfnrt/'' @ [CHR 0x5C, CHR 0x22])"
        by (simp add: s push_Inr split: if_splits) blast
      with IH(2) False esc show ?thesis by (simp add: s literal_body_def)
    qed
  next
    case 3
    with "2.prems" obtain b' where "scan_string s = Inr (b', r)" "b = [c] @ b'" "\<not> byte c < 32"
      by (simp add: push_Inr split: if_splits) blast
    with "2.IH"(3) 3 show ?thesis by (simp add: literal_body_def)
  qed
qed

lemma literal_body_plain:
  "literal_body (c # b) \<Longrightarrow> c \<noteq> CHR 0x5C \<Longrightarrow> literal_body b"
  by (auto simp: literal_body_def push_Inr split: if_splits)

lemma literal_body_high:
  "literal_body (u @ b) \<Longrightarrow> list_all (\<lambda>c. 128 \<le> byte c) u \<Longrightarrow> literal_body b"
  by (induction u) (auto dest: literal_body_plain)

lemma literal_body_escape:
  assumes "literal_body (CHR 0x5C # b)"
  obtains (u4) h1 h2 h3 h4 t where "b = CHR ''u'' # h1 # h2 # h3 # h4 # t" "is_hex h1" "is_hex h2" "is_hex h3" "is_hex h4"
      "literal_body t"
  | (short) e t where "b = e # t" "e \<in> set (''bfnrt/'' @ [CHR 0x5C, CHR 0x22])" "literal_body t"
proof (cases b)
  case Nil
  with assms show ?thesis by (simp add: literal_body_def)
next
  case (Cons e t)
  show ?thesis
  proof (cases "e = CHR ''u''")
    case True
    with Cons assms obtain h1 h2 h3 h4 u where t: "t @ [CHR 0x22] = h1 # h2 # h3 # h4 # u"
      "is_hex h1" "is_hex h2" "is_hex h3" "is_hex h4" "push [CHR 0x5C, e, h1, h2, h3, h4] (scan_string u) = Inr (CHR 0x5C # b, [])"
      by (auto simp: literal_body_def split: list.splits if_splits)
    have "\<not> is_hex CHR 0x22" by (simp add: is_hex_def hex_value_def is_digit_def)
    with t obtain u' where "t = h1 # h2 # h3 # h4 # u'" "u = u' @ [CHR 0x22]"
      by (auto simp: append_eq_Cons_conv)
    with t True Cons show ?thesis by (intro u4 [of h1 h2 h3 h4 u']) (auto simp: literal_body_def push_Inr)
  next
    case False
    with Cons assms show ?thesis
      by (auto simp: literal_body_def push_Inr split: if_splits intro!: short)
  qed
qed

lemma valid_utf8_unquote: "literal_body s \<Longrightarrow> valid_utf8 (unquote s)"
proof (induction s rule: length_induct)
  case (1 s)
  have IH: "literal_body t \<Longrightarrow> length t < length s \<Longrightarrow> valid_utf8 (unquote t)" for t
    using 1 by blast
  show ?case
  proof (cases s)
    case Nil
    then show ?thesis by (simp add: unquote.simps)
  next
    case (Cons c b)
    show ?thesis
    proof (cases "c = CHR 0x5C")
      case True
      with "1.prems" Cons have "literal_body (CHR 0x5C # b)" by simp
      then show ?thesis
      proof (cases rule: literal_body_escape)
        case (u4 h1 h2 h3 h4 t)
        have rest: "valid_utf8 (unquote t)" using IH [OF u4(6)] by (simp add: Cons u4)
        have pair: "valid_utf8 (unquote (drop 6 t))" if "getu4 t = Some q" for q
        proof -
          from that obtain t2 where t2: "t = CHR 0x5C # CHR ''u'' # t2"
            by (auto simp: getu4_def split: list.splits if_splits)
          with u4(6) have "literal_body (CHR 0x5C # CHR ''u'' # t2)" by simp
          then have "literal_body (drop 6 t)" by (cases rule: literal_body_escape) (auto simp: t2)
          then show ?thesis by (rule IH) (simp add: Cons u4)
        qed
        have u: "getu4 s = Some (hex4 h1 h2 h3 h4)" by (simp add: Cons u4 True getu4_def)
        have drop: "drop 6 s = t" "drop 12 s = drop 6 t" by (simp_all add: Cons u4)
        show ?thesis
        proof (cases "55296 \<le> hex4 h1 h2 h3 h4 \<and> hex4 h1 h2 h3 h4 \<le> 57343")
          case False
          with rest show ?thesis using unquote_u4 [OF u] by (simp add: drop valid_utf8_encode_rune)
        next
          case surrogate: True
          have "unquote s = (case utf16_pair (hex4 h1 h2 h3 h4) (getu4 (drop 6 s)) of
              Some p \<Rightarrow> encode_rune p @ unquote (drop 12 s) | None \<Rightarrow> encode_rune 65533 @ unquote (drop 6 s))"
            using surrogate u by (subst unquote.simps) (simp only: Cons True, simp)
          with rest pair show ?thesis
            unfolding drop by (auto simp: utf16_pair_def split: option.splits if_splits intro!: valid_utf8_encode_rune)
        qed
      next
        case (short e t)
        have "valid_utf8 (unquote t)" using IH [OF short(3)] by (simp add: Cons short)
        moreover have "byte (simple_escape e) < 128" "e \<noteq> CHR ''u''"
          using short(2) by (simp_all add: simple_escape_def) (elim disjE; simp)+
        ultimately show ?thesis
          by (subst unquote.simps) (simp add: Cons short True valid_utf8_ascii_Cons)
      qed
    next
      case False
      have b: "literal_body b" using "1.prems" False by (auto simp: Cons dest: literal_body_plain)
      have "valid_utf8 (unquote b)" using IH [OF b] by (simp add: Cons)
      moreover have "valid_utf8 (unquote (drop (utf8_len s) s))" if "utf8_len s \<noteq> 0"
        using literal_body_high [of "take (utf8_len s) s" "drop (utf8_len s) s"] "1.prems" utf8_len_high [of s] that Cons
        by (intro IH) auto
      ultimately show ?thesis
        using False valid_utf8_chunk [of s]
        by (subst unquote.simps) (auto simp: Cons valid_utf8_ascii_Cons intro!: valid_utf8_encode_rune simp del: take_Cons' drop_Cons')
    qed
  qed
qed

text \<open>Hence every string of a parsed document is valid UTF-8.\<close>

fun json_utf8 :: "json \<Rightarrow> bool" where
  "json_utf8 (JStr s) = valid_utf8 s"
| "json_utf8 (JArr vs) = (\<forall>v \<in> set vs. json_utf8 v)"
| "json_utf8 (JObj ms) = (\<forall>(k, v) \<in> set ms. valid_utf8 k \<and> json_utf8 v)"
| "json_utf8 _ = True"

lemma parse_value_utf8: "parse_value n d s = Inr (v, r) \<Longrightarrow> json_utf8 v"
  and parse_elems_utf8: "parse_elems n d s = Inr (vs, r) \<Longrightarrow> \<forall>v \<in> set vs. json_utf8 v"
  and parse_members_utf8: "parse_members n d s = Inr (ms, r) \<Longrightarrow> \<forall>(k, v) \<in> set ms. valid_utf8 k \<and> json_utf8 v"
proof (induction n d s and n d s and n d s arbitrary: v r and vs r and ms r
    rule: parse_value_parse_elems_parse_members.induct)
  case (2 n d s)
  show ?case
  proof (cases rule: parse_value_split [of s])
    case (str t)
    with "2.prems" show ?thesis
      by (auto simp: parse_value_string dest!: map_sum_InrD scan_string_body intro: valid_utf8_unquote)
  next
    case (obj t)
    with "2.prems" "2.IH"(1) [OF obj] show ?thesis
      by (fastforce simp: parse_value_object split: if_splits list.splits dest!: map_sum_InrD)
  next
    case (arr t)
    with "2.prems" "2.IH"(2) [OF arr] show ?thesis
      by (fastforce simp: parse_value_array split: if_splits list.splits dest!: map_sum_InrD)
  next
    case (word w t)
    from word(2) show ?thesis
      by (elim disjE) (use word(1) "2.prems" in \<open>auto simp: parse_value_word dest!: map_sum_InrD\<close>)
  next
    case (num c t)
    with "2.prems" show ?thesis by (auto simp: parse_value_number dest!: map_sum_InrD)
  qed (use "2.prems" in \<open>simp_all add: parse_value_eof\<close>)
next
  case (4 n d s)
  from "4.prems" obtain v r' where v: "parse_value n d s = Inr (v, r')"
    by (auto split: sum.splits prod.splits)
  with "4.prems" obtain c r1 where c: "skip_ws r' = c # r1" by (cases "skip_ws r'") simp_all
  have "json_utf8 v" using "4.IH"(1) v by blast
  with "4.prems" v c "4.IH"(2) [OF v refl c] show ?case
    by (auto split: if_splits dest!: map_sum_InrD)
next
  case (6 n d s)
  from "6.prems" obtain q t where q: "skip_ws s = q # t" "\<not> q \<noteq> CHR 0x22"
    by (cases "skip_ws s") (simp_all split: if_splits)
  with "6.prems" obtain k r0 where k: "scan_string t = Inr (k, r0)"
    by (auto split: sum.splits prod.splits)
  with "6.prems" q obtain c r1 where c: "skip_ws r0 = c # r1" "\<not> c \<noteq> CHR '':''"
    by (cases "skip_ws r0") (simp_all split: if_splits)
  with "6.prems" q k obtain v r2 where v: "parse_value n d r1 = Inr (v, r2)"
    by (auto split: sum.splits prod.splits)
  with "6.prems" q k c obtain e r3 where e: "skip_ws r2 = e # r3"
    by (cases "skip_ws r2") (simp_all split: if_splits)
  have "json_utf8 v" using "6.IH"(1) [OF q k refl c] v by blast
  moreover have "valid_utf8 (unquote k)" using k by (intro valid_utf8_unquote scan_string_body)
  ultimately show ?case
    using "6.prems" q k c v e "6.IH"(2) [OF q k refl c v refl e]
    by (auto split: if_splits dest!: map_sum_InrD)
qed simp_all

lemma json_Parse_utf8: "json_Parse s = Inr v \<Longrightarrow> json_utf8 v"
  by (auto simp: json_Parse_def split: sum.splits prod.splits if_splits intro: parse_value_utf8)

end
