(* ===== verification/Go_Float.thy ===== *)
theory Go_Float
  imports Prelude "HOL-Library.Log_Nat"
begin

text \<open>
  The \<open>float64\<close> arithmetic the rate limiter relies on.  A finite \<open>float64\<close> is the rational number
  it denotes; an operation is the exact result rounded by \<open>fl\<close> to the nearest value with a 53-bit
  significand, ties to even.  Subnormal numbers are covered; overflow to infinity is not, since the
  program's values stay below 2^64.  \<open>time.Time\<close> is a number of nanoseconds with 0 for the zero
  time, \<open>time.Duration\<close> an \<open>int64\<close>.
\<close>

definition pow2 :: "int \<Rightarrow> rat" where
  "pow2 k = (if 0 \<le> k then 2 ^ nat k else 1 / 2 ^ nat (- k))"

definition round_even :: "rat \<Rightarrow> int" where
  "round_even q =
     (let f = \<lfloor>q\<rfloor>; r = q - of_int f
      in if r < 1 / 2 then f else if r > 1 / 2 then f + 1 else if even f then f else f + 1)"

text \<open>The exponent of the leading binary digit of a positive number.\<close>

definition exponent :: "rat \<Rightarrow> int" where
  "exponent q =
     (let (n, d) = quotient_of q; k = bitlen n - bitlen d
      in if pow2 k \<le> q then k else k - 1)"

definition fl_pos :: "rat \<Rightarrow> rat" where
  "fl_pos q = (let u = pow2 (max (exponent q) (- 1022) - 52) in of_int (round_even (q / u)) * u)"

definition fl :: "rat \<Rightarrow> rat" where
  "fl q = (if q = 0 then 0 else if q < 0 then - fl_pos (- q) else fl_pos q)"

definition fadd :: "rat \<Rightarrow> rat \<Rightarrow> rat" where
  "fadd a b = fl (a + b)"

definition fsub :: "rat \<Rightarrow> rat \<Rightarrow> rat" where
  "fsub a b = fl (a - b)"

definition fmul :: "rat \<Rightarrow> rat \<Rightarrow> rat" where
  "fmul a b = fl (a * b)"

definition fdiv :: "rat \<Rightarrow> rat \<Rightarrow> rat" where
  "fdiv a b = fl (a / b)"

section \<open>Time\<close>

type_synonym time = int

text \<open>\<open>t.Sub(u)\<close>: the difference, saturated to the range of \<open>int64\<close>.\<close>

definition time_Sub :: "time \<Rightarrow> time \<Rightarrow> int" where
  "time_Sub t u = max (- (2 ^ 63)) (min (2 ^ 63 - 1) (t - u))"

text \<open>Go's \<open>Duration.Seconds\<close>; division and remainder truncate towards zero.\<close>

definition Seconds :: "int \<Rightarrow> rat" where
  "Seconds d =
     (let sec = sgn d * (\<bar>d\<bar> div 1000000000); nsec = sgn d * (\<bar>d\<bar> mod 1000000000)
      in fadd (fl (of_int sec)) (fdiv (fl (of_int nsec)) 1000000000))"

section \<open>Rounding\<close>

lemma pow2_pos [simp]: "0 < pow2 k"
  by (simp add: pow2_def)

lemma pow2_add: "pow2 (a + b) = pow2 a * pow2 b"
proof -
  have nat_case: "pow2 (int m - int n) = 2 ^ m / 2 ^ n" for m n
  proof (cases "n \<le> m")
    case True
    then obtain k where k: "m = n + k" using le_Suc_ex by blast
    then show ?thesis by (simp add: pow2_def power_add)
  next
    case False
    then obtain k where k: "n = m + k" "k \<noteq> 0" using less_imp_add_positive [of m n] by auto
    then show ?thesis by (simp add: pow2_def power_add)
  qed
  obtain m n where a: "a = int m - int n" by (metis int_diff_cases)
  obtain p q where b: "b = int p - int q" by (metis int_diff_cases)
  have "a + b = int (m + p) - int (n + q)" by (simp add: a b)
  then show ?thesis by (simp only: nat_case a b) (simp add: power_add)
qed

lemma pow2_mono: "a \<le> b \<Longrightarrow> pow2 a \<le> pow2 b"
proof -
  assume "a \<le> b"
  then have "pow2 b = pow2 a * pow2 (b - a)" by (simp add: pow2_add [symmetric])
  moreover have "1 \<le> pow2 (b - a)" using \<open>a \<le> b\<close> by (simp add: pow2_def)
  ultimately show ?thesis using pow2_pos [of a] by (simp add: mult_le_cancel_left1 del: pow2_pos)
qed

lemma round_even_error: "\<bar>of_int (round_even q) - q\<bar> \<le> 1 / 2"
proof -
  have "of_int \<lfloor>q\<rfloor> \<le> q" "q < of_int \<lfloor>q\<rfloor> + 1" by linarith+
  then show ?thesis by (auto simp: round_even_def Let_def abs_le_iff)
qed

lemma round_even_nonneg: "0 \<le> q \<Longrightarrow> 0 \<le> round_even q"
  by (auto simp: round_even_def Let_def)

lemma pow2_diff: "pow2 (a - b) = pow2 a / pow2 b"
proof -
  have "pow2 (a - b) * pow2 b = pow2 a" by (simp add: pow2_add [symmetric])
  moreover have "pow2 b \<noteq> 0" by (metis pow2_pos less_irrefl)
  ultimately show ?thesis by (metis nonzero_mult_div_cancel_right)
qed

lemma exponent_le:
  assumes "0 < q"
  shows "pow2 (exponent q) \<le> q"
proof -
  obtain n d where nd: "quotient_of q = (n, d)" by (cases "quotient_of q")
  then have q: "q = of_int n / of_int d" and d: "0 < d" by (simp_all add: quotient_of_div quotient_of_denom_pos)
  then have n: "0 < n" using assms by (simp add: zero_less_divide_iff)
  have bit: "0 < bitlen n" "0 < bitlen d" using n d by (metis bitlen_eq_zero_iff bitlen_nonneg le_less not_le)+
  have "of_int (2 ^ nat (bitlen n - 1)) \<le> (of_int n :: rat)" "of_int d \<le> (of_int (2 ^ nat (bitlen d)) :: rat)"
    using bitlen_bounds [OF n] bitlen_bounds [OF d] by (simp_all only: of_int_le_iff less_imp_le)
  then have "pow2 (bitlen n - 1) \<le> of_int n" "of_int d \<le> pow2 (bitlen d)"
    using bit by (simp_all add: pow2_def)
  then have "pow2 (bitlen n - 1) / pow2 (bitlen d) \<le> q"
    unfolding q using d n by (intro frac_le) simp_all
  then have "pow2 (bitlen n - bitlen d - 1) \<le> q"
    by (simp add: pow2_diff [symmetric] algebra_simps)
  then show ?thesis by (simp add: exponent_def nd Let_def)
qed

lemma fl_pos_error: "0 < q \<Longrightarrow> \<bar>fl_pos q - q\<bar> \<le> q / 2 ^ 53 + pow2 (- 1075)"
proof -
  assume q: "0 < q"
  let ?e = "max (exponent q) (- 1022)"
  let ?u = "pow2 (?e - 52)"
  have "\<bar>of_int (round_even (q / ?u)) - q / ?u\<bar> \<le> 1 / 2" by (rule round_even_error)
  then have "\<bar>of_int (round_even (q / ?u)) - q / ?u\<bar> * ?u \<le> 1 / 2 * ?u"
    by (rule mult_right_mono) (simp add: less_imp_le)
  moreover have "\<bar>of_int (round_even (q / ?u)) - q / ?u\<bar> * ?u = \<bar>fl_pos q - q\<bar>"
  proof -
    have "\<bar>of_int (round_even (q / ?u)) - q / ?u\<bar> * ?u = \<bar>(of_int (round_even (q / ?u)) - q / ?u) * ?u\<bar>"
      by (simp add: abs_mult abs_of_pos)
    also have "(of_int (round_even (q / ?u)) - q / ?u) * ?u = fl_pos q - q"
      using pow2_pos [of "?e - 52"] by (simp add: fl_pos_def Let_def algebra_simps less_imp_neq [symmetric])
    finally show ?thesis .
  qed
  moreover have "1 / 2 * ?u = pow2 (?e - 53)"
    using pow2_add [of "?e - 53" 1] by (simp add: pow2_def [of 1])
  ultimately have err: "\<bar>fl_pos q - q\<bar> \<le> pow2 (?e - 53)" by simp
  show ?thesis
  proof (cases "exponent q \<le> - 1022")
    case True
    then have "pow2 (?e - 53) = pow2 (- 1075)" by simp
    moreover have "0 \<le> q / 2 ^ 53" using q by simp
    ultimately show ?thesis using err by linarith
  next
    case False
    then have "pow2 (?e - 53) = pow2 (exponent q) * pow2 (- 53)" by (simp add: pow2_add [symmetric])
    also have "\<dots> \<le> q * pow2 (- 53)" using exponent_le [OF q] by (intro mult_right_mono) (simp_all add: less_imp_le)
    also have "q * pow2 (- 53) = q / 2 ^ 53" by (simp add: pow2_def)
    finally have "pow2 (?e - 53) \<le> q / 2 ^ 53" .
    moreover have "0 < pow2 (- 1075)" by simp
    ultimately show ?thesis using err by linarith
  qed
qed


text \<open>Rounding a nonnegative number keeps it nonnegative and moves it by less than one part in 2^52,
  up to the smallest subnormal.\<close>

lemma fl_0 [simp]: "fl 0 = 0"
  by (simp add: fl_def)

lemma fl_nonneg: "0 \<le> q \<Longrightarrow> 0 \<le> fl q"
  by (auto simp: fl_def fl_pos_def Let_def round_even_nonneg less_imp_le)

definition tiny :: rat where
  "tiny = 1 / 2 ^ 70"

lemma pow2_tiny: "pow2 (- 1075) \<le> tiny"
proof -
  have "pow2 (- 1075) \<le> pow2 (- 70)" by (rule pow2_mono) simp
  then show ?thesis by (simp add: pow2_def [of "- 70"] tiny_def)
qed

lemma fl_error: "0 \<le> q \<Longrightarrow> \<bar>fl q - q\<bar> \<le> q / 2 ^ 53 + tiny"
  using fl_pos_error [of q] pow2_tiny by (cases "q = 0") (auto simp: fl_def tiny_def)

lemma fl_upper: "0 \<le> q \<Longrightarrow> fl q \<le> q + q / 2 ^ 53 + tiny"
  using fl_error [of q] by linarith

lemma fl_lower: "0 \<le> q \<Longrightarrow> q - q / 2 ^ 53 - tiny \<le> fl q"
  using fl_error [of q] by linarith

end
