(* ===== verification/Message.thy ===== *)
theory Message
  imports Go_JSON
begin

text \<open>
  \<open>internal/types/message.go\<close>: chat messages, the bytes a signature covers, and the two
  directions of the wire format.

  A \<open>*types.Message\<close> that may be nil is a \<open>Message option\<close>; a nil vector clock is \<open>None\<close>, an empty
  one \<open>Some []\<close>.  \<open>json.Marshal\<close> writes a message as a tree of fields (with \<open>omitempty\<close>, and map
  keys in sorted order).  \<open>json.Unmarshal\<close> fills a struct member by member: keys match field
  names up to case, a repeated key is decoded again into the same variable, \<open>null\<close> leaves a scalar
  alone, a value of the wrong type is remembered as the error and skipped.  A slice that is decoded
  twice reuses its array, so its spare capacity is part of the decoder's state.
\<close>

section \<open>Messages\<close>

record Message =
  mID :: string
  mSenderID :: string
  mSenderName :: string
  mContent :: string
  mMentions :: "string list"
  mMentionAll :: bool
  mVectorClock :: "u64 gomap option"
  mPrevHash :: string
  mSignature :: string
  mIsAI :: bool

definition Message_zero :: Message where
  "Message_zero = \<lparr>mID = [], mSenderID = [], mSenderName = [], mContent = [], mMentions = [],
     mMentionAll = False, mVectorClock = None, mPrevHash = [], mSignature = [], mIsAI = False\<rparr>"

text \<open>Lookups and loops over a nil map behave as over an empty one.\<close>

definition clock_of :: "Message \<Rightarrow> u64 gomap" where
  "clock_of m = (case mVectorClock m of None \<Rightarrow> [] | Some vc \<Rightarrow> vc)"

text \<open>\<open>NewMessage\<close>; \<open>uuid\<close> is the fresh identifier of \<open>uuid.New\<close>.\<close>

definition NewMessage ::
  "string \<Rightarrow> string \<Rightarrow> string \<Rightarrow> string \<Rightarrow> string list \<Rightarrow> bool \<Rightarrow> u64 gomap \<Rightarrow> string \<Rightarrow> bool \<Rightarrow> Message" where
  "NewMessage uuid senderID senderName content mentions mentionAll vc prevHash isAI =
     \<lparr>mID = uuid, mSenderID = senderID, mSenderName = senderName, mContent = content,
      mMentions = mentions, mMentionAll = mentionAll, mVectorClock = Some (go_copy vc),
      mPrevHash = prevHash, mSignature = [], mIsAI = isAI\<rparr>"

section \<open>Encoding\<close>

definition clock_json :: "u64 gomap option \<Rightarrow> json" where
  "clock_json vc = (case vc of None \<Rightarrow> JNull
     | Some m \<Rightarrow> JObj (map (\<lambda>(k, v). (k, JNum (decimal (unat v)))) (sort_key fst m)))"

definition omitempty :: "bool \<Rightarrow> string \<times> json \<Rightarrow> (string \<times> json) list" where
  "omitempty is_empty f = (if is_empty then [] else [f])"

definition signable_json :: "Message \<Rightarrow> json" where
  "signable_json m = JObj
     ([(''id'', JStr (mID m)), (''sender_id'', JStr (mSenderID m)),
       (''sender_name'', JStr (mSenderName m)), (''content'', JStr (mContent m))] @
      omitempty (mMentions m = []) (''mentions'', JArr (map JStr (mMentions m))) @
      omitempty (\<not> mMentionAll m) (''mention_all'', JBool (mMentionAll m)) @
      [(''vector_clock'', clock_json (mVectorClock m)), (''prev_hash'', JStr (mPrevHash m)),
       (''is_ai'', JBool (mIsAI m))])"

text \<open>\<open>SignableBytes\<close>; marshalling this struct cannot fail, but its callers have an error branch.\<close>

definition SignableBytes :: "Message \<Rightarrow> string + string" where
  "SignableBytes m = Inr (json_Render (signable_json m))"

definition hex_EncodeToString :: "string \<Rightarrow> string" where
  "hex_EncodeToString s = concat (map hex_byte s)"

text \<open>\<open>Hash\<close>; the digest function of \<open>crypto/sha256\<close> is a parameter.\<close>

definition Hash :: "(string \<Rightarrow> string) \<Rightarrow> Message \<Rightarrow> string + string" where
  "Hash sha256 m = (case SignableBytes m of
      Inl err \<Rightarrow> Inl (''hash message: '' @ err)
    | Inr data \<Rightarrow> Inr (hex_EncodeToString (sha256 data)))"

text \<open>The struct as \<open>json.Marshal\<close> writes it for the network.\<close>

definition message_json :: "Message \<Rightarrow> json" where
  "message_json m = JObj
     ([(''id'', JStr (mID m)), (''sender_id'', JStr (mSenderID m)),
       (''sender_name'', JStr (mSenderName m)), (''content'', JStr (mContent m))] @
      omitempty (mMentions m = []) (''mentions'', JArr (map JStr (mMentions m))) @
      omitempty (\<not> mMentionAll m) (''mention_all'', JBool (mMentionAll m)) @
      [(''vector_clock'', clock_json (mVectorClock m)), (''prev_hash'', JStr (mPrevHash m)),
       (''signature'', JStr (mSignature m)), (''is_ai'', JBool (mIsAI m))])"

definition Message_Marshal :: "Message \<Rightarrow> string" where
  "Message_Marshal m = json_Render (message_json m)"

section \<open>Decoding\<close>

text \<open>A decoder takes the JSON value and the variable's old value; the flag says whether a value of
  the wrong type was met.\<close>

definition decode_string :: "json \<Rightarrow> string \<Rightarrow> string \<times> bool" where
  "decode_string v cur = (case v of JNull \<Rightarrow> (cur, False) | JStr s \<Rightarrow> (s, False) | _ \<Rightarrow> (cur, True))"

definition decode_bool :: "json \<Rightarrow> bool \<Rightarrow> bool \<times> bool" where
  "decode_bool v cur = (case v of JNull \<Rightarrow> (cur, False) | JBool b \<Rightarrow> (b, False) | _ \<Rightarrow> (cur, True))"

definition decode_u64 :: "json \<Rightarrow> u64 \<times> bool" where
  "decode_u64 v = (case v of
      JNull \<Rightarrow> (0, False)
    | JNum n \<Rightarrow> (case parse_uint64 n of Some w \<Rightarrow> (w, False) | None \<Rightarrow> (0, True))
    | _ \<Rightarrow> (0, True))"

text \<open>A map keeps its old entries; every member is stored, with 0 where it could not be decoded.\<close>

definition decode_entry :: "string \<times> json \<Rightarrow> u64 gomap \<times> bool \<Rightarrow> u64 gomap \<times> bool" where
  "decode_entry = (\<lambda>(k, v) (m, bad). case decode_u64 v of (w, e) \<Rightarrow> (go_put k w m, bad \<or> e))"

definition decode_clock :: "json \<Rightarrow> u64 gomap option \<Rightarrow> u64 gomap option \<times> bool" where
  "decode_clock v cur = (case v of
      JNull \<Rightarrow> (None, False)
    | JObj ms \<Rightarrow>
        (case fold decode_entry ms (case cur of None \<Rightarrow> [] | Some m \<Rightarrow> m, False) of
           (m, bad) \<Rightarrow> (Some m, bad))
    | _ \<Rightarrow> (cur, True))"

text \<open>A slice is its elements and the old elements in its spare capacity, past which the array
  holds zero values \<open>z\<close>.\<close>

type_synonym 'a slice = "'a list \<times> 'a list"

definition decode_slice ::
  "(json \<Rightarrow> 'a \<Rightarrow> 'a \<times> bool) \<Rightarrow> 'a \<Rightarrow> json \<Rightarrow> 'a slice \<Rightarrow> 'a slice \<times> bool" where
  "decode_slice elem z v cur = (case v of
      JNull \<Rightarrow> (([], []), False)
    | JArr vs \<Rightarrow>
        if vs = [] then (([], []), False)
        else
          (let n = length vs;
               old = fst cur @ snd cur;
               new = map (\<lambda>(w, x). elem w x) (zip vs (take n old @ replicate (n - length old) z))
           in ((map fst new, drop n old), list_ex snd new))
    | _ \<Rightarrow> (cur, True))"

text \<open>A message variable with the spare capacity of its \<open>Mentions\<close>.\<close>

type_synonym message_cell = "Message \<times> string list"

definition decode_field :: "string \<times> json \<Rightarrow> message_cell \<Rightarrow> message_cell \<times> bool" where
  "decode_field = (\<lambda>(key, v) (m, spare).
     if is_field ''id'' key then
       (case decode_string v (mID m) of (s, e) \<Rightarrow> ((m\<lparr>mID := s\<rparr>, spare), e))
     else if is_field ''sender_id'' key then
       (case decode_string v (mSenderID m) of (s, e) \<Rightarrow> ((m\<lparr>mSenderID := s\<rparr>, spare), e))
     else if is_field ''sender_name'' key then
       (case decode_string v (mSenderName m) of (s, e) \<Rightarrow> ((m\<lparr>mSenderName := s\<rparr>, spare), e))
     else if is_field ''content'' key then
       (case decode_string v (mContent m) of (s, e) \<Rightarrow> ((m\<lparr>mContent := s\<rparr>, spare), e))
     else if is_field ''mentions'' key then
       (case decode_slice decode_string [] v (mMentions m, spare) of
          ((xs, sp), e) \<Rightarrow> ((m\<lparr>mMentions := xs\<rparr>, sp), e))
     else if is_field ''mention_all'' key then
       (case decode_bool v (mMentionAll m) of (b, e) \<Rightarrow> ((m\<lparr>mMentionAll := b\<rparr>, spare), e))
     else if is_field ''vector_clock'' key then
       (case decode_clock v (mVectorClock m) of (c, e) \<Rightarrow> ((m\<lparr>mVectorClock := c\<rparr>, spare), e))
     else if is_field ''prev_hash'' key then
       (case decode_string v (mPrevHash m) of (s, e) \<Rightarrow> ((m\<lparr>mPrevHash := s\<rparr>, spare), e))
     else if is_field ''signature'' key then
       (case decode_string v (mSignature m) of (s, e) \<Rightarrow> ((m\<lparr>mSignature := s\<rparr>, spare), e))
     else if is_field ''is_ai'' key then
       (case decode_bool v (mIsAI m) of (b, e) \<Rightarrow> ((m\<lparr>mIsAI := b\<rparr>, spare), e))
     else ((m, spare), False))"

text \<open>The members of an object one after the other; generic in the struct.\<close>

fun decode_members :: "(string \<times> json \<Rightarrow> 's \<Rightarrow> 's \<times> bool) \<Rightarrow> (string \<times> json) list \<Rightarrow> 's \<Rightarrow> 's \<times> bool" where
  "decode_members field [] s = (s, False)"
| "decode_members field (x # xs) s =
     (case field x s of (s1, e1) \<Rightarrow> case decode_members field xs s1 of (s2, e2) \<Rightarrow> (s2, e1 \<or> e2))"

definition decode_struct :: "(string \<times> json \<Rightarrow> 's \<Rightarrow> 's \<times> bool) \<Rightarrow> json \<Rightarrow> 's \<Rightarrow> 's \<times> bool" where
  "decode_struct field v s = (case v of
      JNull \<Rightarrow> (s, False) | JObj ms \<Rightarrow> decode_members field ms s | _ \<Rightarrow> (s, True))"

datatype json_error = SyntaxError parse_fail | UnmarshalTypeError

text \<open>\<open>json.Unmarshal\<close> into a fresh variable: what the variable holds afterwards, and the error.\<close>

definition Unmarshal :: "(string \<times> json \<Rightarrow> 's \<Rightarrow> 's \<times> bool) \<Rightarrow> 's \<Rightarrow> string \<Rightarrow> 's \<times> json_error option" where
  "Unmarshal field z data = (case json_Parse data of
      Inl f \<Rightarrow> (z, Some (SyntaxError f))
    | Inr v \<Rightarrow> (case decode_struct field v z of
                  (s, bad) \<Rightarrow> (s, if bad then Some UnmarshalTypeError else None)))"

definition Message_Unmarshal :: "string \<Rightarrow> Message \<times> json_error option" where
  "Message_Unmarshal data = (case Unmarshal decode_field (Message_zero, []) data of ((m, _), err) \<Rightarrow> (m, err))"


section \<open>Lemmas\<close>

lemma byte_digit: "d < 10 \<Longrightarrow> byte (digit d) = 48 + d"
  by (simp add: digit_def)

lemma is_digit_digit: "d < 10 \<Longrightarrow> is_digit (digit d)"
  by (simp add: is_digit_def byte_digit)

lemma decimal_digits: "list_all is_digit (decimal n)"
  by (induction n rule: decimal.induct) (subst decimal.simps, simp add: is_digit_digit)

lemma decimal_value: "decimal_value (decimal n) = n"
proof (induction n rule: decimal.induct)
  case (1 n)
  show ?case
  proof (cases "n < 10")
    case True
    then show ?thesis by (simp add: decimal.simps [of n] decimal_value_def byte_digit)
  next
    case False
    with 1 show ?thesis
      by (simp add: decimal.simps [of n] decimal_value_def byte_digit)
  qed
qed

lemma decimal_hd: "0 < n \<Longrightarrow> hd (decimal n) \<noteq> CHR ''0''"
proof (induction n rule: decimal.induct)
  case (1 n)
  show ?case
  proof (cases "n < 10")
    case True
    with 1 have "byte (hd (decimal n)) \<noteq> byte CHR ''0''"
      by (simp add: decimal.simps [of n] byte_digit)
    then show ?thesis by metis
  next
    case False
    with 1 show ?thesis by (simp add: decimal.simps [of n])
  qed
qed

lemma decimal_0: "decimal 0 = ''0''"
  by (simp add: decimal.simps [of 0] digit_def char_of_def bit_Suc_0_iff)

lemma num_token_decimal [simp]: "num_token (decimal n)"
  using decimal_hd [of n] decimal_0 by (cases "n = 0") (auto simp: num_token_def decimal_digits is_digit_def)

lemma parse_uint64_decimal [simp]: "parse_uint64 (decimal (unat w)) = Some w"
  using unsigned_less [of w, where ?'a = nat] by (simp add: parse_uint64_def decimal_digits decimal_value)

lemma decimal_inj [simp]: "decimal m = decimal n \<longleftrightarrow> m = n"
  by (metis decimal_value)


text \<open>The sorted keys of a map: the same for two maps exactly when every lookup agrees.\<close>

lemma sort_key_go_map:
  assumes "go_wf m" and "go_wf m'"
  shows "sort_key fst m = sort_key fst m' \<longleftrightarrow> map_of m = map_of m'"
proof
  assume "sort_key fst m = sort_key fst m'"
  then have "mset m = mset m'" by (metis mset_sort)
  with assms(1) show "map_of m = map_of m'" by (rule go_perm_lookup(2))
next
  assume eq: "map_of m = map_of m'"
  have "set m = set m'"
    using assms eq map_of_inject_set [of m m'] by (simp add: go_wf_def)
  moreover have "distinct m" "distinct m'"
    using assms by (simp_all add: go_wf_def distinct_map)
  ultimately have "mset m = mset m'" by (simp add: set_eq_iff_mset_eq_distinct)
  then have "mset m = mset (sort_key fst m')" by simp
  moreover have "inj_on fst (set m)" using assms(1) by (simp add: go_wf_def distinct_map)
  ultimately show "sort_key fst m = sort_key fst m'" by (intro sort_key_inj_key_eq) simp_all
qed

definition same_clock :: "u64 gomap option \<Rightarrow> u64 gomap option \<Rightarrow> bool" where
  "same_clock a b = (case a of None \<Rightarrow> b = None
     | Some m \<Rightarrow> (case b of None \<Rightarrow> False | Some m' \<Rightarrow> map_of m = map_of m'))"

definition clock_wf :: "u64 gomap option \<Rightarrow> bool" where
  "clock_wf a = (case a of None \<Rightarrow> True | Some m \<Rightarrow> go_wf m)"

lemma clock_json_eq:
  assumes "clock_wf a" and "clock_wf b"
  shows "clock_json a = clock_json b \<longleftrightarrow> same_clock a b"
proof -
  have "inj (\<lambda>(k :: string, v :: u64). (k, JNum (decimal (unat v))))"
    by (auto simp: inj_on_def intro: unsigned_word_eqI)
  then have "map (\<lambda>(k, v). (k, JNum (decimal (unat v)))) xs = map (\<lambda>(k, v). (k, JNum (decimal (unat v)))) ys
      \<longleftrightarrow> xs = ys" for xs ys :: "u64 gomap"
    by (rule inj_map_eq_map)
  with assms show ?thesis
    by (cases a; cases b) (simp_all add: clock_json_def same_clock_def clock_wf_def sort_key_go_map)
qed

text \<open>Everything but the signature.\<close>

definition same_signed_part :: "Message \<Rightarrow> Message \<Rightarrow> bool" where
  "same_signed_part m m' =
     (mID m = mID m' \<and> mSenderID m = mSenderID m' \<and> mSenderName m = mSenderName m' \<and>
      mContent m = mContent m' \<and> mMentions m = mMentions m' \<and> mMentionAll m = mMentionAll m' \<and>
      same_clock (mVectorClock m) (mVectorClock m') \<and> mPrevHash m = mPrevHash m' \<and> mIsAI m = mIsAI m')"

text \<open>Messages whose strings are valid UTF-8; a decoded message always is one.\<close>

definition message_utf8 :: "Message \<Rightarrow> bool" where
  "message_utf8 m =
     (valid_utf8 (mID m) \<and> valid_utf8 (mSenderID m) \<and> valid_utf8 (mSenderName m) \<and>
      valid_utf8 (mContent m) \<and> list_all valid_utf8 (mMentions m) \<and>
      (\<forall>k \<in> fst ` set (clock_of m). valid_utf8 k) \<and> valid_utf8 (mPrevHash m) \<and>
      valid_utf8 (mSignature m))"

definition message_wf :: "Message \<Rightarrow> bool" where
  "message_wf m = (message_utf8 m \<and> clock_wf (mVectorClock m))"

lemma JStr_map_eq [simp]: "map JStr xs = map JStr ys \<longleftrightarrow> xs = ys"
  by (simp add: inj_map_eq_map inj_on_def)

lemma signable_json_eq:
  assumes "clock_wf (mVectorClock m)" and "clock_wf (mVectorClock m')"
  shows "signable_json m = signable_json m' \<longleftrightarrow> same_signed_part m m'"
  using clock_json_eq [OF assms]
  by (cases "mMentions m = []"; cases "mMentions m' = []"; cases "mMentionAll m"; cases "mMentionAll m'")
    (auto simp: signable_json_def same_signed_part_def omitempty_def)

lemma valid_utf8_ascii [simp]: "is_ascii s \<Longrightarrow> valid_utf8 s"
  by (induction s) (auto simp: is_ascii_def valid_utf8.simps(2))

lemma is_ascii_Cons [simp]: "is_ascii (c # s) \<longleftrightarrow> byte c < 128 \<and> is_ascii s" "is_ascii []"
  by (simp_all add: is_ascii_def)

lemma json_fits_clock: "message_utf8 m \<Longrightarrow> json_fits (Suc d) (clock_json (mVectorClock m))"
  by (auto simp: clock_json_def message_utf8_def clock_of_def list_all_iff split: option.splits) blast?

lemma json_fits_mentions: "message_utf8 m \<Longrightarrow> json_fits (Suc d) (JArr (map JStr (mMentions m)))"
  by (auto simp: message_utf8_def list_all_iff)

lemma json_fits_signable: "message_utf8 m \<Longrightarrow> json_fits (Suc (Suc d)) (signable_json m)"
  using json_fits_clock [of m d] json_fits_mentions [of m d]
  by (auto simp: signable_json_def message_utf8_def omitempty_def simp del: json_fits.simps(5))

lemma json_fits_message: "message_utf8 m \<Longrightarrow> json_fits (Suc (Suc d)) (message_json m)"
  using json_fits_clock [of m d] json_fits_mentions [of m d]
  by (auto simp: message_json_def message_utf8_def omitempty_def simp del: json_fits.simps(5))

lemma max_depth_SucSuc: "json_max_depth = Suc (Suc 9998)"
  by (simp add: json_max_depth_def)

text \<open>The signature covers every other field: equal signable bytes mean equal messages.\<close>

lemma SignableBytes_eq:
  assumes "message_wf m" and "message_wf m'"
  shows "SignableBytes m = SignableBytes m' \<longleftrightarrow> same_signed_part m m'"
proof -
  have "json_fits json_max_depth (signable_json m)" "json_fits json_max_depth (signable_json m')"
    using assms unfolding max_depth_SucSuc by (simp_all only: message_wf_def json_fits_signable)
  then have "SignableBytes m = SignableBytes m' \<longleftrightarrow> signable_json m = signable_json m'"
    by (simp add: SignableBytes_def json_Render_inj)
  with assms show ?thesis by (simp add: message_wf_def signable_json_eq)
qed


section \<open>Decoding what was encoded\<close>

lemma decode_members_append:
  "decode_members field (xs @ ys) s =
     (case decode_members field xs s of (s1, e1) \<Rightarrow> case decode_members field ys s1 of (s2, e2) \<Rightarrow> (s2, e1 \<or> e2))"
  by (induction xs arbitrary: s) (auto split: prod.splits)

lemma fold_decode_entry:
  "go_wf (acc @ m) \<Longrightarrow>
   fold decode_entry (map (\<lambda>(k, v). (k, JNum (decimal (unat v)))) m) (acc, bad) = (acc @ m, bad)"
proof (induction m arbitrary: acc)
  case (Cons e m)
  obtain k v where e: "e = (k, v)" by (cases e)
  have "k \<notin> fst ` set acc" using Cons.prems by (auto simp: go_wf_def e)
  then have "go_put k v acc = acc @ [(k, v)]" by (rule go_put_fresh)
  with Cons.IH [of "acc @ [(k, v)]"] Cons.prems show ?case
    by (simp add: e decode_entry_def decode_u64_def)
qed simp

definition sorted_clock :: "u64 gomap option \<Rightarrow> u64 gomap option" where
  "sorted_clock = map_option (sort_key fst)"

lemma go_wf_sort [simp]: "go_wf (sort_key fst m) \<longleftrightarrow> go_wf m"
  unfolding go_wf_def by (metis mset_eq_imp_distinct_iff mset_map mset_sort)

lemma decode_clock_json:
  "clock_wf c \<Longrightarrow> decode_clock (clock_json c) None = (sorted_clock c, False)"
  using fold_decode_entry [of "[]"]
  by (cases c) (simp_all add: decode_clock_def clock_json_def sorted_clock_def clock_wf_def)

lemma decode_mentions:
  "decode_slice decode_string [] (JArr (map JStr xs)) ([], []) = ((xs, []), False)"
proof -
  have "map (\<lambda>(w, x). decode_string w x) (zip (map JStr xs) (replicate (length xs) [])) = map (\<lambda>x. (x, False)) xs"
    by (induction xs) (simp_all add: decode_string_def)
  then show ?thesis
    by (cases "xs = []") (simp_all only: decode_slice_def Let_def, simp_all add: comp_def list_ex_iff split_beta)
qed

text \<open>The keys of the wire format, pairwise different up to case.\<close>

declare fold_name.simps [simp del]

lemma fold_name_keys [simp]:
  "fold_name ''id'' = ''ID''" "fold_name ''sender_id'' = ''SENDER_ID''" "fold_name ''sender_name'' = ''SENDER_NAME''"
  "fold_name ''content'' = ''CONTENT''" "fold_name ''mentions'' = ''MENTIONS''"
  "fold_name ''mention_all'' = ''MENTION_ALL''" "fold_name ''vector_clock'' = ''VECTOR_CLOCK''"
  "fold_name ''prev_hash'' = ''PREV_HASH''" "fold_name ''signature'' = ''SIGNATURE''" "fold_name ''is_ai'' = ''IS_AI''"
  by code_simp+

lemma decode_field_keys:
  "decode_field (''id'', JStr s) (m, sp) = ((m\<lparr>mID := s\<rparr>, sp), False)"
  "decode_field (''sender_id'', JStr s) (m, sp) = ((m\<lparr>mSenderID := s\<rparr>, sp), False)"
  "decode_field (''sender_name'', JStr s) (m, sp) = ((m\<lparr>mSenderName := s\<rparr>, sp), False)"
  "decode_field (''content'', JStr s) (m, sp) = ((m\<lparr>mContent := s\<rparr>, sp), False)"
  "decode_field (''mentions'', v) (m, sp) =
     (case decode_slice decode_string [] v (mMentions m, sp) of ((xs, sp), e) \<Rightarrow> ((m\<lparr>mMentions := xs\<rparr>, sp), e))"
  "decode_field (''mention_all'', JBool b) (m, sp) = ((m\<lparr>mMentionAll := b\<rparr>, sp), False)"
  "decode_field (''vector_clock'', v) (m, sp) =
     (case decode_clock v (mVectorClock m) of (c, e) \<Rightarrow> ((m\<lparr>mVectorClock := c\<rparr>, sp), e))"
  "decode_field (''prev_hash'', JStr s) (m, sp) = ((m\<lparr>mPrevHash := s\<rparr>, sp), False)"
  "decode_field (''signature'', JStr s) (m, sp) = ((m\<lparr>mSignature := s\<rparr>, sp), False)"
  "decode_field (''is_ai'', JBool b) (m, sp) = ((m\<lparr>mIsAI := b\<rparr>, sp), False)"
  by (simp_all add: decode_field_def is_field_def decode_string_def decode_bool_def)

lemma decode_members_message:
  assumes "clock_wf (mVectorClock m)"
  shows "decode_struct decode_field (message_json m) (Message_zero, []) =
     ((m\<lparr>mVectorClock := sorted_clock (mVectorClock m)\<rparr>, []), False)"
  by (cases "mMentions m = []"; cases "mMentionAll m")
    (simp_all add: message_json_def decode_struct_def omitempty_def decode_field_keys Message_zero_def
      decode_clock_json [OF assms] decode_mentions)

text \<open>A published message arrives as it was sent; its clock's entries come in key order.\<close>

lemma Message_Unmarshal_Marshal:
  assumes "message_wf m"
  shows "Message_Unmarshal (Message_Marshal m) = (m\<lparr>mVectorClock := sorted_clock (mVectorClock m)\<rparr>, None)"
proof -
  have "json_fits json_max_depth (message_json m)"
    using assms unfolding max_depth_SucSuc by (simp only: message_wf_def json_fits_message)
  then have parse: "json_Parse (Message_Marshal m) = Inr (message_json m)"
    by (simp add: Message_Marshal_def json_Parse_Render)
  show ?thesis
    using assms by (simp add: Message_Unmarshal_def Unmarshal_def parse decode_members_message message_wf_def)
qed


section \<open>What the network delivers is well formed\<close>

text \<open>Whatever bytes arrive, the decoded message has valid strings and a map without repeated keys,
  so its signable bytes determine it.\<close>

definition cell_wf :: "message_cell \<Rightarrow> bool" where
  "cell_wf c = (message_wf (fst c) \<and> list_all valid_utf8 (snd c))"

lemma decode_string_utf8: "json_utf8 v \<Longrightarrow> valid_utf8 cur \<Longrightarrow> valid_utf8 (fst (decode_string v cur))"
  by (cases v) (simp_all add: decode_string_def)

lemma decode_entry_wf:
  "\<forall>k \<in> fst ` set ms. valid_utf8 k \<Longrightarrow> go_wf m \<Longrightarrow> \<forall>k \<in> fst ` set m. valid_utf8 k \<Longrightarrow>
   fold decode_entry ms (m, bad) = (m', bad') \<Longrightarrow> go_wf m' \<and> (\<forall>k \<in> fst ` set m'. valid_utf8 k)"
proof (induction ms arbitrary: m bad)
  case (Cons x ms)
  obtain k v where x: "x = (k, v)" by (cases x)
  have "\<forall>k' \<in> fst ` set (go_put k w m). valid_utf8 k'" for w
    using Cons.prems(1,3) by (simp add: set_go_put_keys x)
  moreover have entry: "decode_entry (k, v) (m, bad) = (go_put k (fst (decode_u64 v)) m, bad \<or> snd (decode_u64 v))"
    by (simp add: decode_entry_def split_beta)
  have "fold decode_entry ms (go_put k (fst (decode_u64 v)) m, bad \<or> snd (decode_u64 v)) = (m', bad')"
    using Cons.prems(4) by (simp add: x entry)
  ultimately show ?case using Cons.prems(1,2) by (intro Cons.IH) simp_all
qed simp

definition clock_utf8 :: "u64 gomap option \<Rightarrow> bool" where
  "clock_utf8 c = (\<forall>k \<in> fst ` set (case c of None \<Rightarrow> [] | Some m \<Rightarrow> m). valid_utf8 k)"

lemma decode_clock_wf:
  assumes "json_utf8 v" "clock_wf cur" "clock_utf8 cur" and "decode_clock v cur = (c, e)"
  shows "clock_wf c \<and> clock_utf8 c"
proof (cases v)
  case (JObj ms)
  then obtain m bad where m: "fold decode_entry ms (case cur of None \<Rightarrow> [] | Some m \<Rightarrow> m, False) = (m, bad)" "c = Some m"
    using assms(4) by (auto simp: decode_clock_def split: prod.splits)
  have "go_wf m \<and> (\<forall>k \<in> fst ` set m. valid_utf8 k)"
    by (rule decode_entry_wf [OF _ _ _ m(1)])
      (use assms JObj in \<open>auto simp: clock_wf_def clock_utf8_def split: option.splits\<close>)
  with m(2) show ?thesis by (simp add: clock_wf_def clock_utf8_def)
qed (use assms in \<open>auto simp: decode_clock_def clock_wf_def clock_utf8_def\<close>)

lemma decode_slice_all:
  assumes "json_utf8 v" "list_all Q xs" "list_all Q sp" "Q z"
    and elem: "\<And>w x. json_utf8 w \<Longrightarrow> Q x \<Longrightarrow> Q (fst (elem w x))"
    and "decode_slice elem z v (xs, sp) = ((xs', sp'), e)"
  shows "list_all Q xs' \<and> list_all Q sp'"
proof (cases v)
  case (JArr vs)
  let ?old = "take (length vs) (xs @ sp) @ replicate (length vs - length (xs @ sp)) z"
  have "\<forall>x \<in> set ?old. Q x" "\<forall>x \<in> set (drop (length vs) (xs @ sp)). Q x"
    using assms(2-4) by (auto simp: list_all_iff dest!: in_set_takeD in_set_dropD)
  moreover have "\<forall>w \<in> set vs. json_utf8 w" using assms(1) JArr by simp
  ultimately have "\<forall>(w, x) \<in> set (zip vs ?old). Q (fst (elem w x))"
    by (auto intro!: elem dest: set_zip_leftD set_zip_rightD)
  with assms(6) JArr \<open>\<forall>x \<in> set (drop _ _). _\<close> show ?thesis
    by (auto simp: decode_slice_def Let_def list_all_iff split: if_splits)
qed (use assms in \<open>auto simp: decode_slice_def\<close>)

lemma decode_slice_utf8:
  assumes "json_utf8 v" "list_all valid_utf8 xs" "list_all valid_utf8 sp"
    and "decode_slice decode_string [] v (xs, sp) = ((xs', sp'), e)"
  shows "list_all valid_utf8 xs' \<and> list_all valid_utf8 sp'"
  using decode_slice_all [OF assms(1-3) _ _ assms(4)] decode_string_utf8 by simp

lemma message_wf_update:
  assumes "message_wf m"
  shows "valid_utf8 s \<Longrightarrow> message_wf (m\<lparr>mID := s\<rparr>)" "valid_utf8 s \<Longrightarrow> message_wf (m\<lparr>mSenderID := s\<rparr>)"
    "valid_utf8 s \<Longrightarrow> message_wf (m\<lparr>mSenderName := s\<rparr>)" "valid_utf8 s \<Longrightarrow> message_wf (m\<lparr>mContent := s\<rparr>)"
    "list_all valid_utf8 xs \<Longrightarrow> message_wf (m\<lparr>mMentions := xs\<rparr>)" "message_wf (m\<lparr>mMentionAll := b\<rparr>)"
    "clock_wf c \<and> clock_utf8 c \<Longrightarrow> message_wf (m\<lparr>mVectorClock := c\<rparr>)"
    "valid_utf8 s \<Longrightarrow> message_wf (m\<lparr>mPrevHash := s\<rparr>)" "valid_utf8 s \<Longrightarrow> message_wf (m\<lparr>mSignature := s\<rparr>)"
    "message_wf (m\<lparr>mIsAI := b\<rparr>)"
  using assms by (simp_all add: message_wf_def message_utf8_def clock_of_def clock_utf8_def)

lemma decode_field_wf:
  assumes "json_utf8 v" "cell_wf c"
  shows "cell_wf (fst (decode_field (k, v) c))"
proof -
  obtain m sp where c: "c = (m, sp)" by (cases c)
  have wf: "message_wf m" "list_all valid_utf8 sp" using assms(2) by (simp_all add: c cell_wf_def)
  then have parts: "valid_utf8 (mID m)" "valid_utf8 (mSenderID m)" "valid_utf8 (mSenderName m)" "valid_utf8 (mContent m)"
    "list_all valid_utf8 (mMentions m)" "clock_wf (mVectorClock m)" "clock_utf8 (mVectorClock m)"
    "valid_utf8 (mPrevHash m)" "valid_utf8 (mSignature m)"
    by (simp_all add: message_wf_def message_utf8_def clock_utf8_def clock_of_def)
  note str = decode_string_utf8 [OF assms(1)]
  obtain xs sp' e where ms: "decode_slice decode_string [] v (mMentions m, sp) = ((xs, sp'), e)" by (metis surj_pair)
  have mentions: "list_all valid_utf8 xs" "list_all valid_utf8 sp'"
    using decode_slice_utf8 [OF assms(1) parts(5) wf(2) ms] by simp_all
  obtain vc e' where vc: "decode_clock v (mVectorClock m) = (vc, e')" by fastforce
  have clock: "clock_wf vc \<and> clock_utf8 vc"
    by (rule decode_clock_wf [OF assms(1) parts(6,7) vc])
  show ?thesis
    unfolding c decode_field_def
    by (simp add: ms vc cell_wf_def split_beta wf parts mentions clock str message_wf_update)
qed

lemma decode_members_wf:
  "\<forall>(k, v) \<in> set ms. json_utf8 v \<Longrightarrow> cell_wf c \<Longrightarrow> cell_wf (fst (decode_members decode_field ms c))"
proof (induction ms arbitrary: c)
  case (Cons x ms)
  obtain k v where x: "x = (k, v)" by (cases x)
  have "cell_wf (fst (decode_field (k, v) c))" using Cons.prems by (intro decode_field_wf) (auto simp: x)
  with Cons show ?case by (simp add: x split_beta)
qed simp

lemma decode_struct_wf: "json_utf8 v \<Longrightarrow> cell_wf c \<Longrightarrow> cell_wf (fst (decode_struct decode_field v c))"
  using decode_members_wf by (cases v) (fastforce simp: decode_struct_def)+

lemma Message_zero_wf: "cell_wf (Message_zero, [])"
  by (simp add: cell_wf_def message_wf_def message_utf8_def Message_zero_def clock_of_def clock_wf_def)

lemma Message_Unmarshal_wf: "message_wf (fst (Message_Unmarshal data))"
proof (cases "json_Parse data")
  case (Inl f)
  with Message_zero_wf show ?thesis by (simp add: Message_Unmarshal_def Unmarshal_def cell_wf_def)
next
  case (Inr v)
  then have "cell_wf (fst (decode_struct decode_field v (Message_zero, [])))"
    by (intro decode_struct_wf json_Parse_utf8 Message_zero_wf)
  with Inr show ?thesis
    by (simp add: Message_Unmarshal_def Unmarshal_def cell_wf_def split_beta)
qed


section \<open>Properties\<close>

text \<open>A sample message for the witnesses: two clock entries, one mention.\<close>

definition sample_message :: Message where
  "sample_message = \<lparr>mID = ''m1'', mSenderID = ''alice'', mSenderName = ''Alice'', mContent = ''hi @bob <3'',
     mMentions = [''bob''], mMentionAll = False, mVectorClock = Some [(''bob'', 2), (''alice'', 1)],
     mPrevHash = ''00ff'', mSignature = ''aa'', mIsAI = False\<rparr>"

definition sample_reordered :: Message where
  "sample_reordered = sample_message\<lparr>mVectorClock := Some [(''alice'', 1), (''bob'', 2)], mSignature := ''bb''\<rparr>"

lemma sample_message_wf [simp]: "message_wf sample_message" "message_wf sample_reordered"
  by (simp_all add: sample_message_def sample_reordered_def message_wf_def message_utf8_def clock_of_def
      clock_wf_def go_wf_def)

text \<open>C8. The signature covers every other field: two well-formed messages have the same signable
  bytes exactly when they agree in everything but the signature, with their clocks compared as maps.
  In particular the bytes do not depend on the order in which Go iterates over the clock, and no
  change of any field goes unnoticed.\<close>

theorem signable_bytes_bind_every_field:
  assumes "message_wf m" and "message_wf m'"
  shows "SignableBytes m = SignableBytes m' \<longleftrightarrow> same_signed_part m m'"
  using assms by (rule SignableBytes_eq)

theorem signable_bytes_bind_every_field_witness:
  "SignableBytes sample_message = SignableBytes sample_reordered \<and>
   SignableBytes sample_message \<noteq> SignableBytes (sample_message\<lparr>mIsAI := True\<rparr>)"
proof -
  have wf: "message_wf (sample_message\<lparr>mIsAI := True\<rparr>)"
    using message_wf_update [OF sample_message_wf(1)] by blast
  have "[''bob'' \<mapsto> 2 :: u64, ''alice'' \<mapsto> 1] = [''alice'' \<mapsto> 1, ''bob'' \<mapsto> 2]"
    by (rule fun_upd_twist) simp
  then have "same_signed_part sample_message sample_reordered"
    by (simp add: same_signed_part_def sample_message_def sample_reordered_def same_clock_def)
  moreover have "\<not> same_signed_part sample_message (sample_message\<lparr>mIsAI := True\<rparr>)"
    by (simp add: same_signed_part_def) (simp add: sample_message_def)
  ultimately show ?thesis
    using signable_bytes_bind_every_field [OF sample_message_wf]
      signable_bytes_bind_every_field [OF sample_message_wf(1) wf] by simp
qed

text \<open>C24. What arrives is what was sent: decoding the bytes \<open>Publish\<close> writes for a well-formed message
  gives that message without an error, with the entries of its clock in key order.\<close>

theorem publish_decode_roundtrip:
  assumes "message_wf m"
  shows "Message_Unmarshal (Message_Marshal m) = (m\<lparr>mVectorClock := sorted_clock (mVectorClock m)\<rparr>, None)"
  using assms by (rule Message_Unmarshal_Marshal)

theorem publish_decode_roundtrip_witness:
  "Message_Unmarshal (Message_Marshal sample_message)
     = (sample_message\<lparr>mVectorClock := Some [(''alice'', 1), (''bob'', 2)]\<rparr>, None)"
  using publish_decode_roundtrip [OF sample_message_wf(1)]
  by (simp add: sample_message_def sorted_clock_def)

text \<open>Whatever bytes a peer sends, the decoder answers, and the message it fills in is well formed:
  its strings are valid UTF-8 and its clock has no repeated key.  Together with \<open>signable_bytes_bind_every_field\<close>, a
  signature on a received message determines it.\<close>

lemma received_messages_are_well_formed:
  "message_wf (fst (Message_Unmarshal data))"
  by (rule Message_Unmarshal_wf)

end
