(* ===== verification/Ledger.thy ===== *)
theory Ledger
  imports Message Vector_Clock Go_Sort
begin

text \<open>
  \<open>internal/chat/ledger.go\<close>: the bounded, deduplicated, causally sorted log of accepted messages.

  \<open>AddWithReason\<close> is the gate every message passes after its signature was checked: it refuses
  duplicates, messages whose sender's own counter does not advance, and a second message on the same
  predecessor.  The highest counter per sender and the predecessor table survive the eviction of old
  messages.  Every method holds the ledger's mutex throughout, so each is one state transformer;
  Go's \<open>int\<close> counters are mathematical integers here.  \<open>U\<close> stands for Go's Unicode tables, which
  only the last two comparisons of \<open>CompareMessages\<close> consult.
\<close>

section \<open>State and operations\<close>

definition DefaultMaxMessages :: int where
  "DefaultMaxMessages = 200"

record Stats =
  sMessageCount :: nat
  sVerified :: int
  sRejected :: int
  sRepaired :: int
  sDuplicate :: int
  sEquivocation :: int
  sClockBack :: int
  sSyncStatus :: string
  sLastReject :: string
  sVectorClock :: "u64 gomap"

record Ledger =
  lMax :: int
  lIds :: "string set"
  lMessages :: "Message list"
  lSenderClock :: "u64 gomap"
  lPrevHash :: "string gomap"
  lVerified :: int
  lRejected :: int
  lRepaired :: int
  lDuplicate :: int
  lEquivocation :: int
  lClockBack :: int
  lLastReject :: string
  lSyncStatus :: string

definition NewLedger :: "int \<Rightarrow> Ledger" where
  "NewLedger m = \<lparr>lMax = (if m \<le> 0 then DefaultMaxMessages else m), lIds = {}, lMessages = [],
     lSenderClock = [], lPrevHash = [], lVerified = 0, lRejected = 0, lRepaired = 0, lDuplicate = 0,
     lEquivocation = 0, lClockBack = 0, lLastReject = [], lSyncStatus = ''idle''\<rparr>"

definition cloneMessage :: "Message option \<Rightarrow> Message option" where
  "cloneMessage msg = map_option (\<lambda>m. m\<lparr>mVectorClock := Some (go_copy (clock_of m))\<rparr>) msg"

text \<open>The display order: causal order first, then sender, identifier, name and content.\<close>

definition CompareMessages :: "unicode \<Rightarrow> Message option \<Rightarrow> Message option \<Rightarrow> int" where
  "CompareMessages U a b =
     (case (a, b) of
        (Some a, Some b) \<Rightarrow>
          (case Compare (clock_of a) (clock_of b) of
             Before \<Rightarrow> - 1
           | After \<Rightarrow> 1
           | _ \<Rightarrow>
             if mSenderID a \<noteq> mSenderID b then strings_Compare (mSenderID a) (mSenderID b)
             else if mID a \<noteq> mID b then strings_Compare (mID a) (mID b)
             else if \<not> EqualFold U (mSenderName a) (mSenderName b)
               then strings_Compare (ToLower U (mSenderName a)) (ToLower U (mSenderName b))
             else strings_Compare (mContent a) (mContent b))
      | _ \<Rightarrow> 0)"

abbreviation msg_less :: "unicode \<Rightarrow> Message \<Rightarrow> Message \<Rightarrow> bool" where
  "msg_less U a b \<equiv> CompareMessages U (Some a) (Some b) < 0"

definition sortMessages :: "unicode \<Rightarrow> Message list \<Rightarrow> Message list" where
  "sortMessages U msgs = SliceStable (msg_less U) msgs"

text \<open>The key of the predecessor table.\<close>

definition prev_key :: "Message \<Rightarrow> string" where
  "prev_key m = mSenderID m @ ''|'' @ mPrevHash m"

text \<open>The part of \<open>AddWithReason\<close> after the checks: record, append, sort, evict.\<close>

definition insert_message :: "unicode \<Rightarrow> Message \<Rightarrow> Ledger \<Rightarrow> Ledger" where
  "insert_message U m l =
     (let sc = go_get 0 (clock_of m) (mSenderID m);
          prevs = (if mPrevHash m \<noteq> [] then go_put (prev_key m) (mID m) (lPrevHash l) else lPrevHash l);
          clocks = (if sc > go_get 0 (lSenderClock l) (mSenderID m)
                    then go_put (mSenderID m) sc (lSenderClock l) else lSenderClock l);
          msgs = sortMessages U (lMessages l @ [the (cloneMessage (Some m))]);
          over = nat (int (length msgs) - lMax l)
      in l\<lparr>lIds := (if int (length msgs) > lMax l
                    then insert (mID m) (lIds l) - mID ` set (take over msgs) else insert (mID m) (lIds l)),
           lPrevHash := prevs,
           lSenderClock := clocks,
           lMessages := (if int (length msgs) > lMax l then drop over msgs else msgs),
           lVerified := lVerified l + 1\<rparr>)"

definition AddWithReason :: "unicode \<Rightarrow> Message option \<Rightarrow> Ledger \<Rightarrow> Ledger \<times> bool \<times> string" where
  "AddWithReason U msg l =
     (case msg of
        None \<Rightarrow> (l, False, ''invalid_message'')
      | Some m \<Rightarrow>
        if mID m = [] then (l, False, ''invalid_message'')
        else if mID m \<in> lIds l then (l\<lparr>lDuplicate := lDuplicate l + 1\<rparr>, False, ''duplicate_message'')
        else
          (let sc = go_get 0 (clock_of m) (mSenderID m) in
           if sc > 0 \<and> go_has (lSenderClock l) (mSenderID m) \<and> sc \<le> go_get 0 (lSenderClock l) (mSenderID m)
             then (l\<lparr>lClockBack := lClockBack l + 1, lLastReject := ''clock_regression''\<rparr>, False, ''clock_regression'')
           else if mPrevHash m \<noteq> [] \<and> go_has (lPrevHash l) (prev_key m) \<and> go_get [] (lPrevHash l) (prev_key m) \<noteq> mID m
             then (l\<lparr>lEquivocation := lEquivocation l + 1, lLastReject := ''equivocation_fork''\<rparr>, False, ''equivocation_fork'')
           else (insert_message U m l, True, [])))"

definition Add :: "unicode \<Rightarrow> Message option \<Rightarrow> Ledger \<Rightarrow> Ledger \<times> bool" where
  "Add U msg l = (case AddWithReason U msg l of (l', ok, _) \<Rightarrow> (l', ok))"

definition Has :: "Ledger \<Rightarrow> string \<Rightarrow> bool" where
  "Has l i = (i \<in> lIds l)"

definition IDs :: "Ledger \<Rightarrow> string list" where
  "IDs l = sorted_list_of_set (lIds l)"

text \<open>Clones of the last \<open>limit\<close> messages, or of all of them.\<close>

definition Recent :: "int \<Rightarrow> Ledger \<Rightarrow> Message list" where
  "Recent limit l =
     (let n = int (length (lMessages l));
          k = (if limit \<le> 0 \<or> limit > n then n else limit)
      in map (\<lambda>m. the (cloneMessage (Some m))) (drop (nat (n - k)) (lMessages l)))"

definition MissingFrom :: "string list \<Rightarrow> int \<Rightarrow> Ledger \<Rightarrow> Message list" where
  "MissingFrom known limit l = filter (\<lambda>m. mID m \<notin> set known) (Recent limit l)"

definition MarkRejected :: "Ledger \<Rightarrow> Ledger" where
  "MarkRejected l = l\<lparr>lRejected := lRejected l + 1\<rparr>"

definition MarkRejectedReason :: "string \<Rightarrow> Ledger \<Rightarrow> Ledger" where
  "MarkRejectedReason reason l =
     l\<lparr>lRejected := lRejected l + 1, lLastReject := (if reason = [] then ''rejected'' else reason)\<rparr>"

definition AddRepaired :: "int \<Rightarrow> Ledger \<Rightarrow> Ledger" where
  "AddRepaired n l = (if n \<le> 0 then l else l\<lparr>lRepaired := lRepaired l + n\<rparr>)"

definition SetSyncStatus :: "string \<Rightarrow> Ledger \<Rightarrow> Ledger" where
  "SetSyncStatus status l = l\<lparr>lSyncStatus := (if status = [] then ''idle'' else status)\<rparr>"

definition Ledger_Stats :: "Ledger \<Rightarrow> Stats" where
  "Ledger_Stats l =
     \<lparr>sMessageCount = length (lMessages l), sVerified = lVerified l, sRejected = lRejected l,
      sRepaired = lRepaired l, sDuplicate = lDuplicate l, sEquivocation = lEquivocation l,
      sClockBack = lClockBack l, sSyncStatus = lSyncStatus l, sLastReject = lLastReject l,
      sVectorClock = fold (\<lambda>m vc. fold (\<lambda>(peer, value) vc.
          if value > go_get 0 vc peer then go_put peer value vc else vc) (clock_of m) vc) (lMessages l) []\<rparr>"


section \<open>Vocabulary of the proofs\<close>

abbreviation own_clock :: "Message \<Rightarrow> u64" where
  "own_clock m \<equiv> go_get 0 (clock_of m) (mSenderID m)"

abbreviation highest_clock :: "Ledger \<Rightarrow> string \<Rightarrow> u64" where
  "highest_clock l s \<equiv> go_get 0 (lSenderClock l) s"

abbreviation clone :: "Message \<Rightarrow> Message" where
  "clone m \<equiv> the (cloneMessage (Some m))"

lemma clone_simps [simp]:
  "mID (clone m) = mID m" "mSenderID (clone m) = mSenderID m" "mPrevHash (clone m) = mPrevHash m"
  "mContent (clone m) = mContent m" "mSenderName (clone m) = mSenderName m" "mSignature (clone m) = mSignature m"
  "mVectorClock (clone m) = Some (go_copy (clock_of m))"
  by (simp_all add: cloneMessage_def)

lemma go_wf_clock_of: "clock_wf (mVectorClock m) \<Longrightarrow> go_wf (clock_of m)"
  by (cases "mVectorClock m") (simp_all add: clock_of_def clock_wf_def)

lemma clock_of_clone [simp]: "clock_wf (mVectorClock m) \<Longrightarrow> clock_of (clone m) = clock_of m"
  by (simp add: clock_of_def [of "clone m"] go_wf_clock_of)

lemma prev_key_clone [simp]: "prev_key (clone m) = prev_key m"
  by (simp add: prev_key_def)

text \<open>A clone has a map where the original may have had nil; nothing else changes.\<close>

lemma clone_id: "mVectorClock m = Some vc \<Longrightarrow> go_wf vc \<Longrightarrow> clone m = m"
  by (simp add: cloneMessage_def clock_of_def)

lemma mset_sortMessages [simp]: "mset (sortMessages U ms) = mset ms"
  by (simp add: sortMessages_def)

lemma set_sortMessages [simp]: "set (sortMessages U ms) = set ms"
  by (rule mset_eq_setD) simp

lemma length_sortMessages [simp]: "length (sortMessages U ms) = length ms"
  by (rule mset_eq_length) simp

text \<open>The messages after an insertion, and how many of them fell out at the old end.\<close>

definition all_messages :: "unicode \<Rightarrow> Message \<Rightarrow> Ledger \<Rightarrow> Message list" where
  "all_messages U m l = sortMessages U (lMessages l @ [clone m])"

definition overflow :: "Ledger \<Rightarrow> nat" where
  "overflow l = nat (int (Suc (length (lMessages l))) - lMax l)"

lemma insert_message_simps:
  "lMax (insert_message U m l) = lMax l"
  "lMessages (insert_message U m l) = drop (overflow l) (all_messages U m l)"
  "lIds (insert_message U m l) = insert (mID m) (lIds l) - mID ` set (take (overflow l) (all_messages U m l))"
  "lPrevHash (insert_message U m l) =
     (if mPrevHash m \<noteq> [] then go_put (prev_key m) (mID m) (lPrevHash l) else lPrevHash l)"
  "lSenderClock (insert_message U m l) =
     (if own_clock m > highest_clock l (mSenderID m) then go_put (mSenderID m) (own_clock m) (lSenderClock l)
      else lSenderClock l)"
  "lVerified (insert_message U m l) = lVerified l + 1"
  "lDuplicate (insert_message U m l) = lDuplicate l"
  "lRejected (insert_message U m l) = lRejected l"
  by (auto simp: insert_message_def Let_def all_messages_def overflow_def)

text \<open>What \<open>AddWithReason\<close> lets through.\<close>

definition accepts :: "Message option \<Rightarrow> Ledger \<Rightarrow> bool" where
  "accepts msg l = (case msg of None \<Rightarrow> False | Some m \<Rightarrow>
     mID m \<noteq> [] \<and> mID m \<notin> lIds l \<and>
     \<not> (own_clock m > 0 \<and> go_has (lSenderClock l) (mSenderID m) \<and> own_clock m \<le> highest_clock l (mSenderID m)) \<and>
     \<not> (mPrevHash m \<noteq> [] \<and> go_has (lPrevHash l) (prev_key m) \<and> go_get [] (lPrevHash l) (prev_key m) \<noteq> mID m))"

lemma AddWithReason_accept: "accepts (Some m) l \<Longrightarrow> AddWithReason U (Some m) l = (insert_message U m l, True, [])"
  by (simp add: accepts_def AddWithReason_def Let_def)

lemma AddWithReason_ok: "fst (snd (AddWithReason U msg l)) \<longleftrightarrow> accepts msg l"
  by (cases msg) (auto simp: accepts_def AddWithReason_def Let_def)

text \<open>A refused message changes nothing but counters.\<close>

lemma AddWithReason_reject:
  assumes "\<not> accepts msg l" and "AddWithReason U msg l = (l', ok, reason)"
  shows "lMessages l' = lMessages l" "lIds l' = lIds l" "lSenderClock l' = lSenderClock l"
    "lPrevHash l' = lPrevHash l" "lMax l' = lMax l" "lVerified l' = lVerified l" "\<not> ok" "reason \<noteq> []"
  using assms by (auto simp: accepts_def AddWithReason_def Let_def split: option.splits if_splits)

section \<open>The invariant\<close>

text \<open>What is in the ledger is consistent with its indexes.\<close>

definition recorded :: "Ledger \<Rightarrow> Message \<Rightarrow> bool" where
  "recorded l m =
     (mID m \<noteq> [] \<and> mVectorClock m \<noteq> None \<and> clock_wf (mVectorClock m) \<and>
      own_clock m \<le> highest_clock l (mSenderID m) \<and>
      (mPrevHash m \<noteq> [] \<longrightarrow> map_of (lPrevHash l) (prev_key m) = Some (mID m)))"

definition ledger_inv :: "Ledger \<Rightarrow> bool" where
  "ledger_inv l =
     (0 < lMax l \<and> int (length (lMessages l)) \<le> lMax l \<and>
      distinct (map mID (lMessages l)) \<and> lIds l = mID ` set (lMessages l) \<and>
      go_wf (lSenderClock l) \<and> go_wf (lPrevHash l) \<and> int (length (lMessages l)) \<le> lVerified l \<and>
      (\<forall>m \<in> set (lMessages l). recorded l m) \<and>
      (\<forall>m \<in> set (lMessages l). \<forall>m' \<in> set (lMessages l).
         mSenderID m = mSenderID m' \<longrightarrow> own_clock m = own_clock m' \<longrightarrow> own_clock m > 0 \<longrightarrow> m = m'))"

lemma NewLedger_inv: "ledger_inv (NewLedger n)"
  by (simp add: ledger_inv_def NewLedger_def DefaultMaxMessages_def)

lemma ledger_inv_core:
  assumes "ledger_inv l"
    and "lMessages l' = lMessages l" "lIds l' = lIds l" "lSenderClock l' = lSenderClock l" "lPrevHash l' = lPrevHash l"
      "lMax l' = lMax l" "lVerified l' = lVerified l"
  shows "ledger_inv l'"
  using assms by (simp add: ledger_inv_def recorded_def)

text \<open>The tables only grow: counters go up, a claimed predecessor stays claimed by the same message.\<close>

definition ledger_grows :: "Ledger \<Rightarrow> Ledger \<Rightarrow> bool" where
  "ledger_grows l l' =
     ((\<forall>s. highest_clock l s \<le> highest_clock l' s) \<and>
      (\<forall>s. go_has (lSenderClock l) s \<longrightarrow> go_has (lSenderClock l') s) \<and>
      (\<forall>k i. map_of (lPrevHash l) k = Some i \<longrightarrow> map_of (lPrevHash l') k = Some i) \<and>
      lVerified l \<le> lVerified l')"

lemma accepted_prev:
  "accepts (Some m) l \<Longrightarrow> mPrevHash m \<noteq> [] \<Longrightarrow> map_of (lPrevHash l) (prev_key m) = Some i \<Longrightarrow> i = mID m"
  by (auto simp: accepts_def go_has_def go_get_def)

lemma insert_message_grows: "accepts (Some m) l \<Longrightarrow> ledger_grows l (insert_message U m l)"
  by (auto simp: ledger_grows_def insert_message_simps go_map_simps dest: accepted_prev)

lemma accepted_clock:
  "accepts (Some m) l \<Longrightarrow> own_clock m > 0 \<Longrightarrow> highest_clock l (mSenderID m) < own_clock m"
  by (cases "go_has (lSenderClock l) (mSenderID m)")
    (auto simp: accepts_def go_has_def go_get_def split: option.splits)

lemma recorded_grows: "recorded l m \<Longrightarrow> ledger_grows l l' \<Longrightarrow> recorded l' m"
  unfolding recorded_def ledger_grows_def by (meson order_trans)

lemma recorded_clone:
  assumes "accepts (Some m) l" and "clock_wf (mVectorClock m)"
  shows "recorded (insert_message U m l) (clone m)"
  using assms go_wf_clock_of [OF assms(2)]
  by (auto simp: recorded_def insert_message_simps go_map_simps accepts_def clock_wf_def)

lemma set_all_messages: "set (all_messages U m l) = insert (clone m) (set (lMessages l))"
  by (simp add: all_messages_def)

lemma insert_message_inv:
  assumes inv: "ledger_inv l" and acc: "accepts (Some m) l" and wf: "clock_wf (mVectorClock m)"
  shows "ledger_inv (insert_message U m l)"
proof -
  let ?l = "insert_message U m l"
  let ?M = "all_messages U m l"
  have fresh: "mID m \<notin> mID ` set (lMessages l)"
    using inv acc by (simp add: ledger_inv_def accepts_def)
  have "mset (map mID ?M) = mset (map mID (lMessages l @ [clone m]))"
    unfolding mset_map all_messages_def by simp
  moreover have "distinct (map mID (lMessages l @ [clone m]))"
    using inv fresh by (simp add: ledger_inv_def)
  ultimately have dist: "distinct (map mID ?M)" by (metis mset_eq_imp_distinct_iff)
  have split: "set ?M = set (take (overflow l) ?M) \<union> set (drop (overflow l) ?M)"
    by (metis append_take_drop_id set_append)
  have "distinct (map mID (take (overflow l) ?M) @ map mID (drop (overflow l) ?M))"
    using dist by (metis append_take_drop_id map_append)
  then have "mID ` set (take (overflow l) ?M) \<inter> mID ` set (drop (overflow l) ?M) = {}"
    by simp
  moreover have "insert (mID m) (lIds l) = mID ` set ?M"
    using inv by (simp add: ledger_inv_def set_all_messages)
  ultimately have ids: "lIds ?l = mID ` set (lMessages ?l)"
    unfolding insert_message_simps using split by auto
  have sub: "set (lMessages ?l) \<subseteq> insert (clone m) (set (lMessages l))"
    using set_drop_subset [of "overflow l" ?M] by (simp add: insert_message_simps set_all_messages)
  have rec: "recorded ?l x" if x: "x \<in> set (lMessages ?l)" for x
  proof -
    consider "x = clone m" | "x \<in> set (lMessages l)" using x sub by blast
    then show ?thesis
    proof cases
      case 1
      then show ?thesis using recorded_clone [OF acc wf] by simp
    next
      case 2
      then have "recorded l x" using inv by (simp add: ledger_inv_def)
      then show ?thesis by (rule recorded_grows) (rule insert_message_grows [OF acc])
    qed
  qed
  have low: "own_clock x < own_clock m" if "x \<in> set (lMessages l)" "mSenderID x = mSenderID m" "own_clock m > 0" for x
    using that inv accepted_clock [OF acc] by (fastforce simp: ledger_inv_def recorded_def)
  have uniq: "x = y" if "x \<in> set (lMessages ?l)" "y \<in> set (lMessages ?l)" "mSenderID x = mSenderID y"
    "own_clock x = own_clock y" "own_clock x > 0" for x y
  proof -
    have "x = clone m \<or> x \<in> set (lMessages l)" "y = clone m \<or> y \<in> set (lMessages l)"
      using that(1,2) sub by auto
    then show ?thesis using that(3-5) low inv wf by (fastforce simp: ledger_inv_def)
  qed
  have len: "length ?M = Suc (length (lMessages l))" by (simp add: all_messages_def)
  have bounds: "int (length (lMessages ?l)) \<le> lMax ?l" "int (length (lMessages ?l)) \<le> lVerified ?l"
    using inv len by (auto simp: ledger_inv_def insert_message_simps overflow_def)
  have "go_wf (lSenderClock ?l)" "go_wf (lPrevHash ?l)" "distinct (map mID (lMessages ?l))"
    using inv dist by (simp_all add: ledger_inv_def insert_message_simps drop_map [symmetric])
  with bounds ids rec uniq show ?thesis
    using inv by (simp add: ledger_inv_def insert_message_simps(1))
qed


section \<open>Operations as a machine\<close>

datatype ledger_op = OpAdd "Message option" | OpMarkRejected | OpMarkRejectedReason string
  | OpAddRepaired int | OpSetSyncStatus string

fun perform_ledger :: "unicode \<Rightarrow> ledger_op \<Rightarrow> Ledger \<Rightarrow> Ledger" where
  "perform_ledger U (OpAdd msg) l = fst (AddWithReason U msg l)"
| "perform_ledger U OpMarkRejected l = MarkRejected l"
| "perform_ledger U (OpMarkRejectedReason r) l = MarkRejectedReason r l"
| "perform_ledger U (OpAddRepaired n) l = AddRepaired n l"
| "perform_ledger U (OpSetSyncStatus s) l = SetSyncStatus s l"

text \<open>The only obligation of a caller: the maps it passes are Go maps.\<close>

fun ledger_op_ok :: "ledger_op \<Rightarrow> bool" where
  "ledger_op_ok (OpAdd (Some m)) = clock_wf (mVectorClock m)"
| "ledger_op_ok _ = True"

lemma ledger_grows_refl: "ledger_grows l l"
  by (simp add: ledger_grows_def)

lemma ledger_grows_core:
  "lSenderClock l' = lSenderClock l \<Longrightarrow> lPrevHash l' = lPrevHash l \<Longrightarrow> lVerified l' = lVerified l \<Longrightarrow> ledger_grows l l'"
  by (simp add: ledger_grows_def)

lemmas small_ops = MarkRejected_def MarkRejectedReason_def AddRepaired_def SetSyncStatus_def

lemma AddWithReason_grows: "ledger_grows l (fst (AddWithReason U msg l))"
proof (cases "accepts msg l")
  case True
  then obtain m where "msg = Some m" by (cases msg) (auto simp: accepts_def)
  with True show ?thesis by (simp add: AddWithReason_accept insert_message_grows)
next
  case False
  obtain l' ok r where "AddWithReason U msg l = (l', ok, r)" by (metis surj_pair)
  with AddWithReason_reject [OF False this] show ?thesis by (auto intro: ledger_grows_core)
qed

lemma AddWithReason_inv:
  assumes "ledger_inv l" and "ledger_op_ok (OpAdd msg)"
  shows "ledger_inv (fst (AddWithReason U msg l))"
proof (cases "accepts msg l")
  case True
  then obtain m where "msg = Some m" by (cases msg) (auto simp: accepts_def)
  with True assms show ?thesis by (simp add: AddWithReason_accept insert_message_inv)
next
  case False
  obtain l' ok r where "AddWithReason U msg l = (l', ok, r)" by (metis surj_pair)
  with AddWithReason_reject [OF False this] assms(1) show ?thesis by (auto intro: ledger_inv_core)
qed

interpretation ledger: growing_machine "perform_ledger U" ledger_op_ok ledger_inv ledger_grows for U
proof unfold_locales
  fix op l
  assume "ledger_op_ok op" "ledger_inv l"
  then show "ledger_inv (perform_ledger U op l)"
    by (cases op) (auto simp: AddWithReason_inv small_ops intro: ledger_inv_core)
  show "ledger_grows l (perform_ledger U op l)"
    by (cases op) (auto simp: AddWithReason_grows small_ops intro!: ledger_grows_core)
next
  fix l l' l'' :: Ledger
  show "ledger_grows l l" by (rule ledger_grows_refl)
  show "ledger_grows l l' \<Longrightarrow> ledger_grows l' l'' \<Longrightarrow> ledger_grows l l''"
    unfolding ledger_grows_def by (meson order_trans)
qed

text \<open>What an accepted message leaves behind for good.\<close>

lemma accepted_marks:
  assumes "accepts (Some m) l"
  shows "own_clock m \<le> highest_clock (insert_message U m l) (mSenderID m)"
    and "own_clock m > 0 \<Longrightarrow> go_has (lSenderClock (insert_message U m l)) (mSenderID m)"
    and "mPrevHash m \<noteq> [] \<Longrightarrow> map_of (lPrevHash (insert_message U m l)) (prev_key m) = Some (mID m)"
  using accepted_clock [OF assms] by (auto simp: insert_message_simps go_map_simps)

lemma later_refuses_stale:
  assumes acc: "accepts (Some m) l" and grow: "ledger_grows (insert_message U m l) l'"
    and old: "mSenderID m' = mSenderID m" "0 < own_clock m'" "own_clock m' \<le> own_clock m"
  shows "\<not> accepts (Some m') l'"
proof -
  have "0 < own_clock m" using old(2,3) by simp
  then have "go_has (lSenderClock l') (mSenderID m)"
    using grow accepted_marks(2) [OF acc] by (auto simp: ledger_grows_def)
  moreover have "own_clock m' \<le> highest_clock l' (mSenderID m)"
    using grow accepted_marks(1) [OF acc, of U] old(3) unfolding ledger_grows_def by (meson order_trans)
  ultimately show ?thesis using old(1,2) by (simp add: accepts_def)
qed

lemma later_refuses_fork:
  assumes acc: "accepts (Some m) l" and grow: "ledger_grows (insert_message U m l) l'"
    and fork: "mSenderID m' = mSenderID m" "mPrevHash m' = mPrevHash m" "mPrevHash m \<noteq> []" "mID m' \<noteq> mID m"
  shows "\<not> accepts (Some m') l'"
proof -
  have "map_of (lPrevHash l') (prev_key m) = Some (mID m)"
    using grow accepted_marks(3) [OF acc fork(3), of U] unfolding ledger_grows_def by blast
  moreover have "prev_key m' = prev_key m" using fork(1,2) by (simp add: prev_key_def)
  ultimately show ?thesis
    using accepted_prev [of m' l'] fork by auto
qed

section \<open>The display order\<close>

lemma msg_less_unfold:
  "msg_less U a b \<longleftrightarrow>
     (case Compare (clock_of a) (clock_of b) of Before \<Rightarrow> True | After \<Rightarrow> False
      | _ \<Rightarrow> if mSenderID a \<noteq> mSenderID b then mSenderID a < mSenderID b
             else if mID a \<noteq> mID b then mID a < mID b
             else if \<not> EqualFold U (mSenderName a) (mSenderName b)
               then ToLower U (mSenderName a) < ToLower U (mSenderName b)
             else mContent a < mContent b)"
  by (simp add: CompareMessages_def split: ordering.splits)

text \<open>Messages with different identifiers, and no message concurrent with both ends of a causal
  pair: then concurrency is an equivalence and the display order a strict linear order.\<close>

definition unordered :: "Message \<Rightarrow> Message \<Rightarrow> bool" where
  "unordered a b \<longleftrightarrow> Compare (clock_of a) (clock_of b) \<notin> {Before, After}"

definition layered :: "Message set \<Rightarrow> bool" where
  "layered A \<longleftrightarrow>
     inj_on mID A \<and>
     (\<forall>x \<in> A. \<forall>y \<in> A. \<forall>z \<in> A. unordered x y \<longrightarrow> unordered y z \<longrightarrow> unordered x z)"

lemma unordered_sym: "unordered a b \<longleftrightarrow> unordered b a"
  using vco.cmp_flip [of "clock_of a" "clock_of b"] vco.cmp_flip [of "clock_of b" "clock_of a"]
  by (auto simp: unordered_def)

lemma msg_less_ids:
  assumes "mID a \<noteq> mID b"
  shows "msg_less U a b \<longleftrightarrow>
     Compare (clock_of a) (clock_of b) = Before \<or>
     unordered a b \<and> (mSenderID a < mSenderID b \<or> mSenderID a = mSenderID b \<and> mID a < mID b)"
  using assms by (auto simp: msg_less_unfold unordered_def split: ordering.splits)

lemma decisive_msg_less: "inj_on mID A \<Longrightarrow> decisive_on A (msg_less U)"
  unfolding decisive_on_def
proof (intro ballI impI)
  fix x y assume "inj_on mID A" "x \<in> A" "y \<in> A" "x \<noteq> y"
  then have ids: "mID x \<noteq> mID y" by (auto dest: inj_onD)
  show "msg_less U x y \<or> msg_less U y x"
  proof (cases "unordered x y")
    case True
    with ids show ?thesis
      by (cases "mSenderID x = mSenderID y") (auto simp: msg_less_ids unordered_sym [of y x] not_less_iff_gr_or_eq)
  next
    case False
    with ids vco.cmp_flip [of "clock_of y" "clock_of x"] show ?thesis
      by (auto simp: msg_less_ids unordered_def)
  qed
qed


lemma msg_less_asym:
  assumes "mID a \<noteq> mID b" "msg_less U a b"
  shows "\<not> msg_less U b a"
  using assms vco.cmp_flip [of "clock_of a" "clock_of b"] vco.before_asym [of "clock_of a" "clock_of b"]
    vco.before_asym [of "clock_of b" "clock_of a"] unordered_sym [of a b]
  by (auto simp: msg_less_ids [of a b] msg_less_ids [of b a] unordered_def)

lemma msg_less_trans:
  assumes "layered A" "a \<in> A" "b \<in> A" "c \<in> A" and ids: "mID a \<noteq> mID b" "mID b \<noteq> mID c" "mID a \<noteq> mID c"
    and less: "msg_less U a b" "msg_less U b c"
  shows "msg_less U a c"
proof -
  have same: "unordered x z" if "unordered x y" "unordered y z" "{x, y, z} \<subseteq> {a, b, c}" for x y z
    using assms(1-4) that unfolding layered_def by blast
  let ?before = "\<lambda>x y. Compare (clock_of x) (clock_of y) = Before"
  have split: "?before a c \<or> ?before c a \<or> unordered a c"
    using vco.cmp_flip [of "clock_of c" "clock_of a"] by (auto simp: unordered_def)
  have disj: "\<not> ?before y x \<and> \<not> ?before x y" if "unordered x y" for x y
    using that vco.cmp_flip [of "clock_of y" "clock_of x"] by (auto simp: unordered_def)
  from less ids consider "?before a b" "?before b c" | "?before a b" "unordered b c"
    | "unordered a b" "?before b c"
    | "unordered a b" "unordered b c" by (auto simp: msg_less_ids)
  then show ?thesis
  proof cases
    case 1
    then show ?thesis using vco.before_trans by (simp add: msg_less_ids ids)
  next
    case 2
    have "\<not> unordered a c"
      using same [of a c b] 2 disj [of a b] by (auto simp: unordered_sym)
    moreover have "\<not> ?before c a"
      using 2 disj [of b c] vco.before_trans [of "clock_of c" "clock_of a" "clock_of b"] by blast
    ultimately show ?thesis using split by (simp add: msg_less_ids ids)
  next
    case 3
    have "\<not> unordered a c"
      using same [of b a c] 3 disj [of b c] by (auto simp: unordered_sym)
    moreover have "\<not> ?before c a"
      using 3 disj [of a b] vco.before_trans [of "clock_of b" "clock_of c" "clock_of a"] by blast
    ultimately show ?thesis using split by (simp add: msg_less_ids ids)
  next
    case 4
    then have "unordered a c" using same [of a b c] by blast
    with 4 disj less ids show ?thesis by (auto simp: msg_less_ids)
  qed
qed

lemma weak_msg_less:
  assumes "layered A"
  shows "weak_on A (msg_less U)"
proof -
  have inj: "mID x = mID y \<Longrightarrow> x = y" if "x \<in> A" "y \<in> A" for x y
    using assms that unfolding layered_def by (blast dest: inj_onD)
  have irrefl: "\<not> msg_less U x x" for x
    by (simp add: msg_less_unfold vco.cmp_self EqualFold_def ToLower_def)
  have asym: "\<not> msg_less U y x" if "x \<in> A" "y \<in> A" "msg_less U x y" for x y
    using that inj [of x y] irrefl msg_less_asym [of x y U] by blast
  have dec: "msg_less U x y \<or> msg_less U y x" if "x \<in> A" "y \<in> A" "x \<noteq> y" for x y
    using that decisive_msg_less [of A U] assms unfolding layered_def decisive_on_def by blast
  show ?thesis
    unfolding weak_on_def
  proof (intro conjI ballI impI)
    fix x y z assume A: "x \<in> A" "y \<in> A" "z \<in> A" and less: "msg_less U x z"
    show "msg_less U x y \<or> msg_less U y z"
    proof (rule ccontr)
      assume no: "\<not> (msg_less U x y \<or> msg_less U y z)"
      then have "x \<noteq> y" "y \<noteq> z" "x \<noteq> z" using less irrefl by auto
      with no dec A have "msg_less U z y" "msg_less U y x" by blast+
      with A inj \<open>x \<noteq> y\<close> \<open>y \<noteq> z\<close> \<open>x \<noteq> z\<close> have "msg_less U z x"
        by (intro msg_less_trans [OF assms, of z y x]) blast+
      with asym A less show False by blast
    qed
  qed (use asym in blast)
qed


lemma layered_linear: "layered A \<Longrightarrow> weak_on A (msg_less U) \<and> decisive_on A (msg_less U)"
  using weak_msg_less decisive_msg_less unfolding layered_def by blast

lemma layered_subset: "layered A \<Longrightarrow> B \<subseteq> A \<Longrightarrow> layered B"
  unfolding layered_def by (meson inj_on_subset subsetD)

lemma sort_sort_append:
  assumes "layered (set (xs @ [m]))"
  shows "sortMessages U (sortMessages U xs @ [m]) = sortMessages U (xs @ [m])"
  unfolding sortMessages_def
proof (rule go.srt_canonical)
  have eq: "set (SliceStable (msg_less U) xs @ [m]) = set (xs @ [m])" by simp
  show "weak_on (set (SliceStable (msg_less U) xs @ [m])) (msg_less U)"
    and "decisive_on (set (SliceStable (msg_less U) xs @ [m])) (msg_less U)"
    unfolding eq using layered_linear [OF assms] by blast+
qed simp

text \<open>Feeding a list of messages into a ledger, all of them accepted.\<close>

fun feed :: "unicode \<Rightarrow> Message list \<Rightarrow> Ledger \<Rightarrow> Ledger" where
  "feed U [] l = l"
| "feed U (m # ms) l = feed U ms (fst (AddWithReason U (Some m) l))"

fun all_accepted :: "unicode \<Rightarrow> Message list \<Rightarrow> Ledger \<Rightarrow> bool" where
  "all_accepted U [] l = True"
| "all_accepted U (m # ms) l = (accepts (Some m) l \<and> all_accepted U ms (fst (AddWithReason U (Some m) l)))"

lemma feed_sorted:
  assumes "all_accepted U ms l" and "lMessages l = sortMessages U xs"
    and "layered (set (xs @ map clone ms))" and "int (length xs + length ms) \<le> lMax l"
  shows "lMessages (feed U ms l) = sortMessages U (xs @ map clone ms)"
  using assms
proof (induction ms arbitrary: l xs)
  case (Cons m ms)
  let ?l = "insert_message U m l"
  have acc: "accepts (Some m) l" using Cons.prems(1) by simp
  have "overflow l = 0" using Cons.prems(2,4) by (simp add: overflow_def)
  moreover have "layered (set (xs @ [clone m]))"
    by (rule layered_subset [OF Cons.prems(3)]) auto
  ultimately have "lMessages ?l = sortMessages U (xs @ [clone m])"
    using Cons.prems(2) by (simp add: insert_message_simps all_messages_def sort_sort_append)
  then have "lMessages (feed U ms ?l) = sortMessages U ((xs @ [clone m]) @ map clone ms)"
    using Cons.prems acc by (intro Cons.IH) (simp_all add: AddWithReason_accept insert_message_simps(1))
  then show ?case by (simp add: AddWithReason_accept [OF acc])
qed simp

lemma sortMessages_Nil: "sortMessages U [] = []"
  by (metis length_0_conv length_sortMessages)

lemma feed_empty:
  assumes "all_accepted U ms (NewLedger n)" "layered (set (map clone ms))" "int (length ms) \<le> n" "0 < n"
  shows "lMessages (feed U ms (NewLedger n)) = sortMessages U (map clone ms)"
  using feed_sorted [of U ms "NewLedger n" "[]"] assms
  by (simp add: NewLedger_def sortMessages_Nil)

lemma sortMessages_mset:
  "layered (set xs) \<Longrightarrow> mset xs = mset ys \<Longrightarrow> sortMessages U xs = sortMessages U ys"
  unfolding sortMessages_def using layered_linear by (intro go.srt_canonical) blast+

lemma sortMessages_causal:
  assumes "layered (set xs)" and "i < j" "j < length xs"
  shows "Compare (clock_of (sortMessages U xs ! j)) (clock_of (sortMessages U xs ! i)) \<noteq> Before"
proof -
  have "in_order (msg_less U) (sortMessages U xs)"
    unfolding sortMessages_def by (intro go.srt_in_order weak_msg_less assms(1))
  then have "\<not> msg_less U (sortMessages U xs ! j) (sortMessages U xs ! i)"
    using assms(2,3) by (simp add: sorted_wrt_iff_nth_less)
  then show ?thesis by (auto simp: msg_less_unfold)
qed

section \<open>Statistics and repair\<close>

lemma Stats_clock_fold:
  "(\<forall>m \<in> set ms. go_wf (clock_of m)) \<Longrightarrow>
   counters (fold (\<lambda>m vc. fold (\<lambda>(peer, value) vc.
      if value > go_get 0 vc peer then go_put peer value vc else vc) (clock_of m) vc) ms c)
   = (\<lambda>k. fold (\<lambda>m. max (counters (clock_of m) k)) ms (counters c k))"
  by (induction ms arbitrary: c) (simp_all add: Merge_fold_counters max.commute)

lemma recent_clone:
  assumes "ledger_inv l"
  shows "map clone (drop n (lMessages l)) = drop n (lMessages l)"
proof -
  have "clone m = m" if "m \<in> set (drop n (lMessages l))" for m
  proof -
    have "recorded l m" using assms that by (auto simp: ledger_inv_def dest: in_set_dropD)
    then obtain vc where "mVectorClock m = Some vc" "go_wf vc" by (auto simp: recorded_def clock_wf_def)
    then show ?thesis by (rule clone_id)
  qed
  then show ?thesis by (simp add: map_idI)
qed


section \<open>Properties\<close>

text \<open>Sample messages: a question by \<open>z\<close>, a reply to it by \<open>a\<close>, and an unrelated remark by \<open>b\<close>.\<close>

definition msg_of :: "string \<Rightarrow> string \<Rightarrow> u64 gomap \<Rightarrow> string \<Rightarrow> Message" where
  "msg_of i sender vc prev = \<lparr>mID = i, mSenderID = sender, mSenderName = sender, mContent = ''hello'', mMentions = [],
     mMentionAll = False, mVectorClock = Some vc, mPrevHash = prev, mSignature = [], mIsAI = False\<rparr>"

definition question :: Message where
  "question = msg_of ''3'' ''z'' [(''z'', 1)] ''genesis''"

definition reply :: Message where
  "reply = msg_of ''1'' ''a'' [(''z'', 1), (''a'', 1)] []"

definition aside :: Message where
  "aside = msg_of ''2'' ''b'' [(''b'', 1)] []"

lemmas sample_defs = msg_of_def question_def reply_def aside_def

lemma sample_clock_wf [simp]:
  "clock_wf (mVectorClock question)" "clock_wf (mVectorClock reply)" "clock_wf (mVectorClock aside)"
  by (simp_all add: sample_defs clock_wf_def go_wf_def)

lemma sample_clones: "clone question = question" "clone reply = reply"
  by (rule clone_id, simp add: sample_defs, simp add: go_wf_def)+

lemma sample_ids: "mID question = ''3''" "mID reply = ''1''"
  by (simp_all add: sample_defs)

lemma sample_layered: "layered {question, reply}"
proof -
  have "Compare (clock_of question) (clock_of reply) = Before" "Compare (clock_of reply) (clock_of question) = After"
    by (simp_all add: sample_defs clock_of_def Compare_def Compare_check_def go_get_def)
  then show ?thesis using sample_ids vco.cmp_self by (auto simp: layered_def unordered_def inj_on_def)
qed

lemma accepts_NewLedger: "accepts (Some m) (NewLedger n) \<longleftrightarrow> mID m \<noteq> []"
  by (simp add: accepts_def NewLedger_def)

text \<open>A ledger for one message that holds the question.\<close>

definition one_question :: "unicode \<Rightarrow> Ledger" where
  "one_question U = insert_message U question (NewLedger 1)"

lemma one_question_facts:
  "ledger_inv (one_question U)" "lMessages (one_question U) = [question]" "lMax (one_question U) = 1"
proof -
  have acc: "accepts (Some question) (NewLedger 1)" by (simp add: accepts_NewLedger sample_ids)
  show "ledger_inv (one_question U)"
    unfolding one_question_def by (rule insert_message_inv [OF NewLedger_inv acc]) simp
  show "lMessages (one_question U) = [question]" "lMax (one_question U) = 1"
    by (simp_all add: one_question_def insert_message_simps overflow_def all_messages_def NewLedger_def sample_clones
        sortMessages_def SliceStable_small insertionSort_def)
qed

text \<open>C13. The invariant holds after every sequence of ledger operations on messages whose clocks are maps, as the decoder gives
  them: the ledger never exceeds its capacity, its identifier index is exact and without duplicates, every stored message is
  covered by the sender's highest counter and by the predecessor table, and no two stored messages of one sender carry the same
  positive counter of that sender.  (A counter of 0 is not checked by the ledger; the validator lets none pass.)\<close>

theorem ledger_invariant:
  assumes "list_all ledger_op_ok ops"
  shows "ledger_inv (fold (perform_ledger U) ops (NewLedger n))"
  using ledger.run_inv [OF assms NewLedger_inv] .

theorem ledger_invariant_witness:
  "ledger_inv (fold (perform_ledger ascii_tables) [OpAdd (Some question), OpAdd None, OpAdd (Some question), OpMarkRejected,
     OpAdd (Some reply)] (NewLedger 1))"
  by (rule ledger_invariant) simp

text \<open>C4. A message that was accepted is never accepted again, nor is any message of the same sender that is not newer by the
  sender's own counter, provided that this counter is positive -- the ledger does not check a counter of 0, and the validator
  lets none pass -- whatever operations run in between, and also after the message itself was evicted and its identifier
  forgotten.  Clocks are maps, as the decoder gives them.\<close>

theorem no_replay_even_after_eviction:
  assumes "ledger_inv l" and "fst (snd (AddWithReason U (Some m) l))" and "clock_wf (mVectorClock m)"
    and "list_all ledger_op_ok ops"
    and "mSenderID m' = mSenderID m" and "0 < own_clock m'" and "own_clock m' \<le> own_clock m"
  shows "\<not> fst (snd (AddWithReason U (Some m') (fold (perform_ledger U) ops (fst (AddWithReason U (Some m) l)))))"
proof -
  have acc: "accepts (Some m) l" using assms(2) by (simp add: AddWithReason_ok)
  have "ledger_grows (insert_message U m l) (fold (perform_ledger U) ops (insert_message U m l))"
    by (rule ledger.run_grows [OF assms(4)]) (rule insert_message_inv [OF assms(1) acc assms(3)])
  then show ?thesis
    using later_refuses_stale [OF acc _ assms(5-7)] by (simp add: AddWithReason_accept [OF acc] AddWithReason_ok)
qed

text \<open>In a ledger for one message the reply drives the question out, and the question stays out.\<close>

theorem no_replay_even_after_eviction_witness:
  "\<not> fst (snd (AddWithReason ascii_tables (Some question)
       (fold (perform_ledger ascii_tables) [OpAdd (Some reply)] (fst (AddWithReason ascii_tables (Some question) (NewLedger 1))))))"
  by (rule no_replay_even_after_eviction)
    (simp_all add: NewLedger_inv AddWithReason_ok accepts_NewLedger,
     simp_all add: sample_defs clock_of_def go_get_def)

text \<open>C7. A fork is refused for good: once a message that names a predecessor was accepted, no message of the same sender on the
  same predecessor hash with another message identifier ever is, whatever operations run in between.  Two messages without
  a predecessor are not a fork, and clocks are maps, as the decoder gives them.\<close>

theorem forks_are_refused:
  assumes "ledger_inv l" and "fst (snd (AddWithReason U (Some m) l))" and "clock_wf (mVectorClock m)"
    and "list_all ledger_op_ok ops"
    and "mSenderID m' = mSenderID m" and "mPrevHash m' = mPrevHash m" and "mPrevHash m \<noteq> []" and "mID m' \<noteq> mID m"
  shows "\<not> fst (snd (AddWithReason U (Some m') (fold (perform_ledger U) ops (fst (AddWithReason U (Some m) l)))))"
proof -
  have acc: "accepts (Some m) l" using assms(2) by (simp add: AddWithReason_ok)
  have "ledger_grows (insert_message U m l) (fold (perform_ledger U) ops (insert_message U m l))"
    by (rule ledger.run_grows [OF assms(4)]) (rule insert_message_inv [OF assms(1) acc assms(3)])
  then show ?thesis
    using later_refuses_fork [OF acc _ assms(5-8)] by (simp add: AddWithReason_accept [OF acc] AddWithReason_ok)
qed

theorem forks_are_refused_witness:
  "\<not> fst (snd (AddWithReason ascii_tables (Some (question\<lparr>mID := ''4'', mVectorClock := Some [(''z'', 2)]\<rparr>))
       (fold (perform_ledger ascii_tables) [OpAdd (Some reply)] (fst (AddWithReason ascii_tables (Some question) (NewLedger 200))))))"
  by (rule forks_are_refused)
    (simp_all add: NewLedger_inv AddWithReason_ok accepts_NewLedger,
     simp_all add: sample_defs clock_of_def go_get_def)

text \<open>C9. Peers that accepted the same messages show them in the same order, whatever the order of
  arrival, and no message above one it causally depends on -- provided no message is concurrent with
  both ends of a causally ordered pair (\<open>layered\<close>) and nothing was evicted.\<close>

theorem peers_converge:
  assumes "all_accepted U ms (NewLedger n)" and "all_accepted U ms' (NewLedger n)" and "mset ms = mset ms'"
    and "layered (set (map clone ms))" and "int (length ms) \<le> n" and "0 < n"
  shows "lMessages (feed U ms (NewLedger n)) = lMessages (feed U ms' (NewLedger n)) \<and>
    (\<forall>i j. i < j \<and> j < length ms \<longrightarrow>
      Compare (clock_of (lMessages (feed U ms (NewLedger n)) ! j))
              (clock_of (lMessages (feed U ms (NewLedger n)) ! i)) \<noteq> Before)"
proof -
  have mset: "mset (map clone ms) = mset (map clone ms')" unfolding mset_map assms(3) ..
  have len: "length ms' = length ms" using assms(3) by (metis size_mset)
  have lay: "layered (set (map clone ms'))"
    using assms(3,4) by (metis mset mset_eq_setD)
  have s1: "lMessages (feed U ms (NewLedger n)) = sortMessages U (map clone ms)"
    by (rule feed_empty [OF assms(1,4,5,6)])
  have s2: "lMessages (feed U ms' (NewLedger n)) = sortMessages U (map clone ms')"
    using lay assms(5,6) len by (intro feed_empty [OF assms(2)]) simp_all
  have s3: "sortMessages U (map clone ms') = sortMessages U (map clone ms)"
    using sortMessages_mset [OF assms(4) mset] by simp
  show ?thesis unfolding s1 s2 s3 using sortMessages_causal [OF assms(4)] by simp
qed

theorem peers_converge_witness:
  "lMessages (feed ascii_tables [question, reply] (NewLedger 200)) = lMessages (feed ascii_tables [reply, question] (NewLedger 200))"
proof -
  have "all_accepted ascii_tables [question, reply] (NewLedger 200)" "all_accepted ascii_tables [reply, question] (NewLedger 200)"
    by (simp_all add: accepts_NewLedger sample_ids AddWithReason_accept)
      (simp_all add: accepts_def insert_message_simps NewLedger_def overflow_def sample_defs go_map_simps clock_of_def)
  then show ?thesis
    using peers_converge [of ascii_tables "[question, reply]" 200 "[reply, question]"] sample_clones sample_layered by simp
qed

text \<open>Three messages that arrive in an order the comparison has no objection to stay in it.\<close>

lemma add_last:
  assumes "accepts (Some m) l" and "int (length (lMessages l)) < lMax l" and "length (lMessages l) < 20"
    and "sortMessages U (lMessages l) = lMessages l" and "lMessages l \<noteq> [] \<Longrightarrow> \<not> msg_less U (clone m) (last (lMessages l))"
  shows "lMessages (fst (AddWithReason U (Some m) l)) = lMessages l @ [clone m]"
    and "sortMessages U (lMessages l @ [clone m]) = lMessages l @ [clone m]"
proof -
  have "insertionSort (msg_less U) (lMessages l) = lMessages l"
    using assms(3,4) by (simp add: sortMessages_def SliceStable_small)
  then have rev: "fold (ins_rev (msg_less U)) (lMessages l) [] = rev (lMessages l)"
    unfolding insertionSort_def by (metis rev_rev_ident)
  have "ins_rev (msg_less U) (clone m) (rev (lMessages l)) = clone m # rev (lMessages l)"
    using assms(5) by (cases "lMessages l" rule: rev_cases) simp_all
  then show sorted: "sortMessages U (lMessages l @ [clone m]) = lMessages l @ [clone m]"
    using assms(3) rev by (simp add: sortMessages_def SliceStable_small insertionSort_def)
  have "overflow l = 0" using assms(2) by (simp add: overflow_def)
  then show "lMessages (fst (AddWithReason U (Some m) l)) = lMessages l @ [clone m]"
    using sorted by (simp add: AddWithReason_accept [OF assms(1)] insert_message_simps all_messages_def)
qed

lemma feed_three:
  assumes "all_accepted U [x, y, z] (NewLedger n)" and "3 \<le> n"
    and "\<not> msg_less U (clone y) (clone x)" and "\<not> msg_less U (clone z) (clone y)"
  shows "lMessages (feed U [x, y, z] (NewLedger n)) = map clone [x, y, z]"
proof -
  let ?l0 = "NewLedger n"
  let ?l1 = "fst (AddWithReason U (Some x) ?l0)"
  let ?l2 = "fst (AddWithReason U (Some y) ?l1)"
  have acc: "accepts (Some x) ?l0" "accepts (Some y) ?l1" "accepts (Some z) ?l2" using assms(1) by simp_all
  have l0: "lMessages ?l0 = []" "lMax ?l0 = n" "sortMessages U [] = []" using assms(2) sortMessages_Nil by (simp_all add: NewLedger_def)
  have l1: "lMessages ?l1 = [clone x]" "sortMessages U [clone x] = [clone x]" "lMax ?l1 = n"
    using add_last [OF acc(1), of U] l0 assms(2) by (simp_all add: AddWithReason_accept [OF acc(1)] insert_message_simps(1))
  have l2: "lMessages ?l2 = [clone x, clone y]" "sortMessages U [clone x, clone y] = [clone x, clone y]" "lMax ?l2 = n"
    using add_last [OF acc(2), of U] l1 assms(2,3) by (simp_all add: AddWithReason_accept [OF acc(2)] insert_message_simps(1))
  show ?thesis using add_last(1) [OF acc(3), of U] l2 assms(2,4) by simp
qed



text \<open>C35. Eviction drops a prefix of the display order: the ledger sorts what it has with the new message, removes the first
  messages of that list as far as it is over capacity, keeps the rest in order, and nothing else disappears.  When moreover
  concurrency is transitive among these messages (\<open>layered\<close>), everything removed stands below everything kept.  The new
  message's clock is a map, as the decoder gives it.\<close>

theorem eviction_drops_the_oldest:
  assumes "ledger_inv l" and "fst (snd (AddWithReason U (Some m) l))" and "clock_wf (mVectorClock m)"
  shows "\<exists>old. old @ lMessages (fst (AddWithReason U (Some m) l)) = sortMessages U (lMessages l @ [clone m]) \<and>
     mset (old @ lMessages (fst (AddWithReason U (Some m) l))) = mset (lMessages l @ [clone m]) \<and>
     length old = length (lMessages l) + 1 - nat (lMax l) \<and>
     (layered (insert (clone m) (set (lMessages l))) \<longrightarrow>
       (\<forall>x \<in> set old. \<forall>y \<in> set (lMessages (fst (AddWithReason U (Some m) l))). CompareMessages U (Some x) (Some y) < 0))"
proof -
  have acc: "accepts (Some m) l" using assms(2) by (simp add: AddWithReason_ok)
  let ?M = "all_messages U m l"
  let ?old = "take (overflow l) ?M" and ?new = "drop (overflow l) ?M"
  have new: "lMessages (fst (AddWithReason U (Some m) l)) = ?new"
    by (simp add: AddWithReason_accept [OF acc] insert_message_simps)
  have "distinct (map mID ?M)"
  proof -
    have "mID m \<notin> mID ` set (lMessages l)" using assms(1) acc by (simp add: ledger_inv_def accepts_def)
    then have "distinct (map mID (lMessages l @ [clone m]))" using assms(1) by (simp add: ledger_inv_def)
    moreover have "mset (map mID ?M) = mset (map mID (lMessages l @ [clone m]))"
      unfolding mset_map all_messages_def by simp
    ultimately show ?thesis by (metis mset_eq_imp_distinct_iff)
  qed
  then have disj: "set ?old \<inter> set ?new = {}"
    by (metis append_take_drop_id distinct_append distinct_map)
  have "set ?old \<union> set ?new = set ?M" by (metis append_take_drop_id set_append)
  then have sub: "set ?old \<union> set ?new = set (lMessages l @ [clone m])" by (simp add: set_all_messages)
  have "msg_less U x y" if lay1: "layered (insert (clone m) (set (lMessages l)))" and xy: "x \<in> set ?old" "y \<in> set ?new" for x y
  proof -
    have lay: "layered (set (lMessages l @ [clone m]))" using lay1 by simp
    have "in_order (msg_less U) ?M"
      unfolding all_messages_def sortMessages_def by (intro go.srt_in_order weak_msg_less lay)
    then have order: "\<forall>x \<in> set ?old. \<forall>y \<in> set ?new. \<not> msg_less U y x"
      by (metis append_take_drop_id sorted_wrt_append)
    have "x \<noteq> y" using xy disj by blast
    moreover have "x \<in> set (lMessages l @ [clone m])" "y \<in> set (lMessages l @ [clone m])"
      unfolding sub [symmetric] using xy by blast+
    ultimately have "msg_less U x y \<or> msg_less U y x"
      using layered_linear [OF lay, of U] unfolding decisive_on_def by blast
    then show ?thesis using order xy by blast
  qed
  moreover have "mset (?old @ ?new) = mset (lMessages l @ [clone m])"
    by (simp add: all_messages_def)
  moreover have "?old @ ?new = sortMessages U (lMessages l @ [clone m])" by (simp add: all_messages_def)
  moreover have "length ?old = length (lMessages l) + 1 - nat (lMax l)"
    using assms(1) by (simp add: all_messages_def overflow_def ledger_inv_def)
  ultimately show ?thesis unfolding new by blast
qed

theorem eviction_drops_the_oldest_witness:
  "\<exists>old. mset (old @ lMessages (fst (AddWithReason ascii_tables (Some reply) (one_question ascii_tables)))) = mset [question, reply] \<and>
     length old = 1 \<and> (\<forall>x \<in> set old. \<forall>y \<in> set (lMessages (fst (AddWithReason ascii_tables (Some reply) (one_question ascii_tables)))).
       CompareMessages ascii_tables (Some x) (Some y) < 0)"
proof -
  have "accepts (Some reply) (one_question ascii_tables)"
    unfolding one_question_def by (simp add: accepts_def insert_message_simps NewLedger_def overflow_def)
      (simp add: sample_defs go_map_simps clock_of_def)
  then have "fst (snd (AddWithReason ascii_tables (Some reply) (one_question ascii_tables)))" by (simp add: AddWithReason_ok)
  moreover have "layered (insert (clone reply) (set (lMessages (one_question ascii_tables))))"
    using sample_layered unfolding one_question_facts sample_clones by (simp add: insert_commute)
  ultimately obtain old where "mset (old @ lMessages (fst (AddWithReason ascii_tables (Some reply) (one_question ascii_tables)))) =
      mset (lMessages (one_question ascii_tables) @ [clone reply])"
    "length old = length (lMessages (one_question ascii_tables)) + 1 - nat (lMax (one_question ascii_tables))"
    "\<forall>x \<in> set old. \<forall>y \<in> set (lMessages (fst (AddWithReason ascii_tables (Some reply) (one_question ascii_tables)))).
       CompareMessages ascii_tables (Some x) (Some y) < 0"
    using eviction_drops_the_oldest [OF one_question_facts(1), of ascii_tables reply ascii_tables] by auto
  then show ?thesis by (intro exI [of _ old]) (simp add: one_question_facts sample_clones)
qed

text \<open>C26. The answer to a sync request is exactly what the requester lacks: of the last \<open>limit\<close>
  messages (all, if \<open>limit\<close> is not positive or too large) those whose identifiers are not in the
  requester's ledger, in display order and unchanged.\<close>

theorem repair_sends_exactly_what_is_missing:
  assumes "ledger_inv r" and "ledger_inv l"
  shows "MissingFrom (IDs r) limit l =
    filter (\<lambda>m. \<not> Has r (mID m))
      (drop (if 0 < limit \<and> limit \<le> int (length (lMessages l)) then length (lMessages l) - nat limit else 0) (lMessages l))"
proof -
  have "finite (lIds r)" using assms(1) by (simp add: ledger_inv_def)
  moreover have "Recent limit l =
      drop (if 0 < limit \<and> limit \<le> int (length (lMessages l)) then length (lMessages l) - nat limit else 0) (lMessages l)"
    using recent_clone [OF assms(2)] by (auto simp: Recent_def Let_def nat_diff_distrib)
  ultimately show ?thesis by (simp add: MissingFrom_def IDs_def Has_def)
qed

theorem repair_sends_exactly_what_is_missing_witness:
  "MissingFrom (IDs (NewLedger 5)) 10 (one_question ascii_tables) = [question] \<and> MissingFrom (IDs (one_question ascii_tables)) 10 (one_question ascii_tables) = []"
  using repair_sends_exactly_what_is_missing [OF NewLedger_inv one_question_facts(1), of 5 10 ascii_tables]
    repair_sends_exactly_what_is_missing [OF one_question_facts(1) one_question_facts(1), of ascii_tables 10 ascii_tables] one_question_facts(1)
  by (simp add: one_question_facts(2) ledger_inv_def) (simp add: NewLedger_def Has_def)

text \<open>The vector clock shown in the statistics is the least upper bound of the clocks of the stored
  messages.\<close>

theorem stats_clock_is_least_upper_bound:
  assumes "ledger_inv l"
  shows "counters (sVectorClock (Ledger_Stats l)) \<le> u \<longleftrightarrow> (\<forall>m \<in> set (lMessages l). counters (clock_of m) \<le> u)"
proof -
  have "\<forall>m \<in> set (lMessages l). go_wf (clock_of m)"
    using assms by (auto simp: ledger_inv_def recorded_def intro: go_wf_clock_of)
  moreover have "fold (\<lambda>m. max (f m)) ms (c :: u64) \<le> b \<longleftrightarrow> c \<le> b \<and> (\<forall>m \<in> set ms. f m \<le> b)" for f and ms :: "Message list" and c b
    by (induction ms arbitrary: c) auto
  ultimately show ?thesis
    by (auto simp: Ledger_Stats_def Stats_clock_fold le_fun_def)
qed

theorem stats_clock_is_least_upper_bound_witness:
  "counters (sVectorClock (Ledger_Stats (one_question ascii_tables))) \<le> (\<lambda>_. 1)"
  using stats_clock_is_least_upper_bound [OF one_question_facts(1), of ascii_tables "\<lambda>_. 1"]
  by (simp add: one_question_facts(2)) (simp add: sample_defs clock_of_def le_fun_def counters_def go_get_def)

end
