(* ===== verification/Identity.thy ===== *)
theory Identity
  imports Message
begin

text \<open>
  \<open>internal/crypto/identity.go\<close>: key pairs, hex-encoded signatures and their verification.

  Ed25519, peer identifiers and their base58 form belong to libp2p, which is not part of the
  repository: the record \<open>libp2p\<close> holds the functions the program calls, and \<open>key_pair\<close> states the
  documented behaviour the program relies on.  Hex decoding is concrete, with the error texts of
  \<open>encoding/hex\<close>.
\<close>

section \<open>The libraries\<close>

record ('sk, 'pk) libp2p =
  p_GenerateEd25519Key :: "string + ('sk \<times> 'pk)"
  p_IDFromPublicKey :: "'pk \<Rightarrow> string + string"
  p_Sign :: "'sk \<Rightarrow> string \<Rightarrow> string + string"
  p_ExtractPublicKey :: "string \<Rightarrow> string + 'pk"
  p_Verify :: "'pk \<Rightarrow> string \<Rightarrow> string \<Rightarrow> string + bool"
  p_String :: "string \<Rightarrow> string"
  p_Decode :: "string \<Rightarrow> string + string"

text \<open>\<open>fmt\<close>'s \<open>%#U\<close> for a byte, as the hex decoder's error message contains it.\<close>

definition hex_upper :: "nat \<Rightarrow> char" where
  "hex_upper n = (if n < 10 then char_of (48 + n) else char_of (55 + n))"

definition sharp_U :: "char \<Rightarrow> string" where
  "sharp_U c = ''U+00'' @ [hex_upper (byte c div 16), hex_upper (byte c mod 16)] @
     (if (32 \<le> byte c \<and> byte c \<le> 126) \<or> (161 \<le> byte c \<and> byte c \<noteq> 173)
      then [CHR 0x20, CHR 0x27] @ encode_rune (byte c) @ [CHR 0x27] else [])"

definition InvalidByteError :: "char \<Rightarrow> string" where
  "InvalidByteError c = ''encoding/hex: invalid byte: '' @ sharp_U c"

fun hex_DecodeString :: "string \<Rightarrow> string + string" where
  "hex_DecodeString [] = Inr []"
| "hex_DecodeString [a] =
     Inl (if is_hex a then ''encoding/hex: odd length hex string'' else InvalidByteError a)"
| "hex_DecodeString (a # b # s) =
     (case hex_value a of None \<Rightarrow> Inl (InvalidByteError a)
      | Some x \<Rightarrow>
        (case hex_value b of None \<Rightarrow> Inl (InvalidByteError b)
         | Some y \<Rightarrow> map_sum id (\<lambda>r. char_of (x * 16 + y) # r) (hex_DecodeString s)))"

section \<open>Identities\<close>

record ('sk, 'pk) Identity =
  PrivKey :: 'sk
  PubKey :: 'pk
  PeerID :: string

definition GenerateIdentity :: "('sk, 'pk) libp2p \<Rightarrow> string + ('sk, 'pk) Identity" where
  "GenerateIdentity P =
     (case p_GenerateEd25519Key P of
        Inl err \<Rightarrow> Inl (''generate ed25519 key: '' @ err)
      | Inr (priv, pub) \<Rightarrow>
        (case p_IDFromPublicKey P pub of
           Inl err \<Rightarrow> Inl (''derive peer id: '' @ err)
         | Inr pid \<Rightarrow> Inr \<lparr>PrivKey = priv, PubKey = pub, PeerID = pid\<rparr>))"

definition Sign :: "('sk, 'pk) libp2p \<Rightarrow> ('sk, 'pk) Identity \<Rightarrow> string \<Rightarrow> string + string" where
  "Sign P ident data =
     (case p_Sign P (PrivKey ident) data of
        Inl err \<Rightarrow> Inl (''sign: '' @ err)
      | Inr sig \<Rightarrow> Inr (hex_EncodeToString sig))"

text \<open>The Go function returns a verdict and an error; an error comes with the verdict \<open>false\<close>, except
  that the last line passes on what the library returns.\<close>

definition VerifySignature :: "('sk, 'pk) libp2p \<Rightarrow> string \<Rightarrow> string \<Rightarrow> string \<Rightarrow> string + bool" where
  "VerifySignature P senderID data sigHex =
     (case hex_DecodeString sigHex of
        Inl err \<Rightarrow> Inl (''decode signature hex: '' @ err)
      | Inr sig \<Rightarrow>
        (case p_ExtractPublicKey P senderID of
           Inl err \<Rightarrow> Inl (''extract public key from '' @ p_String P senderID @ '': '' @ err)
         | Inr pub \<Rightarrow> p_Verify P pub data sig))"

section \<open>Lemmas\<close>

lemma hex_Decode_Encode: "hex_DecodeString (hex_EncodeToString s) = Inr s"
proof (induction s)
  case (Cons c s)
  have "byte c < 256" by simp
  then have "byte c div 16 < 16" by linarith
  with Cons show ?case by (simp add: hex_EncodeToString_def hex_byte_def)
qed (simp add: hex_EncodeToString_def)

text \<open>What the program assumes of a key pair: its identifier gives back the public key and has a text
  form, and its signatures verify.\<close>

definition key_pair :: "('sk, 'pk) libp2p \<Rightarrow> ('sk, 'pk) Identity \<Rightarrow> bool" where
  "key_pair P i =
     (p_ExtractPublicKey P (PeerID i) = Inr (PubKey i) \<and>
      p_Decode P (p_String P (PeerID i)) = Inr (PeerID i) \<and>
      (\<forall>data. \<exists>sig. p_Sign P (PrivKey i) data = Inr sig \<and> p_Verify P (PubKey i) data sig = Inr True))"

lemma Sign_Verify:
  assumes "key_pair P i"
  obtains sig where "Sign P i data = Inr sig" "VerifySignature P (PeerID i) data sig = Inr True"
proof -
  from assms obtain s where "p_Sign P (PrivKey i) data = Inr s" "p_Verify P (PubKey i) data s = Inr True"
    unfolding key_pair_def by blast
  with assms show ?thesis
    by (intro that [of "hex_EncodeToString s"])
      (simp_all add: Sign_def VerifySignature_def hex_Decode_Encode key_pair_def)
qed

text \<open>A verified signature was made with the key of the claimed sender.\<close>

lemma VerifySignature_true:
  "VerifySignature P pid data sigHex = Inr True \<longleftrightarrow>
     (\<exists>sig pub. hex_DecodeString sigHex = Inr sig \<and> p_ExtractPublicKey P pid = Inr pub \<and> p_Verify P pub data sig = Inr True)"
  by (simp add: VerifySignature_def split: sum.split)

section \<open>Properties\<close>

text \<open>A toy library for the witnesses: keys are names, a peer identifier is the name of its key, a
  signature is the name of the key, a colon and the data.\<close>

definition toy :: "(string, string) libp2p" where
  "toy = \<lparr>p_GenerateEd25519Key = Inr (''k'', ''k''), p_IDFromPublicKey = Inr, p_Sign = (\<lambda>k d. Inr (k @ '':'' @ d)),
     p_ExtractPublicKey = Inr, p_Verify = (\<lambda>k d s. Inr (s = k @ '':'' @ d)), p_String = (\<lambda>p. p), p_Decode = Inr\<rparr>"

definition toy_id :: "string \<Rightarrow> (string, string) Identity" where
  "toy_id n = \<lparr>PrivKey = n, PubKey = n, PeerID = n\<rparr>"

lemma toy_key_pair: "key_pair toy (toy_id n)"
  by (simp add: key_pair_def toy_def toy_id_def)

text \<open>What an identity signs, everyone verifies: the hex text of a signature decodes to the signature,
  and verification under the identity's own peer identifier answers true without an error.\<close>

theorem sign_then_verify:
  assumes "key_pair P i"
  shows "\<exists>sig. Sign P i data = Inr sig \<and> VerifySignature P (PeerID i) data sig = Inr True"
  using Sign_Verify [OF assms] by metis

theorem sign_then_verify_witness:
  "\<exists>sig. Sign toy (toy_id ''n'') ''data'' = Inr sig \<and> VerifySignature toy (PeerID (toy_id ''n'')) ''data'' sig = Inr True"
  by (rule sign_then_verify [OF toy_key_pair])

end
