(* ===== verification/Trust.thy ===== *)
theory Trust
  imports Identity Go_Float Go_Strings
begin

text \<open>
  \<open>internal/p2p/trust.go\<close>: the per-peer reject counters, the quarantine and the token-bucket rate
  limiter.  Each method holds the tracker's mutex, so each is one state transformer.  Tokens are
  \<open>float64\<close> values with Go's rounding (\<open>Go_Float\<close>); the current time is an argument.
\<close>

section \<open>State and operations\<close>

definition QuarantineThreshold :: int where
  "QuarantineThreshold = 3"

definition RateLimitPerSecond :: rat where
  "RateLimitPerSecond = 8"

definition RateLimitBurst :: rat where
  "RateLimitBurst = 12"

record RejectEvent =
  rePeerID :: string
  reReason :: string

record TrustStats =
  tsRejected :: int
  tsQuarantinedPeers :: nat
  tsRateLimited :: int
  tsLastRejectReason :: string

record peerRate =
  prTokens :: rat
  prLast :: time

record TrustTracker =
  tInvalid :: "int gomap"
  tQuarantine :: "string set"
  tRates :: "peerRate gomap"
  tRateLimited :: int
  tLastReason :: string

definition NewTrustTracker :: TrustTracker where
  "NewTrustTracker = \<lparr>tInvalid = [], tQuarantine = {}, tRates = [], tRateLimited = 0, tLastReason = []\<rparr>"

definition shortPeerID :: "string \<Rightarrow> string" where
  "shortPeerID pid = (if length pid \<le> 8 then pid else take 8 pid)"

definition peerIDString :: "('sk, 'pk) libp2p \<Rightarrow> string \<Rightarrow> string" where
  "peerIDString P pid = (if pid = [] then ''unknown'' else p_String P pid)"

text \<open>\<open>t.invalid[pid]++\<close> with the quarantine check that follows it.\<close>

definition count_invalid :: "string \<Rightarrow> TrustTracker \<Rightarrow> TrustTracker" where
  "count_invalid pid t =
     (let n = go_get 0 (tInvalid t) pid + 1
      in t\<lparr>tInvalid := go_put pid n (tInvalid t),
           tQuarantine := (if n \<ge> QuarantineThreshold then insert pid (tQuarantine t) else tQuarantine t)\<rparr>)"

definition RecordReject :: "string \<Rightarrow> string \<Rightarrow> TrustTracker \<Rightarrow> TrustTracker" where
  "RecordReject pid0 reason0 t =
     (let pid = (if pid0 = [] then ''unknown'' else pid0);
          reason = (if reason0 = [] then ''invalid'' else reason0)
      in (count_invalid pid t)\<lparr>tLastReason := shortPeerID pid @ '': '' @ reason\<rparr>)"

definition IsQuarantined :: "string \<Rightarrow> TrustTracker \<Rightarrow> bool" where
  "IsQuarantined pid t = (if pid = [] then False else pid \<in> tQuarantine t)"

definition totalInvalid :: "int gomap \<Rightarrow> int" where
  "totalInvalid invalid = fold (\<lambda>(_, count) total. total + count) invalid 0"

definition Trust_Stats :: "TrustTracker \<Rightarrow> TrustStats" where
  "Trust_Stats t = \<lparr>tsRejected = totalInvalid (tInvalid t), tsQuarantinedPeers = card (tQuarantine t),
     tsRateLimited = tRateLimited t, tsLastRejectReason = tLastReason t\<rparr>"

text \<open>The bucket of a peer at time \<open>now\<close>, before a token is taken.\<close>

definition refill :: "peerRate option \<Rightarrow> time \<Rightarrow> peerRate" where
  "refill state now =
     (case state of
        None \<Rightarrow> \<lparr>prTokens = RateLimitBurst, prLast = now\<rparr>
      | Some s \<Rightarrow>
        if prLast s = 0 then \<lparr>prTokens = RateLimitBurst, prLast = now\<rparr>
        else
          (let delta = Seconds (time_Sub now (prLast s));
               tokens = fadd (prTokens s) (fmul delta RateLimitPerSecond)
           in \<lparr>prTokens = (if delta > 0 then (if tokens > RateLimitBurst then RateLimitBurst else tokens)
                          else prTokens s),
               prLast = now\<rparr>))"

text \<open>\<open>clock_now\<close> is what \<open>time.Now()\<close> returns, used when the caller passes the zero time.\<close>

definition AllowRate :: "string \<Rightarrow> time \<Rightarrow> time \<Rightarrow> TrustTracker \<Rightarrow> TrustTracker \<times> bool" where
  "AllowRate pid0 now0 clock_now t =
     (let pid = (if pid0 = [] then ''unknown'' else pid0);
          now = (if now0 = 0 then clock_now else now0);
          state = refill (map_of (tRates t) pid) now
      in if prTokens state < 1 then
           ((count_invalid pid t)\<lparr>tRateLimited := tRateLimited t + 1,
              tLastReason := shortPeerID pid @ '': '' @ ''rate_limited'',
              tRates := go_put pid state (tRates t)\<rparr>, False)
         else
           (t\<lparr>tRates := go_put pid (state\<lparr>prTokens := fsub (prTokens state) 1\<rparr>) (tRates t)\<rparr>, True))"


section \<open>The invariant\<close>

definition rate_ok :: "peerRate \<Rightarrow> bool" where
  "rate_ok s = (0 \<le> prTokens s \<and> prTokens s \<le> RateLimitBurst)"

text \<open>The quarantine is exactly the set of peers with three or more rejects, counters are consistent, and
  every bucket holds between 0 and 12 tokens.\<close>

definition trust_inv :: "TrustTracker \<Rightarrow> bool" where
  "trust_inv t =
     (go_wf (tInvalid t) \<and> (\<forall>p. 0 \<le> go_get 0 (tInvalid t) p) \<and>
      tQuarantine t = {p. QuarantineThreshold \<le> go_get 0 (tInvalid t) p} \<and>
      0 \<le> tRateLimited t \<and> tRateLimited t \<le> totalInvalid (tInvalid t) \<and>
      (\<forall>p s. map_of (tRates t) p = Some s \<longrightarrow> rate_ok s))"

definition trust_grows :: "TrustTracker \<Rightarrow> TrustTracker \<Rightarrow> bool" where
  "trust_grows t u =
     ((\<forall>p. go_get 0 (tInvalid t) p \<le> go_get 0 (tInvalid u) p) \<and> tQuarantine t \<subseteq> tQuarantine u \<and>
      tRateLimited t \<le> tRateLimited u)"

lemma totalInvalid_sum: "totalInvalid m = sum_list (map snd m)"
proof -
  have "fold (\<lambda>(_, count) total. total + count) m a = a + sum_list (map snd m)" for a :: int
    by (induction m arbitrary: a) auto
  then show ?thesis by (simp add: totalInvalid_def)
qed

lemma totalInvalid_put:
  "go_wf m \<Longrightarrow> totalInvalid (go_put p v m) = totalInvalid m - go_get 0 m p + v"
proof (induction m)
  case (Cons e m)
  obtain k w where e: "e = (k, w)" by (cases e)
  show ?case
  proof (cases "k = p")
    case True
    then show ?thesis by (simp add: e totalInvalid_sum go_put_def go_get_def)
  next
    case False
    with Cons show ?thesis by (simp add: e totalInvalid_sum go_put_def go_get_def go_wf_def)
  qed
qed (simp add: totalInvalid_sum go_put_def)

lemma count_invalid_simps:
  "tInvalid (count_invalid p t) = go_put p (go_get 0 (tInvalid t) p + 1) (tInvalid t)"
  "tQuarantine (count_invalid p t) =
     (if QuarantineThreshold \<le> go_get 0 (tInvalid t) p + 1 then insert p (tQuarantine t) else tQuarantine t)"
  "tRates (count_invalid p t) = tRates t" "tRateLimited (count_invalid p t) = tRateLimited t"
  by (simp_all add: count_invalid_def Let_def)

lemma count_invalid_inv: "trust_inv t \<Longrightarrow> trust_inv (count_invalid p t)"
  unfolding trust_inv_def count_invalid_simps
  by (auto simp: go_map_simps totalInvalid_put QuarantineThreshold_def)

lemma count_invalid_grows: "trust_grows t (count_invalid p t)"
  by (auto simp: trust_grows_def count_invalid_simps go_map_simps)

lemma NewTrustTracker_inv: "trust_inv NewTrustTracker"
  by (simp add: trust_inv_def NewTrustTracker_def QuarantineThreshold_def totalInvalid_def)

lemma RecordReject_inv: "trust_inv t \<Longrightarrow> trust_inv (RecordReject p r t)"
  using count_invalid_inv [of t] by (simp add: RecordReject_def Let_def trust_inv_def)

lemma RecordReject_grows: "trust_grows t (RecordReject p r t)"
  using count_invalid_grows [of t] by (simp add: RecordReject_def Let_def trust_grows_def)

section \<open>Buckets\<close>

lemma RateLimitBurst_nonneg: "0 \<le> RateLimitBurst" "1 \<le> RateLimitBurst"
  by (simp_all add: RateLimitBurst_def)

lemma Seconds_nonneg: "0 \<le> d \<Longrightarrow> 0 \<le> Seconds d"
  by (auto simp: Seconds_def Let_def fadd_def fdiv_def sgn_if intro!: fl_nonneg add_nonneg_nonneg divide_nonneg_nonneg)

lemma refill_ok:
  assumes "\<And>s. st = Some s \<Longrightarrow> rate_ok s"
  shows "rate_ok (refill st now)"
proof (cases st)
  case None
  then show ?thesis by (simp add: refill_def rate_ok_def RateLimitBurst_def)
next
  case (Some s)
  then have ok: "rate_ok s" using assms by blast
  have "0 \<le> fadd (prTokens s) (fmul d RateLimitPerSecond)" if "0 < d" for d
    using ok that by (auto simp: fadd_def fmul_def rate_ok_def RateLimitPerSecond_def intro!: fl_nonneg add_nonneg_nonneg mult_nonneg_nonneg)
  with ok Some RateLimitBurst_nonneg show ?thesis by (auto simp: refill_def rate_ok_def Let_def)
qed

lemma fsub_one:
  assumes "1 \<le> x" and "x \<le> RateLimitBurst"
  shows "0 \<le> fsub x 1" and "fsub x 1 \<le> x - 1 + 1 / 2 ^ 48"
proof -
  show "0 \<le> fsub x 1" using assms by (simp add: fsub_def fl_nonneg)
  show "fsub x 1 \<le> x - 1 + 1 / 2 ^ 48"
    using fl_upper [of "x - 1"] assms by (simp add: fsub_def RateLimitBurst_def tiny_def field_simps)
qed

lemma AllowRate_inv:
  assumes "trust_inv t"
  shows "trust_inv (fst (AllowRate p now c t))"
proof -
  let ?p = "if p = [] then ''unknown'' else p" and ?now = "if now = 0 then c else now"
  have ok: "rate_ok (refill (map_of (tRates t) ?p) ?now)"
    using assms by (intro refill_ok) (auto simp: trust_inv_def split: if_splits)
  have inv: "trust_inv (count_invalid ?p t)" by (rule count_invalid_inv [OF assms])
  have total: "totalInvalid (tInvalid (count_invalid ?p t)) = totalInvalid (tInvalid t) + 1"
    using assms by (simp add: count_invalid_simps totalInvalid_put trust_inv_def)
  show ?thesis
  proof (cases "prTokens (refill (map_of (tRates t) ?p) ?now) < 1")
    case True
    with inv ok assms total show ?thesis
      unfolding AllowRate_def Let_def by (auto simp: trust_inv_def go_map_simps count_invalid_simps)
  next
    case False
    then have "rate_ok ((refill (map_of (tRates t) ?p) ?now)\<lparr>prTokens := fsub (prTokens (refill (map_of (tRates t) ?p) ?now)) 1\<rparr>)"
      using ok fsub_one [of "prTokens (refill (map_of (tRates t) ?p) ?now)"] by (auto simp: rate_ok_def)
    with False assms show ?thesis
      unfolding AllowRate_def Let_def by (auto simp: trust_inv_def go_map_simps)
  qed
qed

lemma AllowRate_grows: "trust_grows t (fst (AllowRate p now c t))"
  using count_invalid_grows [of t] by (simp add: AllowRate_def Let_def trust_grows_def)

datatype trust_op = OpReject string string | OpAllow string time time

fun perform_trust :: "trust_op \<Rightarrow> TrustTracker \<Rightarrow> TrustTracker" where
  "perform_trust (OpReject p r) t = RecordReject p r t"
| "perform_trust (OpAllow p now c) t = fst (AllowRate p now c t)"

interpretation trust: growing_machine perform_trust "\<lambda>_. True" trust_inv trust_grows
proof unfold_locales
  fix op t
  assume "trust_inv t"
  then show "trust_inv (perform_trust op t)" by (cases op) (simp_all add: RecordReject_inv AllowRate_inv)
  show "trust_grows t (perform_trust op t)" by (cases op) (simp_all add: RecordReject_grows AllowRate_grows)
next
  fix t u v :: TrustTracker
  show "trust_grows t t" by (simp add: trust_grows_def)
  show "trust_grows t u \<Longrightarrow> trust_grows u v \<Longrightarrow> trust_grows t v"
    unfolding trust_grows_def by (meson order_trans subset_trans)
qed


section \<open>How much a bucket lets through\<close>

lemma time_Sub_bounds: "u \<le> t \<Longrightarrow> 0 \<le> time_Sub t u \<and> time_Sub t u \<le> t - u"
  by (simp add: time_Sub_def)

text \<open>\<open>Seconds\<close> is the exact quotient up to one part in 2^50.\<close>

lemma Seconds_bounds:
  assumes "0 \<le> d"
  shows "Seconds d \<le> of_int d / 1000000000 + of_int d / 1000000000 / 2 ^ 50 + 1 / 2 ^ 60"
    and "of_int d / 1000000000 - of_int d / 1000000000 / 2 ^ 50 - 1 / 2 ^ 60 \<le> Seconds d"
proof -
  define s where "s = (of_int (d div 1000000000) :: rat)"
  define n where "n = (of_int (d mod 1000000000) :: rat)"
  have nonneg: "0 \<le> s" "0 \<le> n" using assms by (simp_all add: s_def n_def)
  have "d = d div 1000000000 * 1000000000 + d mod 1000000000" by simp
  then have "(of_int d :: rat) = s * 1000000000 + n"
    unfolding s_def n_def by (metis of_int_add of_int_mult of_int_numeral)
  then have d: "of_int d / 1000000000 = s + n / 1000000000" by simp
  define a where "a = fl s"
  define b where "b = fl n"
  define c where "c = fl (b / 1000000000)"
  have S: "Seconds d = fl (a + c)"
    using assms by (cases "d = 0") (simp_all add: Seconds_def Let_def fadd_def fdiv_def a_def b_def c_def s_def n_def)
  have abc: "0 \<le> a" "0 \<le> b" "0 \<le> c" using nonneg by (simp_all add: a_def b_def c_def fl_nonneg)
  have ab: "a \<le> s + s / 2 ^ 53 + tiny" "b \<le> n + n / 2 ^ 53 + tiny"
    "s - s / 2 ^ 53 - tiny \<le> a" "n - n / 2 ^ 53 - tiny \<le> b"
    using fl_upper [OF nonneg(1)] fl_upper [OF nonneg(2)] fl_lower [OF nonneg(1)] fl_lower [OF nonneg(2)]
    by (simp_all only: a_def b_def)
  have c: "c \<le> b / 1000000000 + b / 1000000000 / 2 ^ 53 + tiny" "b / 1000000000 - b / 1000000000 / 2 ^ 53 - tiny \<le> c"
    using fl_upper [of "b / 1000000000"] fl_lower [of "b / 1000000000"] abc by (simp_all add: c_def)
  have S2: "Seconds d \<le> (a + c) + (a + c) / 2 ^ 53 + tiny" "(a + c) - (a + c) / 2 ^ 53 - tiny \<le> Seconds d"
    using fl_upper [of "a + c"] fl_lower [of "a + c"] abc by (simp_all add: S)
  show "Seconds d \<le> of_int d / 1000000000 + of_int d / 1000000000 / 2 ^ 50 + 1 / 2 ^ 60"
    and "of_int d / 1000000000 - of_int d / 1000000000 / 2 ^ 50 - 1 / 2 ^ 60 \<le> Seconds d"
    unfolding d using ab c S2 nonneg abc by (simp_all add: tiny_def field_simps)
qed

text \<open>Refilling adds at most eight tokens per second, up to a rounding error below 2^-40.\<close>

lemma refill_upper:
  assumes ok: "rate_ok s" and last: "prLast s \<noteq> 0" "prLast s \<le> now"
  shows "prTokens (refill (Some s) now) \<le> prTokens s + 8 * (of_int (now - prLast s) / 1000000000) + 1 / 2 ^ 40"
proof -
  define x where "x = (of_int (now - prLast s) / 1000000000 :: rat)"
  define d where "d = time_Sub now (prLast s)"
  have d: "0 \<le> d" "d \<le> now - prLast s" using time_Sub_bounds [OF last(2)] by (simp_all add: d_def)
  have x: "of_int d / 1000000000 \<le> x" "0 \<le> x"
    using d last(2) by (simp_all add: x_def divide_right_mono del: of_int_diff)
  have sec: "Seconds d \<le> x + x / 2 ^ 50 + 1 / 2 ^ 60"
    using Seconds_bounds(1) [OF d(1)] x by (simp add: field_simps)
  show ?thesis
  proof (cases "prTokens s + 8 * x < 12 \<and> 0 < Seconds d")
    case True
    have tok: "0 \<le> prTokens s" using ok by (simp add: rate_ok_def)
    have m: "fmul (Seconds d) RateLimitPerSecond \<le> 8 * Seconds d + 8 * Seconds d / 2 ^ 53 + tiny"
      "0 \<le> fmul (Seconds d) RateLimitPerSecond"
      using fl_upper [of "Seconds d * 8"] fl_nonneg [of "Seconds d * 8"] Seconds_nonneg [OF d(1)]
      by (simp_all add: fmul_def RateLimitPerSecond_def mult.commute)
    let ?y = "prTokens s + fmul (Seconds d) RateLimitPerSecond"
    have y: "?y \<le> prTokens s + 8 * x + 1 / 2 ^ 42"
      using m(1) sec True tok x(2) by (simp add: tiny_def field_simps)
    have "fadd (prTokens s) (fmul (Seconds d) RateLimitPerSecond) \<le> ?y + ?y / 2 ^ 53 + tiny"
      unfolding fadd_def using tok m(2) by (intro fl_upper) simp
    then have "fadd (prTokens s) (fmul (Seconds d) RateLimitPerSecond) \<le> prTokens s + 8 * x + 1 / 2 ^ 40"
      using y True tok x(2) by (simp add: tiny_def field_simps)
    moreover have "prTokens (refill (Some s) now) \<le> fadd (prTokens s) (fmul (Seconds d) RateLimitPerSecond)"
      using True last(1) by (simp add: refill_def Let_def d_def [symmetric])
    ultimately show ?thesis by (simp add: x_def)
  next
    case False
    have "rate_ok (refill (Some s) now)" using ok by (intro refill_ok) auto
    then have "prTokens (refill (Some s) now) \<le> 12" by (simp add: rate_ok_def RateLimitBurst_def)
    moreover have "prTokens (refill (Some s) now) = prTokens s" if "\<not> 0 < Seconds d"
      using that last(1) by (simp add: refill_def Let_def d_def [symmetric])
    ultimately show ?thesis using False x(2) by (auto simp: x_def not_less)
  qed
qed

text \<open>A clock that went back adds nothing.\<close>

lemma fl_nonpos: "q \<le> 0 \<Longrightarrow> fl q \<le> 0"
  using fl_nonneg [of "- q"] by (auto simp: fl_def split: if_splits)

lemma Seconds_nonpos: "d \<le> 0 \<Longrightarrow> Seconds d \<le> 0"
  by (cases "d = 0") (auto simp: Seconds_def Let_def fadd_def fdiv_def sgn_if intro!: fl_nonpos add_nonpos_nonpos divide_nonpos_nonneg)

lemma refill_forward:
  assumes "rate_ok s" and "prLast s \<noteq> 0"
  shows "prTokens (refill (Some s) now) \<le> prTokens s + 8 * (of_int (max 0 (now - prLast s)) / 1000000000) + 1 / 2 ^ 40"
proof (cases "prLast s \<le> now")
  case True
  then show ?thesis using refill_upper [OF assms True] by (simp add: max_def)
next
  case False
  then have "Seconds (time_Sub now (prLast s)) \<le> 0" by (intro Seconds_nonpos) (simp add: time_Sub_def)
  with False assms(2) show ?thesis by (simp add: refill_def Let_def not_less [symmetric])
qed

text \<open>After an eighth of a second and a little there is a token again.\<close>

lemma refill_lower:
  assumes ok: "rate_ok s" and last: "prLast s \<noteq> 0" "prLast s + 126000000 \<le> now"
  shows "1 \<le> prTokens (refill (Some s) now)"
proof -
  define d where "d = time_Sub now (prLast s)"
  have d: "126000000 \<le> d" using last(2) by (simp add: d_def time_Sub_def)
  have "(126000000 :: rat) \<le> of_int d" using d by (metis of_int_le_iff of_int_numeral)
  then have sec: "1255 / 10000 \<le> Seconds d"
    using Seconds_bounds(2) [of d] d by (simp add: field_simps)
  have m: "8 * Seconds d - 8 * Seconds d / 2 ^ 53 - tiny \<le> fmul (Seconds d) RateLimitPerSecond"
    using fl_lower [of "Seconds d * 8"] sec by (simp add: fmul_def RateLimitPerSecond_def mult.commute)
  then have m2: "1002 / 1000 \<le> fmul (Seconds d) RateLimitPerSecond"
    using sec by (simp add: tiny_def field_simps)
  have tok: "0 \<le> prTokens s" using ok by (simp add: rate_ok_def)
  let ?y = "prTokens s + fmul (Seconds d) RateLimitPerSecond"
  have "?y - ?y / 2 ^ 53 - tiny \<le> fadd (prTokens s) (fmul (Seconds d) RateLimitPerSecond)"
    unfolding fadd_def using tok m2 by (intro fl_lower) simp
  then have "1 \<le> fadd (prTokens s) (fmul (Seconds d) RateLimitPerSecond)"
    using tok m2 by (simp add: tiny_def field_simps)
  with sec last(1) show ?thesis
    by (auto simp: refill_def Let_def d_def [symmetric] RateLimitBurst_def)
qed


text \<open>How many calls of a peer are let through during a run, how many there are, and how much time passes between them as the
  tracker sees it.  The validator reads the clock before the tracker is locked, so that timestamps may arrive out of order:
  \<open>AllowRate\<close> then moves \<open>Last\<close> back, and the way forward counts again.\<close>

abbreviation peer_key :: "string \<Rightarrow> string" where
  "peer_key p \<equiv> (if p = [] then ''unknown'' else p)"

fun granted :: "string \<Rightarrow> trust_op list \<Rightarrow> TrustTracker \<Rightarrow> nat" where
  "granted p [] t = 0"
| "granted p (OpReject q r # ops) t = granted p ops (perform_trust (OpReject q r) t)"
| "granted p (OpAllow q now c # ops) t =
     (if peer_key q = p \<and> snd (AllowRate q now c t) then 1 else 0) + granted p ops (perform_trust (OpAllow q now c) t)"

fun asked :: "string \<Rightarrow> trust_op list \<Rightarrow> nat" where
  "asked p [] = 0"
| "asked p (OpReject q r # ops) = asked p ops"
| "asked p (OpAllow q now c # ops) = (if peer_key q = p then 1 else 0) + asked p ops"

fun elapsed :: "string \<Rightarrow> time option \<Rightarrow> trust_op list \<Rightarrow> time" where
  "elapsed p prev [] = 0"
| "elapsed p prev (OpReject q r # ops) = elapsed p prev ops"
| "elapsed p prev (OpAllow q now c # ops) =
     (if peer_key q = p then (case prev of None \<Rightarrow> 0 | Some l \<Rightarrow> max 0 (now - l)) + elapsed p (Some now) ops else elapsed p prev ops)"

text \<open>The timestamps are real ones: \<open>time.Now()\<close> is never the zero time.\<close>

fun stamped :: "string \<Rightarrow> trust_op list \<Rightarrow> bool" where
  "stamped p [] = True"
| "stamped p (OpReject q r # ops) = stamped p ops"
| "stamped p (OpAllow q now c # ops) = ((peer_key q = p \<longrightarrow> now \<noteq> 0) \<and> stamped p ops)"

text \<open>When they do arrive in order, it is the time between the first and the last one.\<close>

fun in_time :: "string \<Rightarrow> time \<Rightarrow> trust_op list \<Rightarrow> time \<Rightarrow> bool" where
  "in_time p lo [] hi = (lo \<le> hi)"
| "in_time p lo (OpReject q r # ops) hi = in_time p lo ops hi"
| "in_time p lo (OpAllow q now c # ops) hi =
     (if peer_key q = p then lo \<le> now \<and> in_time p now ops hi else in_time p lo ops hi)"

lemma elapsed_in_time_from: "in_time p lo ops hi \<Longrightarrow> elapsed p (Some lo) ops \<le> hi - lo"
  by (induction p lo ops hi rule: in_time.induct) (auto split: if_splits)

lemma elapsed_in_time: "in_time p lo ops hi \<Longrightarrow> elapsed p None ops \<le> hi - lo"
  by (induction p lo ops hi rule: in_time.induct) (auto split: if_splits dest!: elapsed_in_time_from)

lemma rates_other:
  "tRates (RecordReject q r t) = tRates t"
  "peer_key q \<noteq> p \<Longrightarrow> map_of (tRates (fst (AllowRate q now c t))) p = map_of (tRates t) p"
  by (simp_all add: RecordReject_def Let_def count_invalid_simps)
    (auto simp: AllowRate_def Let_def go_map_simps)

lemma AllowRate_bucket:
  assumes "now \<noteq> 0" and "peer_key q = p"
  shows "snd (AllowRate q now c t) \<longleftrightarrow> 1 \<le> prTokens (refill (map_of (tRates t) p) now)"
    and "map_of (tRates (fst (AllowRate q now c t))) p = Some
      (if snd (AllowRate q now c t)
       then (refill (map_of (tRates t) p) now)\<lparr>prTokens := fsub (prTokens (refill (map_of (tRates t) p) now)) 1\<rparr>
       else refill (map_of (tRates t) p) now)"
  using assms by (auto simp: AllowRate_def Let_def go_map_simps not_less)

lemma prLast_refill: "prLast (refill st now) = now"
  by (simp add: refill_def Let_def split: option.split)

text \<open>Potential argument: tokens pay for grants, time pays for tokens.\<close>

lemma granted_bound:
  assumes "trust_inv t" and "map_of (tRates t) p = Some s" and "prLast s \<noteq> 0" and "stamped p ops"
  shows "of_nat (granted p ops t) \<le>
    prTokens s + 8 * (of_int (elapsed p (Some (prLast s)) ops) / 1000000000) + of_nat (asked p ops) / 2 ^ 39"
  using assms
proof (induction ops arbitrary: t s)
  case Nil
  then have "rate_ok s" by (simp add: trust_inv_def)
  then show ?case by (simp add: rate_ok_def)
next
  case (Cons op ops)
  have inv: "trust_inv (perform_trust op t)"
    by (rule trust.perform_inv [OF TrueI Cons.prems(1)])
  show ?case
  proof (cases op)
    case (OpReject q r)
    then show ?thesis using Cons.IH [OF inv, of s] Cons.prems by (simp add: rates_other)
  next
    case (OpAllow q now c)
    show ?thesis
    proof (cases "peer_key q = p")
      case False
      then show ?thesis using Cons.IH [OF inv, of s] Cons.prems OpAllow by (simp add: rates_other)
    next
      case True
      have times: "now \<noteq> 0" "stamped p ops" using Cons.prems(4) OpAllow True by auto
      let ?r = "refill (Some s) now"
      have "rate_ok s" using Cons.prems(1,2) by (simp add: trust_inv_def)
      then have rok: "rate_ok ?r" by (intro refill_ok) auto
      have up: "prTokens ?r \<le> prTokens s + 8 * (of_int (max 0 (now - prLast s)) / 1000000000) + 1 / 2 ^ 40"
        by (rule refill_forward [OF \<open>rate_ok s\<close> Cons.prems(3)])
      let ?ok = "snd (AllowRate q now c t)"
      let ?s = "if ?ok then ?r\<lparr>prTokens := fsub (prTokens ?r) 1\<rparr> else ?r"
      have b: "map_of (tRates (fst (AllowRate q now c t))) p = Some ?s" "?ok \<longleftrightarrow> 1 \<le> prTokens ?r"
        using AllowRate_bucket [OF times(1) True, of c t] Cons.prems(2) by simp_all
      have pay: "(if ?ok then 1 else 0) + prTokens ?s \<le> prTokens ?r + 1 / 2 ^ 48"
        using fsub_one [of "prTokens ?r"] b(2) rok by (auto simp: rate_ok_def)
      have last: "prLast ?s = now" by (simp add: prLast_refill)
      have IH: "of_nat (granted p ops (perform_trust op t)) \<le>
          prTokens ?s + 8 * (of_int (elapsed p (Some now) ops) / 1000000000) + of_nat (asked p ops) / 2 ^ 39"
        using b(1) OpAllow times by (intro Cons.IH [OF inv, of ?s, unfolded last]) simp_all
      have "granted p (op # ops) t = (if ?ok then 1 else 0) + granted p ops (perform_trust op t)"
        "asked p (op # ops) = 1 + asked p ops"
        "elapsed p (Some (prLast s)) (op # ops) = max 0 (now - prLast s) + elapsed p (Some now) ops"
        using OpAllow True by simp_all
      then have "of_nat (granted p (op # ops) t) = (if ?ok then 1 else (0 :: rat)) + of_nat (granted p ops (perform_trust op t))"
        "(of_nat (asked p (op # ops)) :: rat) = 1 + of_nat (asked p ops)"
        "(of_int (elapsed p (Some (prLast s)) (op # ops)) :: rat) = of_int (max 0 (now - prLast s)) + of_int (elapsed p (Some now) ops)"
        by simp_all
      then show ?thesis
        using IH pay up by (simp add: field_simps del: of_int_max)
    qed
  qed
qed

text \<open>The same for a peer that has no bucket yet: it starts with a full one.\<close>

lemma granted_bound_fresh:
  assumes "trust_inv t" and "map_of (tRates t) p = None" and "stamped p ops"
  shows "of_nat (granted p ops t) \<le> 12 + 8 * (of_int (elapsed p None ops) / 1000000000) + of_nat (asked p ops) / (2 ^ 39 :: rat)"
  using assms
proof (induction ops arbitrary: t)
  case (Cons op ops)
  have inv: "trust_inv (perform_trust op t)" by (rule trust.perform_inv [OF TrueI Cons.prems(1)])
  show ?case
  proof (cases op)
    case (OpReject q r)
    then show ?thesis using Cons.IH [OF inv] Cons.prems by (simp add: rates_other)
  next
    case (OpAllow q now c)
    show ?thesis
    proof (cases "peer_key q = p")
      case False
      then show ?thesis using Cons.IH [OF inv] Cons.prems OpAllow by (simp add: rates_other)
    next
      case True
      have times: "now \<noteq> 0" "stamped p ops" using Cons.prems(3) OpAllow True by auto
      have fresh: "refill None now = \<lparr>prTokens = 12, prLast = now\<rparr>" by (simp add: refill_def RateLimitBurst_def)
      let ?s = "\<lparr>prTokens = fsub 12 1, prLast = now\<rparr>"
      have b: "map_of (tRates (fst (AllowRate q now c t))) p = Some ?s" "snd (AllowRate q now c t)"
        using AllowRate_bucket [OF times(1) True, of c t] Cons.prems(2) fresh by simp_all
      have IH: "of_nat (granted p ops (perform_trust op t)) \<le>
          prTokens ?s + 8 * (of_int (elapsed p (Some (prLast ?s)) ops) / 1000000000) + of_nat (asked p ops) / 2 ^ 39"
        using OpAllow b times by (intro granted_bound [OF inv, of p ?s]) simp_all
      have "fsub 12 1 \<le> 11 + 1 / 2 ^ 48" using fsub_one(2) [of 12] by (simp add: RateLimitBurst_def)
      moreover have "granted p (op # ops) t = 1 + granted p ops (perform_trust op t)" "asked p (op # ops) = 1 + asked p ops"
          "elapsed p None (op # ops) = elapsed p (Some now) ops"
        using OpAllow True b(2) by simp_all
      ultimately show ?thesis using IH by (simp add: field_simps)
    qed
  qed
qed simp

section \<open>How often a peer was counted invalid\<close>

text \<open>Rejects of the peer, and its packets the rate check refused.\<close>

fun charged :: "string \<Rightarrow> trust_op list \<Rightarrow> TrustTracker \<Rightarrow> nat" where
  "charged p [] t = 0"
| "charged p (OpReject q r # ops) t = (if peer_key q = p then 1 else 0) + charged p ops (perform_trust (OpReject q r) t)"
| "charged p (OpAllow q now c # ops) t =
     (if peer_key q = p \<and> \<not> snd (AllowRate q now c t) then 1 else 0) + charged p ops (perform_trust (OpAllow q now c) t)"

lemma invalid_charged:
  "go_get 0 (tInvalid (fold perform_trust ops t)) p = go_get 0 (tInvalid t) p + int (charged p ops t)"
proof (induction ops arbitrary: t)
  case (Cons op ops)
  have "go_get 0 (tInvalid (perform_trust op t)) p = go_get 0 (tInvalid t) p + int (charged p [op] t)"
    by (cases op) (auto simp: RecordReject_def AllowRate_def Let_def count_invalid_simps go_map_simps)
  moreover have "charged p (op # ops) t = charged p [op] t + charged p ops (perform_trust op t)" by (cases op) simp_all
  ultimately show ?case using Cons.IH [of "perform_trust op t"] by simp
qed simp

section \<open>Properties\<close>

text \<open>C22. After every sequence of rejects and rate checks the tracker is consistent: a peer is quarantined
  exactly when it was counted invalid at least three times, the number of rate-limited packets is
  part of the number of rejects, and every bucket holds between 0 and 12 tokens, rounding included.\<close>

theorem trust_tracker_invariant:
  "trust_inv (fold perform_trust ops NewTrustTracker)"
proof -
  have "list_all (\<lambda>_. True) ops" by (simp add: list_all_iff)
  then show ?thesis by (rule trust.run_inv) (rule NewTrustTracker_inv)
qed

text \<open>C31. Quarantine is what it says, and for good: after any sequence of operations on a new tracker -- rejects and rate checks of
  any peers mixed in any way -- a peer is quarantined exactly when it was counted invalid at least three times, by a reject or by
  a packet over its rate, granted packets in between forgiving nothing; and a peer in quarantine stays there whatever follows.\<close>

theorem quarantine_is_permanent:
  assumes "p \<noteq> []"
  shows "(IsQuarantined p (fold perform_trust ops NewTrustTracker) \<longleftrightarrow> 3 \<le> charged p ops NewTrustTracker) \<and>
    (IsQuarantined p (fold perform_trust ops NewTrustTracker) \<longrightarrow> IsQuarantined p (fold perform_trust (ops @ later) NewTrustTracker))"
proof -
  have ok: "list_all (\<lambda>_. True) ops'" for ops' :: "trust_op list" by (simp add: list_all_iff)
  let ?t = "fold perform_trust ops NewTrustTracker"
  have inv: "trust_inv ?t" by (rule trust.run_inv [OF ok NewTrustTracker_inv])
  have "go_get 0 (tInvalid NewTrustTracker) p = 0" by (simp add: NewTrustTracker_def go_get_def)
  then have "IsQuarantined p ?t \<longleftrightarrow> 3 \<le> charged p ops NewTrustTracker"
    using inv assms invalid_charged [of ops NewTrustTracker p] by (simp add: IsQuarantined_def trust_inv_def QuarantineThreshold_def)
  moreover have "trust_grows ?t (fold perform_trust later ?t)" by (rule trust.run_grows [OF ok inv])
  ultimately show ?thesis using assms by (auto simp: IsQuarantined_def trust_grows_def)
qed

theorem quarantine_is_permanent_witness:
  "IsQuarantined ''p'' (fold perform_trust [OpReject ''p'' ''a'', OpAllow ''p'' 5 0, OpReject ''q'' ''x'', OpReject ''p'' ''b'',
     OpAllow ''p'' 6 0, OpReject ''p'' ''c''] NewTrustTracker)"
  using quarantine_is_permanent [of "''p''" "[OpReject ''p'' ''a'', OpAllow ''p'' 5 0, OpReject ''q'' ''x'', OpReject ''p'' ''b'',
     OpAllow ''p'' 6 0, OpReject ''p'' ''c'']" "[]"]
  by (simp del: fold_simps)

text \<open>C12. The rate limit: of the packets of a new peer at most twelve pass, plus eight per second of the time that passes between
  them -- every step forward from one timestamp to the next the tracker sees counts, so that a timestamp that arrives late lets
  the way forward count again -- plus the share of rounding, which is less than one packet in 500 billion attempts; rejects and
  the packets of others may come in between.  When the timestamps of the peer arrive in order, that time is at most the time
  between the bounds they lie in.  The timestamps are those of \<open>time.Now()\<close>, never the zero time.\<close>

theorem rate_limit_bound:
  assumes "trust_inv t" and "map_of (tRates t) p = None" and "stamped p ops"
  shows "of_nat (granted p ops t) \<le> 12 + 8 * (of_int (elapsed p None ops) / 1000000000) + of_nat (asked p ops) / (2 ^ 39 :: rat) \<and>
    (\<forall>lo hi. in_time p lo ops hi \<longrightarrow> elapsed p None ops \<le> hi - lo)"
  using granted_bound_fresh [OF assms] elapsed_in_time by blast

theorem rate_limit_bound_witness:
  "(of_nat (granted ''p'' [OpAllow ''p'' 9 0, OpReject ''p'' ''x'', OpAllow ''q'' 6 0, OpAllow ''p'' 7 0, OpAllow ''p'' 8 0] NewTrustTracker) :: rat)
     \<le> 12 + 8 * (1 / 1000000000) + 3 / 2 ^ 39"
  using rate_limit_bound [of NewTrustTracker "''p''" "[OpAllow ''p'' 9 0, OpReject ''p'' ''x'', OpAllow ''q'' 6 0, OpAllow ''p'' 7 0, OpAllow ''p'' 8 0]"]
    NewTrustTracker_inv
  by (simp del: granted.simps add: NewTrustTracker_def)

text \<open>C38. The limiter does not starve a peer: 126 milliseconds after its last packet the next one passes
  the rate check, in every reachable state and whatever rounding did before.\<close>

theorem rate_limit_recovers:
  assumes "trust_inv t" and "p \<noteq> []" and "map_of (tRates t) p = Some s" and "prLast s \<noteq> 0"
    and "prLast s + 126000000 \<le> now" and "now \<noteq> 0"
  shows "snd (AllowRate p now c t)"
proof -
  have "rate_ok s" using assms(1,3) by (simp add: trust_inv_def)
  then show ?thesis
    using AllowRate_bucket(1) [OF assms(6), of p p c t] refill_lower [of s now] assms by simp
qed

theorem rate_limit_recovers_witness:
  "snd (AllowRate ''p'' 126000005 0 (fst (AllowRate ''p'' 5 0 NewTrustTracker)))"
proof -
  have "map_of (tRates (fst (AllowRate ''p'' 5 0 NewTrustTracker))) ''p'' = Some \<lparr>prTokens = fsub 12 1, prLast = 5\<rparr>"
    using AllowRate_bucket [of 5 "''p''" "''p''" 0 NewTrustTracker]
    by (simp add: NewTrustTracker_def refill_def RateLimitBurst_def)
  then show ?thesis
    by (intro rate_limit_recovers [where s = "\<lparr>prTokens = fsub 12 1, prLast = 5\<rparr>"]) (simp_all add: AllowRate_inv NewTrustTracker_inv)
qed

text \<open>A burst of calls at one instant.\<close>

fun allow_burst :: "string \<Rightarrow> time \<Rightarrow> nat \<Rightarrow> TrustTracker \<Rightarrow> bool list \<times> TrustTracker" where
  "allow_burst p now 0 t = ([], t)"
| "allow_burst p now (Suc n) t =
     (case AllowRate p now now t of (t', ok) \<Rightarrow> case allow_burst p now n t' of (oks, t'') \<Rightarrow> (ok # oks, t''))"

lemma fl_small: "k \<in> set [0..<12] \<Longrightarrow> fl (of_nat k) = of_nat k"
proof -
  have "\<forall>k \<in> set [0..<12]. fl (of_nat k) = of_nat k" by code_simp
  then show "k \<in> set [0..<12] \<Longrightarrow> fl (of_nat k) = of_nat k" by blast
qed

lemma refill_same: "prLast s = now \<Longrightarrow> now \<noteq> 0 \<Longrightarrow> refill (Some s) now = s"
  by (simp add: refill_def Let_def time_Sub_def Seconds_def fadd_def fdiv_def)

lemma allow_burst_bucket:
  assumes "map_of (tRates t) p = Some \<lparr>prTokens = of_nat k, prLast = now\<rparr>" and "now \<noteq> 0" and "p \<noteq> []" and "k \<le> 12"
  shows "fst (allow_burst p now (k + n) t) = replicate k True @ fst (allow_burst p now n (snd (allow_burst p now k t))) \<and>
    map_of (tRates (snd (allow_burst p now k t))) p = Some \<lparr>prTokens = 0, prLast = now\<rparr> \<and>
    tInvalid (snd (allow_burst p now k t)) = tInvalid t \<and> tRateLimited (snd (allow_burst p now k t)) = tRateLimited t"
  using assms
proof (induction k arbitrary: t)
  case (Suc k)
  let ?s = "\<lparr>prTokens = of_nat (Suc k), prLast = now\<rparr>"
  have "fsub (1 + of_nat k) 1 = of_nat k"
    using fl_small [of k] Suc.prems(4) by (simp add: fsub_def)
  moreover have "refill (Some ?s) now = ?s" using Suc.prems(2) by (intro refill_same) simp_all
  ultimately have step: "AllowRate p now now t = (t\<lparr>tRates := go_put p \<lparr>prTokens = of_nat k, prLast = now\<rparr> (tRates t)\<rparr>, True)"
    using Suc.prems by (simp add: AllowRate_def Let_def)
  then show ?case
    using Suc.IH [of "t\<lparr>tRates := go_put p \<lparr>prTokens = of_nat k, prLast = now\<rparr> (tRates t)\<rparr>"] Suc.prems
    by (auto simp: go_map_simps split: prod.splits)
qed simp

text \<open>Twelve packets of a new peer pass at one instant, the thirteenth does not, and it is counted as
  a reject and as rate-limited.\<close>

theorem burst_of_twelve:
  assumes "p \<noteq> []" and "now \<noteq> 0"
  shows "case allow_burst p now 13 NewTrustTracker of (oks, t) \<Rightarrow>
    oks = replicate 12 True @ [False] \<and> tsRejected (Trust_Stats t) = 1 \<and> tsRateLimited (Trust_Stats t) = 1"
proof -
  let ?t = "NewTrustTracker\<lparr>tRates := [(p, \<lparr>prTokens = of_nat 11, prLast = now\<rparr>)]\<rparr>"
  have "fsub 12 1 = (11 :: rat)" using fl_small [of 11] by (simp add: fsub_def)
  then have first: "AllowRate p now now NewTrustTracker = (?t, True)"
    using assms by (simp add: AllowRate_def Let_def NewTrustTracker_def refill_def RateLimitBurst_def go_put_def)
  let ?u = "snd (allow_burst p now 11 ?t)"
  have burst: "fst (allow_burst p now (11 + 1) ?t) = replicate 11 True @ fst (allow_burst p now 1 ?u)"
    "map_of (tRates ?u) p = Some \<lparr>prTokens = 0, prLast = now\<rparr>" "tInvalid ?u = []" "tRateLimited ?u = 0"
    using allow_burst_bucket [of ?t p 11 now 1] assms by (simp_all add: NewTrustTracker_def)
  have snd: "snd (allow_burst p now (k + n) t) = snd (allow_burst p now n (snd (allow_burst p now k t)))" for k n t
    by (induction k arbitrary: t) (simp_all add: split_beta)
  have last: "allow_burst p now 1 ?u = ([False], fst (AllowRate p now now ?u))"
    "tInvalid (fst (AllowRate p now now ?u)) = [(p, 1)]" "tRateLimited (fst (AllowRate p now now ?u)) = 1"
    using burst(2-4) assms refill_same [of "\<lparr>prTokens = 0, prLast = now\<rparr>" now]
    by (simp_all add: AllowRate_def Let_def count_invalid_simps go_put_def)
  have "allow_burst p now (11 + 1) ?t = (replicate 11 True @ [False], fst (AllowRate p now now ?u))"
    using burst(1) last(1) snd [of 11 1 ?t] by (metis fst_conv snd_conv surjective_pairing)
  then have "allow_burst p now 13 NewTrustTracker = (replicate 12 True @ [False], fst (AllowRate p now now ?u))"
    using first by (simp add: numeral_eq_Suc)
  with last show ?thesis by (simp add: Trust_Stats_def totalInvalid_def)
qed

theorem burst_of_twelve_witness:
  "fst (allow_burst ''p'' 5 13 NewTrustTracker) = replicate 12 True @ [False]"
  using burst_of_twelve [of "''p''" 5] by (simp split: prod.splits)

end
