(* ===== verification/Validate.thy ===== *)
theory Validate
  imports Trust
begin

text \<open>
  \<open>internal/p2p/validate.go\<close> with the envelope types of \<open>internal/p2p/pubsub.go\<close>: what the GossipSub
  validator of a room lets through.

  An \<open>error\<close> is its text, nil is \<open>None\<close>.  The text of a JSON error is the library's; it is the
  parameter \<open>J\<close>, applied to the name of the target type, the data and the class of the error.  A trust tracker may be nil.  The
  current time is an argument.
\<close>

section \<open>Envelopes\<close>

record Activity =
  aKind :: string
  aName :: string
  aAction :: string
  aActive :: bool

record Control =
  cKind :: string
  cRequestID :: string
  cFromPeerID :: string
  cKnownIDs :: "string list"
  cMessages :: "Message option list"
  cForwardedBy :: string

definition Activity_zero :: Activity where
  "Activity_zero = \<lparr>aKind = [], aName = [], aAction = [], aActive = False\<rparr>"

definition Control_zero :: Control where
  "Control_zero = \<lparr>cKind = [], cRequestID = [], cFromPeerID = [], cKnownIDs = [], cMessages = [], cForwardedBy = []\<rparr>"

definition activity_json :: "Activity \<Rightarrow> json" where
  "activity_json a = JObj [(''_kind'', JStr (aKind a)), (''name'', JStr (aName a)),
     (''action'', JStr (aAction a)), (''active'', JBool (aActive a))]"

definition message_ptr_json :: "Message option \<Rightarrow> json" where
  "message_ptr_json m = (case m of None \<Rightarrow> JNull | Some m \<Rightarrow> message_json m)"

definition control_json :: "Control \<Rightarrow> json" where
  "control_json c = JObj
     ([(''_kind'', JStr (cKind c))] @
      omitempty (cRequestID c = []) (''request_id'', JStr (cRequestID c)) @
      omitempty (cFromPeerID c = []) (''from_peer_id'', JStr (cFromPeerID c)) @
      omitempty (cKnownIDs c = []) (''known_ids'', JArr (map JStr (cKnownIDs c))) @
      omitempty (cMessages c = []) (''messages'', JArr (map message_ptr_json (cMessages c))))"

subsection \<open>Decoding\<close>

text \<open>The local struct with the one field \<open>_kind\<close>.\<close>

definition decode_kind :: "string \<times> json \<Rightarrow> string \<Rightarrow> string \<times> bool" where
  "decode_kind = (\<lambda>(key, v) kind. if is_field ''_kind'' key then decode_string v kind else (kind, False))"

definition Peek_Unmarshal :: "string \<Rightarrow> string \<times> json_error option" where
  "Peek_Unmarshal data = Unmarshal decode_kind [] data"

definition decode_activity :: "string \<times> json \<Rightarrow> Activity \<Rightarrow> Activity \<times> bool" where
  "decode_activity = (\<lambda>(key, v) a.
     if is_field ''_kind'' key then (case decode_string v (aKind a) of (s, e) \<Rightarrow> (a\<lparr>aKind := s\<rparr>, e))
     else if is_field ''name'' key then (case decode_string v (aName a) of (s, e) \<Rightarrow> (a\<lparr>aName := s\<rparr>, e))
     else if is_field ''action'' key then (case decode_string v (aAction a) of (s, e) \<Rightarrow> (a\<lparr>aAction := s\<rparr>, e))
     else if is_field ''active'' key then (case decode_bool v (aActive a) of (b, e) \<Rightarrow> (a\<lparr>aActive := b\<rparr>, e))
     else (a, False))"

definition Activity_Unmarshal :: "string \<Rightarrow> Activity \<times> json_error option" where
  "Activity_Unmarshal data = Unmarshal decode_activity Activity_zero data"

text \<open>A \<open>*types.Message\<close> element: \<open>null\<close> makes the pointer nil, anything else allocates if needed.\<close>

definition decode_message_ptr :: "json \<Rightarrow> message_cell option \<Rightarrow> message_cell option \<times> bool" where
  "decode_message_ptr v cur = (case v of
      JNull \<Rightarrow> (None, False)
    | _ \<Rightarrow> (case decode_struct decode_field v (case cur of None \<Rightarrow> (Message_zero, []) | Some c \<Rightarrow> c) of
             (c, e) \<Rightarrow> (Some c, e)))"

text \<open>A control variable with the arrays behind its two slices.\<close>

record control_cell =
  ccKind :: string
  ccRequestID :: string
  ccFromPeerID :: string
  ccKnownIDs :: "string slice"
  ccMessages :: "message_cell option slice"

definition decode_control :: "string \<times> json \<Rightarrow> control_cell \<Rightarrow> control_cell \<times> bool" where
  "decode_control = (\<lambda>(key, v) c.
     if is_field ''_kind'' key then (case decode_string v (ccKind c) of (s, e) \<Rightarrow> (c\<lparr>ccKind := s\<rparr>, e))
     else if is_field ''request_id'' key then (case decode_string v (ccRequestID c) of (s, e) \<Rightarrow> (c\<lparr>ccRequestID := s\<rparr>, e))
     else if is_field ''from_peer_id'' key then (case decode_string v (ccFromPeerID c) of (s, e) \<Rightarrow> (c\<lparr>ccFromPeerID := s\<rparr>, e))
     else if is_field ''known_ids'' key then
       (case decode_slice decode_string [] v (ccKnownIDs c) of (xs, e) \<Rightarrow> (c\<lparr>ccKnownIDs := xs\<rparr>, e))
     else if is_field ''messages'' key then
       (case decode_slice decode_message_ptr None v (ccMessages c) of (xs, e) \<Rightarrow> (c\<lparr>ccMessages := xs\<rparr>, e))
     else (c, False))"

definition control_cell_zero :: control_cell where
  "control_cell_zero = \<lparr>ccKind = [], ccRequestID = [], ccFromPeerID = [], ccKnownIDs = ([], []), ccMessages = ([], [])\<rparr>"

definition control_of_cell :: "control_cell \<Rightarrow> Control" where
  "control_of_cell c = \<lparr>cKind = ccKind c, cRequestID = ccRequestID c, cFromPeerID = ccFromPeerID c,
     cKnownIDs = fst (ccKnownIDs c), cMessages = map (map_option fst) (fst (ccMessages c)), cForwardedBy = []\<rparr>"

definition Control_Unmarshal :: "string \<Rightarrow> Control \<times> json_error option" where
  "Control_Unmarshal data =
     (case Unmarshal decode_control control_cell_zero data of (c, err) \<Rightarrow> (control_of_cell c, err))"

section \<open>The validator\<close>

definition maxAppPayloadBytes :: nat where
  "maxAppPayloadBytes = 64 * 1024"

definition recordValidationReject ::
  "('sk, 'pk) libp2p \<Rightarrow> TrustTracker option \<Rightarrow> string \<Rightarrow> string \<Rightarrow> string \<Rightarrow> TrustTracker option" where
  "recordValidationReject P trust forwardedBy senderID reason =
     (case trust of
        None \<Rightarrow> None
      | Some t \<Rightarrow>
        Some (RecordReject
          (if forwardedBy \<noteq> [] then peerIDString P forwardedBy
           else if senderID = [] then peerIDString P forwardedBy else senderID) reason t))"

text \<open>\<open>trust != nil && trust.IsQuarantined(pid)\<close>\<close>

definition quarantined_by :: "TrustTracker option \<Rightarrow> string \<Rightarrow> bool" where
  "quarantined_by trust pid = (case trust of None \<Rightarrow> False | Some t \<Rightarrow> IsQuarantined pid t)"

definition ValidateSignedMessage ::
  "('sk, 'pk) libp2p \<Rightarrow> Message option \<Rightarrow> string \<Rightarrow> TrustTracker option \<Rightarrow> TrustTracker option \<times> string option" where
  "ValidateSignedMessage P msg forwardedBy trust =
     (case msg of
        None \<Rightarrow> (recordValidationReject P trust forwardedBy [] ''nil_message'', Some ''nil message'')
      | Some m \<Rightarrow>
        (let reject = recordValidationReject P trust forwardedBy (mSenderID m) in
         if mID m = [] \<or> mSenderID m = [] \<or> mSenderName m = [] then
           (reject ''missing_required_fields'', Some ''missing required fields'')
         else if length (mContent m) > 8192 then
           (reject ''content_too_large'', Some ''content too large'')
         else if quarantined_by trust (mSenderID m) then
           (reject ''quarantined_peer'', Some ''quarantined peer'')
         else if mVectorClock m = None \<or> go_get 0 (clock_of m) (mSenderID m) = 0 then
           (reject ''missing_sender_clock'', Some ''missing sender vector clock'')
         else
           (case p_Decode P (mSenderID m) of
              Inl err \<Rightarrow> (reject ''bad_sender_id'', Some err)
            | Inr senderPID \<Rightarrow>
              (case SignableBytes m of
                 Inl err \<Rightarrow> (reject ''signable_bytes_failed'', Some err)
               | Inr data \<Rightarrow>
                 (case VerifySignature P senderPID data (mSignature m) of
                    Inl err \<Rightarrow> (reject ''bad_signature'', Some err)
                  | Inr valid \<Rightarrow>
                    if valid then (trust, None)
                    else (reject ''bad_signature'', Some ''bad signature''))))))"

text \<open>\<open>trust != nil\<close> and the rate check on a peer identifier; the flag says that the packet may pass.\<close>

definition rate_check :: "string \<Rightarrow> time \<Rightarrow> TrustTracker option \<Rightarrow> TrustTracker option \<times> bool" where
  "rate_check pid now trust = (case trust of None \<Rightarrow> (None, True)
     | Some t \<Rightarrow> (case AllowRate pid now now t of (t', ok) \<Rightarrow> (Some t', ok)))"

text \<open>The checks the branches \<open>sync_request\<close> and \<open>sync_response\<close> share; \<open>what\<close> and \<open>text\<close> name the
  message.\<close>

definition check_control ::
  "('sk, 'pk) libp2p \<Rightarrow> string \<Rightarrow> string \<Rightarrow> Control \<Rightarrow> string \<Rightarrow> time \<Rightarrow> TrustTracker option \<Rightarrow> TrustTracker option \<times> string option" where
  "check_control P what txt ctrl forwardedBy now trust =
     (let from = cFromPeerID ctrl; reject = (\<lambda>tr. recordValidationReject P tr forwardedBy from) in
      if from = [] \<or> cRequestID ctrl = [] then
        (reject trust (''malformed_'' @ what), Some (''malformed '' @ txt))
      else if forwardedBy \<noteq> [] \<and> from \<noteq> peerIDString P forwardedBy then
        (reject trust ''from_peer_mismatch'', Some (txt @ '' from_peer mismatch''))
      else
        (case rate_check (if forwardedBy \<noteq> [] then peerIDString P forwardedBy else from) now trust of
           (trust1, allowed) \<Rightarrow>
             if \<not> allowed then (trust1, Some ''rate_limited'')
             else if quarantined_by trust1 from then (reject trust1 ''quarantined_peer'', Some ''quarantined peer'')
             else (trust1, None)))"

text \<open>The loop over the messages of a sync response.\<close>

fun check_messages ::
  "('sk, 'pk) libp2p \<Rightarrow> Message option list \<Rightarrow> string \<Rightarrow> TrustTracker option \<Rightarrow> TrustTracker option \<times> string option" where
  "check_messages P [] forwardedBy trust = (trust, None)"
| "check_messages P (m # ms) forwardedBy trust =
     (case ValidateSignedMessage P m forwardedBy trust of
        (trust1, None) \<Rightarrow> check_messages P ms forwardedBy trust1
      | (trust1, Some err) \<Rightarrow> (trust1, Some (''invalid sync message: '' @ err)))"

type_synonym json_text = "string \<Rightarrow> string \<Rightarrow> json_error \<Rightarrow> string"

definition validateEnvelopeData ::
  "('sk, 'pk) libp2p \<Rightarrow> json_text \<Rightarrow> string \<Rightarrow> string \<Rightarrow> time \<Rightarrow> TrustTracker option \<Rightarrow> TrustTracker option \<times> string option" where
  "validateEnvelopeData P J data forwardedBy now trust =
     (let reject = recordValidationReject P trust forwardedBy [] in
      if data = [] then (reject ''empty_payload'', Some ''empty payload'')
      else if length data > maxAppPayloadBytes then
        (reject ''payload_too_large'', Some (''payload too large: '' @ decimal (length data)))
      else
        (case Peek_Unmarshal data of
           (_, Some err) \<Rightarrow> (reject ''invalid_json'', Some (J ''peek'' data err))
         | (kind, None) \<Rightarrow>
           if kind = ''activity'' then (trust, None)
           else if kind = ''sync_request'' then
             (case Control_Unmarshal data of
                (_, Some err) \<Rightarrow> (reject ''bad_sync_request'', Some (J ''Control'' data err))
              | (ctrl, None) \<Rightarrow> check_control P ''sync_request'' ''sync request'' ctrl forwardedBy now trust)
           else if kind = ''sync_response'' then
             (case Control_Unmarshal data of
                (_, Some err) \<Rightarrow> (reject ''bad_sync_response'', Some (J ''Control'' data err))
              | (ctrl, None) \<Rightarrow>
                (case check_control P ''sync_response'' ''sync response'' ctrl forwardedBy now trust of
                   (trust1, Some err) \<Rightarrow> (trust1, Some err)
                 | (trust1, None) \<Rightarrow> check_messages P (cMessages ctrl) forwardedBy trust1))
           else
             (case Message_Unmarshal data of
                (_, Some err) \<Rightarrow> (reject ''bad_chat_message'', Some (J ''Message'' data err))
              | (msg, None) \<Rightarrow>
                (case rate_check (if forwardedBy \<noteq> [] then peerIDString P forwardedBy else mSenderID msg) now trust of
                   (trust1, allowed) \<Rightarrow>
                     if \<not> allowed then (trust1, Some ''rate_limited'')
                     else ValidateSignedMessage P (Some msg) forwardedBy trust1))))"


section \<open>What passes\<close>

text \<open>The content of a successful \<open>ValidateSignedMessage\<close>: required fields, size, the sender's own
  counter, and a signature over everything else that verifies under the sender's key.\<close>

definition signed_by_sender :: "('sk, 'pk) libp2p \<Rightarrow> Message \<Rightarrow> bool" where
  "signed_by_sender P m =
     (mID m \<noteq> [] \<and> mSenderID m \<noteq> [] \<and> mSenderName m \<noteq> [] \<and> length (mContent m) \<le> 8192 \<and>
      mVectorClock m \<noteq> None \<and> go_get 0 (clock_of m) (mSenderID m) \<noteq> 0 \<and>
      (case p_Decode P (mSenderID m) of Inl _ \<Rightarrow> False
       | Inr pid \<Rightarrow> (case SignableBytes m of Inl _ \<Rightarrow> False
                   | Inr data \<Rightarrow> VerifySignature P pid data (mSignature m) = Inr True)))"

text \<open>The verdict alone: the recorded reason and the error, or nothing.\<close>

definition verdict :: "('sk, 'pk) libp2p \<Rightarrow> Message option \<Rightarrow> TrustTracker option \<Rightarrow> (string \<times> string) option" where
  "verdict P msg trust =
     (case msg of None \<Rightarrow> Some (''nil_message'', ''nil message'') | Some m \<Rightarrow>
        if mID m = [] \<or> mSenderID m = [] \<or> mSenderName m = [] then Some (''missing_required_fields'', ''missing required fields'')
        else if length (mContent m) > 8192 then Some (''content_too_large'', ''content too large'')
        else if quarantined_by trust (mSenderID m) then Some (''quarantined_peer'', ''quarantined peer'')
        else if mVectorClock m = None \<or> go_get 0 (clock_of m) (mSenderID m) = 0
          then Some (''missing_sender_clock'', ''missing sender vector clock'')
        else (case p_Decode P (mSenderID m) of Inl err \<Rightarrow> Some (''bad_sender_id'', err)
          | Inr pid \<Rightarrow> (case VerifySignature P pid (json_Render (signable_json m)) (mSignature m) of
                Inl err \<Rightarrow> Some (''bad_signature'', err)
              | Inr valid \<Rightarrow> if valid then None else Some (''bad_signature'', ''bad signature''))))"

abbreviation claimed_sender :: "Message option \<Rightarrow> string" where
  "claimed_sender msg \<equiv> (case msg of None \<Rightarrow> [] | Some m \<Rightarrow> mSenderID m)"

lemma Validate_verdict:
  "ValidateSignedMessage P msg fwd trust =
     (case verdict P msg trust of None \<Rightarrow> (trust, None)
      | Some (reason, err) \<Rightarrow> (recordValidationReject P trust fwd (claimed_sender msg) reason, Some err))"
proof (cases msg)
  case (Some m)
  show ?thesis
    unfolding ValidateSignedMessage_def verdict_def SignableBytes_def Let_def Some option.case sum.case
    by (cases "p_Decode P (mSenderID m)"; cases "VerifySignature P (projr (p_Decode P (mSenderID m))) (json_Render (signable_json m)) (mSignature m)")
      simp_all
qed (simp add: ValidateSignedMessage_def verdict_def)

lemma verdict_None:
  "verdict P msg trust = None \<longleftrightarrow> (\<exists>m. msg = Some m \<and> signed_by_sender P m \<and> \<not> quarantined_by trust (mSenderID m))"
proof (cases msg)
  case (Some m)
  show ?thesis
    unfolding verdict_def signed_by_sender_def SignableBytes_def Some option.case sum.case
    by (cases "p_Decode P (mSenderID m)"; cases "VerifySignature P (projr (p_Decode P (mSenderID m))) (json_Render (signable_json m)) (mSignature m)")
      auto
qed (simp add: verdict_def)

lemma Validate_accept:
  "snd (ValidateSignedMessage P msg fwd trust) = None \<longleftrightarrow>
     (\<exists>m. msg = Some m \<and> signed_by_sender P m \<and> \<not> quarantined_by trust (mSenderID m))"
  unfolding Validate_verdict verdict_None [symmetric] by (simp split: option.split)

lemma Validate_trust:
  "snd (ValidateSignedMessage P msg fwd trust) = None \<Longrightarrow> fst (ValidateSignedMessage P msg fwd trust) = trust"
  unfolding Validate_verdict by (cases "verdict P msg trust") auto

text \<open>A refusal is recorded once, against the forwarding peer if there is one.\<close>

lemma Validate_reject:
  assumes "snd (ValidateSignedMessage P msg fwd trust) \<noteq> None"
  shows "\<exists>reason. fst (ValidateSignedMessage P msg fwd trust) = recordValidationReject P trust fwd (claimed_sender msg) reason"
  using assms unfolding Validate_verdict by (cases "verdict P msg trust") auto

lemma check_messages_accept:
  "snd (check_messages P ms fwd trust) = None \<Longrightarrow>
     \<forall>msg \<in> set ms. \<exists>m. msg = Some m \<and> signed_by_sender P m \<and> \<not> quarantined_by trust (mSenderID m)"
proof (induction ms arbitrary: trust)
  case (Cons msg ms)
  obtain trust1 e where v: "ValidateSignedMessage P msg fwd trust = (trust1, e)" by (metis surj_pair)
  with Cons.prems have "e = None" by (cases e) simp_all
  then have "trust1 = trust" using v Validate_trust [of P msg fwd trust] by simp
  moreover have "\<exists>m. msg = Some m \<and> signed_by_sender P m \<and> \<not> quarantined_by trust (mSenderID m)"
    using Validate_accept [of P msg fwd trust] v \<open>e = None\<close> by simp
  ultimately show ?case using Cons v \<open>e = None\<close> by simp
qed simp

lemma check_control_accept:
  assumes "check_control P what txt ctrl fwd now trust = (trust', None)"
  shows "cFromPeerID ctrl \<noteq> []" "cRequestID ctrl \<noteq> []"
    "fwd \<noteq> [] \<Longrightarrow> cFromPeerID ctrl = peerIDString P fwd" "\<not> quarantined_by trust' (cFromPeerID ctrl)"
  using assms by (auto simp: check_control_def Let_def split: if_splits prod.splits)

text \<open>What the validator promises about an accepted payload.\<close>

definition accepted_payload :: "('sk, 'pk) libp2p \<Rightarrow> string \<Rightarrow> string \<Rightarrow> bool" where
  "accepted_payload P data fwd =
     (data \<noteq> [] \<and> length data \<le> 65536 \<and> snd (Peek_Unmarshal data) = None \<and>
      (let kind = fst (Peek_Unmarshal data); ctrl = fst (Control_Unmarshal data); msg = fst (Message_Unmarshal data) in
       if kind = ''activity'' then True
       else if kind = ''sync_request'' \<or> kind = ''sync_response'' then
         snd (Control_Unmarshal data) = None \<and> cFromPeerID ctrl \<noteq> [] \<and> cRequestID ctrl \<noteq> [] \<and>
         (fwd \<noteq> [] \<longrightarrow> cFromPeerID ctrl = peerIDString P fwd) \<and>
         (kind = ''sync_response'' \<longrightarrow> (\<forall>x \<in> set (cMessages ctrl). \<exists>m. x = Some m \<and> signed_by_sender P m))
       else snd (Message_Unmarshal data) = None \<and> signed_by_sender P msg))"

lemma validate_accept:
  assumes "snd (validateEnvelopeData P J data fwd now trust) = None"
  shows "accepted_payload P data fwd"
proof -
  obtain kind e where peek: "Peek_Unmarshal data = (kind, e)" by (metis surj_pair)
  obtain ctrl ce where ctrl: "Control_Unmarshal data = (ctrl, ce)" by (metis surj_pair)
  obtain msg me where msg: "Message_Unmarshal data = (msg, me)" by (metis surj_pair)
  have size: "data \<noteq> []" "length data \<le> 65536" "e = None"
    using assms by (auto simp: validateEnvelopeData_def Let_def peek maxAppPayloadBytes_def split: if_splits option.splits)
  note body = assms [unfolded validateEnvelopeData_def Let_def peek ctrl msg]
  show ?thesis
  proof (cases "kind = ''sync_request'' \<or> kind = ''sync_response''")
    case True
    define nm where "nm = (if kind = ''sync_request'' then (''sync_request'', ''sync request'') else (''sync_response'', ''sync response''))"
    obtain tr er where cc: "check_control P (fst nm) (snd nm) ctrl fwd now trust = (tr, er)" by (metis surj_pair)
    have "ce = None" using body True size by (auto simp: maxAppPayloadBytes_def split: option.splits if_splits)
    moreover have "er = None"
      using body True size cc \<open>ce = None\<close> by (auto simp: nm_def maxAppPayloadBytes_def split: option.splits if_splits)
    moreover have "snd (check_messages P (cMessages ctrl) fwd tr) = None" if "kind = ''sync_response''"
      using body that size cc \<open>ce = None\<close> \<open>er = None\<close> by (auto simp: nm_def maxAppPayloadBytes_def split: option.splits if_splits)
    ultimately show ?thesis
      using True size check_control_accept [of P "fst nm" "snd nm" ctrl fwd now trust tr] cc
        check_messages_accept [of P "cMessages ctrl" fwd tr]
      by (auto simp: accepted_payload_def Let_def peek ctrl)
  next
    case False
    then show ?thesis
      using body size Validate_accept [of P "Some msg" fwd]
      by (auto simp: accepted_payload_def Let_def peek msg maxAppPayloadBytes_def split: option.splits if_splits prod.splits)
  qed
qed


section \<open>Messages inside a sync response\<close>

definition ptr_wf :: "message_cell option \<Rightarrow> bool" where
  "ptr_wf c = (case c of None \<Rightarrow> True | Some c \<Rightarrow> cell_wf c)"

lemma decode_message_ptr_wf: "json_utf8 v \<Longrightarrow> ptr_wf cur \<Longrightarrow> ptr_wf (fst (decode_message_ptr v cur))"
  using decode_struct_wf [of v "case cur of None \<Rightarrow> (Message_zero, []) | Some c \<Rightarrow> c"] Message_zero_wf
  by (auto simp: decode_message_ptr_def ptr_wf_def split_beta split: json.splits option.splits)

definition control_wf :: "control_cell \<Rightarrow> bool" where
  "control_wf c = (list_all ptr_wf (fst (ccMessages c)) \<and> list_all ptr_wf (snd (ccMessages c)))"

lemma decode_control_wf:
  assumes "json_utf8 v" "control_wf c"
  shows "control_wf (fst (decode_control (k, v) c))"
proof -
  obtain xs sp e where d: "decode_slice decode_message_ptr None v (ccMessages c) = ((xs, sp), e)" by (metis surj_pair)
  have "list_all ptr_wf xs \<and> list_all ptr_wf sp"
    using decode_slice_all [OF assms(1), of ptr_wf "fst (ccMessages c)" "snd (ccMessages c)" None decode_message_ptr xs sp e]
      decode_message_ptr_wf d assms(2) by (simp add: control_wf_def ptr_wf_def)
  with assms(2) d show ?thesis by (simp add: decode_control_def control_wf_def split_beta)
qed

lemma decode_members_all:
  assumes "\<And>k v s. json_utf8 v \<Longrightarrow> Q s \<Longrightarrow> Q (fst (field (k, v) s))"
  shows "\<forall>(k, v) \<in> set ms. json_utf8 v \<Longrightarrow> Q s \<Longrightarrow> Q (fst (decode_members field ms s))"
proof (induction ms arbitrary: s)
  case (Cons x ms)
  obtain k v where x: "x = (k, v)" by (cases x)
  have "Q (fst (field (k, v) s))" using Cons.prems by (intro assms) (auto simp: x)
  with Cons show ?case by (simp add: x split_beta)
qed simp

lemma Control_messages_wf: "Some m \<in> set (cMessages (fst (Control_Unmarshal data))) \<Longrightarrow> message_wf m"
proof -
  have zero: "control_wf control_cell_zero" by (simp add: control_wf_def control_cell_zero_def)
  have "control_wf (fst (Unmarshal decode_control control_cell_zero data))"
  proof (cases "json_Parse data")
    case (Inl f)
    with zero show ?thesis by (simp add: Unmarshal_def)
  next
    case (Inr v)
    then have "json_utf8 v" by (rule json_Parse_utf8)
    then have "control_wf (fst (decode_struct decode_control v control_cell_zero))"
      using zero decode_members_all [of control_wf decode_control, OF decode_control_wf]
      by (cases v) (fastforce simp: decode_struct_def)+
    with Inr show ?thesis by (simp add: Unmarshal_def split_beta)
  qed
  then show "Some m \<in> set (cMessages (fst (Control_Unmarshal data))) \<Longrightarrow> message_wf m"
    by (auto simp: Control_Unmarshal_def split_beta control_of_cell_def control_wf_def list_all_iff ptr_wf_def cell_wf_def map_option_case
        split: option.splits)
qed

text \<open>Every message an accepted payload carries.\<close>

definition carried :: "string \<Rightarrow> Message set" where
  "carried data =
     (let kind = fst (Peek_Unmarshal data) in
      if kind = ''activity'' \<or> kind = ''sync_request'' then {}
      else if kind = ''sync_response'' then {m. Some m \<in> set (cMessages (fst (Control_Unmarshal data)))}
      else {fst (Message_Unmarshal data)})"

lemma carried_wf: "m \<in> carried data \<Longrightarrow> message_wf m"
  using Control_messages_wf Message_Unmarshal_wf by (auto simp: carried_def Let_def split: if_splits)

lemma carried_signed: "accepted_payload P data fwd \<Longrightarrow> m \<in> carried data \<Longrightarrow> signed_by_sender P m"
  by (fastforce simp: accepted_payload_def carried_def Let_def split: if_splits)


section \<open>An honest message on the wire\<close>

lemma signable_sorted: "signable_json (m\<lparr>mVectorClock := sorted_clock (mVectorClock m)\<rparr>) = signable_json m"
proof -
  have "clock_json (sorted_clock c) = clock_json c" for c
    by (cases c) (simp_all add: clock_json_def sorted_clock_def sort_key_id_if_sorted)
  then show ?thesis by (simp add: signable_json_def)
qed

lemma own_clock_sorted:
  assumes "clock_wf (mVectorClock m)"
  shows "go_get 0 (clock_of (m\<lparr>mVectorClock := sorted_clock (mVectorClock m)\<rparr>)) = go_get 0 (clock_of m)"
proof (cases "mVectorClock m")
  case (Some vc)
  with assms have "go_wf vc" by (simp add: clock_wf_def)
  then have "go_get 0 vc = go_get 0 (sort_key fst vc)" by (rule go_perm_lookup(3)) simp
  with Some show ?thesis by (simp add: clock_of_def sorted_clock_def)
qed (simp add: clock_of_def sorted_clock_def)

lemma signed_sorted:
  assumes "clock_wf (mVectorClock m)"
  shows "signed_by_sender P (m\<lparr>mVectorClock := sorted_clock (mVectorClock m)\<rparr>) = signed_by_sender P m"
proof -
  let ?m = "m\<lparr>mVectorClock := sorted_clock (mVectorClock m)\<rparr>"
  have "SignableBytes ?m = SignableBytes m" by (simp add: SignableBytes_def signable_sorted)
  moreover have "mVectorClock ?m = None \<longleftrightarrow> mVectorClock m = None" by (simp add: sorted_clock_def)
  ultimately show ?thesis unfolding signed_by_sender_def own_clock_sorted [OF assms] by (simp cong: sum.case_cong)
qed

lemma fold_name_envelope [simp]:
  "fold_name ''_kind'' = ''_KIND''" "fold_name ''name'' = ''NAME''" "fold_name ''action'' = ''ACTION''" "fold_name ''active'' = ''ACTIVE''"
  "fold_name ''request_id'' = ''REQUEST_ID''" "fold_name ''from_peer_id'' = ''FROM_PEER_ID''" "fold_name ''known_ids'' = ''KNOWN_IDS''"
  "fold_name ''messages'' = ''MESSAGES''"
  by code_simp+

lemma Peek_message:
  assumes "message_wf m"
  shows "Peek_Unmarshal (Message_Marshal m) = ([], None)"
proof -
  have "json_fits json_max_depth (message_json m)"
    using assms unfolding max_depth_SucSuc by (simp only: message_wf_def json_fits_message)
  then have "json_Parse (Message_Marshal m) = Inr (message_json m)"
    by (simp add: Message_Marshal_def json_Parse_Render)
  then show ?thesis
    by (cases "mMentions m = []"; cases "mMentionAll m")
      (simp_all add: Peek_Unmarshal_def Unmarshal_def message_json_def decode_struct_def omitempty_def decode_kind_def is_field_def)
qed

lemma Message_Marshal_nonempty: "Message_Marshal m \<noteq> []"
  by (simp add: Message_Marshal_def message_json_def)

lemma rate_check_quarantine:
  "rate_check p now trust = (trust', True) \<Longrightarrow> quarantined_by trust' q = quarantined_by trust q"
  by (cases trust) (auto simp: rate_check_def AllowRate_def Let_def quarantined_by_def IsQuarantined_def split: if_splits)

section \<open>Who is blamed\<close>

lemma recordValidationReject_forwarder:
  "fwd \<noteq> [] \<Longrightarrow> recordValidationReject P (Some t) fwd s r = Some (RecordReject (p_String P fwd) r t)"
  by (simp add: recordValidationReject_def peerIDString_def)

lemma quarantine_stays: "IsQuarantined x t \<Longrightarrow> IsQuarantined x (RecordReject p r t)"
  using RecordReject_grows [of t p r] by (auto simp: IsQuarantined_def trust_grows_def split: if_splits)

lemma forwarding_quarantined:
  assumes "IsQuarantined x t" and "fwd \<noteq> []" and "mSenderID m = x"
  obtains r where "fst (ValidateSignedMessage P (Some m) fwd (Some t)) = Some (RecordReject (p_String P fwd) r t)"
proof -
  have "verdict P (Some m) (Some t) \<noteq> None" using assms by (simp add: verdict_None quarantined_by_def)
  then show ?thesis
    using that recordValidationReject_forwarder [OF assms(2), of P t] by (auto simp: Validate_verdict)
qed

lemma three_rejects:
  assumes "trust_inv t" and "p \<noteq> []"
  shows "IsQuarantined p (RecordReject p r3 (RecordReject p r2 (RecordReject p r1 t)))"
proof -
  let ?t = "RecordReject p r3 (RecordReject p r2 (RecordReject p r1 t))"
  have inv: "trust_inv ?t" by (intro RecordReject_inv assms(1))
  have "3 \<le> go_get 0 (tInvalid ?t) p"
    using assms by (simp add: RecordReject_def Let_def count_invalid_simps go_map_simps trust_inv_def)
  then show ?thesis using inv assms(2) by (simp add: trust_inv_def QuarantineThreshold_def IsQuarantined_def)
qed

lemma honest_accept:
  assumes "message_wf m" and "signed_by_sender P m" and "length (Message_Marshal m) \<le> 65536"
    and "\<not> quarantined_by trust (mSenderID m)"
    and "rate_check (if fwd \<noteq> [] then peerIDString P fwd else mSenderID m) now trust = (trust', True)"
  shows "validateEnvelopeData P J (Message_Marshal m) fwd now trust = (trust', None) \<and>
    carried (Message_Marshal m) = {m\<lparr>mVectorClock := sorted_clock (mVectorClock m)\<rparr>}"
proof -
  let ?m = "m\<lparr>mVectorClock := sorted_clock (mVectorClock m)\<rparr>"
  have "signed_by_sender P ?m"
    using assms(1,2) signed_sorted [of m P] by (simp add: message_wf_def)
  moreover have "\<not> quarantined_by trust' (mSenderID ?m)"
    using rate_check_quarantine [OF assms(5)] assms(4) by simp
  ultimately have "verdict P (Some ?m) trust' = None" by (simp add: verdict_None)
  then have "ValidateSignedMessage P (Some ?m) fwd trust' = (trust', None)"
    by (simp add: Validate_verdict)
  then show ?thesis
    using assms(3,5)
    by (cases "fwd = []") (simp_all add: validateEnvelopeData_def Peek_message [OF assms(1)] Message_Unmarshal_Marshal [OF assms(1)]
        Message_Marshal_nonempty maxAppPayloadBytes_def carried_def)
qed

section \<open>Properties\<close>

subsection \<open>Samples for the witnesses\<close>

text \<open>A library in which the only valid signature of a key is its name, and only on one message.\<close>

definition wire_sample :: Message where
  "wire_sample = sample_message\<lparr>mSignature := hex_EncodeToString ''alice''\<rparr>"

definition wire_lib :: "(string, string) libp2p" where
  "wire_lib = \<lparr>p_GenerateEd25519Key = Inr (''k'', ''k''), p_IDFromPublicKey = Inr, p_Sign = (\<lambda>k d. Inr k),
     p_ExtractPublicKey = Inr, p_Verify = (\<lambda>k d s. Inr (s = k \<and> Inr d = SignableBytes sample_message)),
     p_String = (\<lambda>p. p), p_Decode = Inr\<rparr>"

lemma wire_sample_json: "signable_json wire_sample = signable_json sample_message"
  by (simp add: wire_sample_def signable_json_def)

lemma wire_sample_wf: "message_wf wire_sample"
proof -
  have "hex_EncodeToString ''alice'' = ''616c696365''" by code_simp
  then have "valid_utf8 (hex_EncodeToString ''alice'')" by simp
  then show ?thesis unfolding wire_sample_def by (rule message_wf_update(9) [OF sample_message_wf(1)])
qed

lemma wire_sample_signed: "signed_by_sender wire_lib wire_sample"
proof -
  have "SignableBytes wire_sample = SignableBytes sample_message"
    by (simp add: SignableBytes_def wire_sample_json)
  moreover have "mSignature wire_sample = hex_EncodeToString ''alice''" by (simp add: wire_sample_def)
  moreover have "go_get 0 (clock_of wire_sample) (mSenderID wire_sample) = 1" "mVectorClock wire_sample \<noteq> None"
    "mID wire_sample = ''m1''" "mSenderID wire_sample = ''alice''" "mSenderName wire_sample = ''Alice''" "length (mContent wire_sample) = 10"
    by (simp_all add: wire_sample_def sample_message_def clock_of_def go_get_def)
  ultimately show ?thesis
    by (simp add: signed_by_sender_def VerifySignature_def hex_Decode_Encode wire_lib_def SignableBytes_def)
qed

lemma wire_sample_short: "length (Message_Marshal wire_sample) \<le> 65536"
proof -
  have "length (Message_Marshal wire_sample) = 193" by code_simp
  then show ?thesis by simp
qed

lemma wire_sample_accepted:
  "validateEnvelopeData wire_lib J (Message_Marshal wire_sample) ''bob'' 5 None = (None, None)"
  "carried (Message_Marshal wire_sample) = {wire_sample\<lparr>mVectorClock := sorted_clock (mVectorClock wire_sample)\<rparr>}"
  using honest_accept [OF wire_sample_wf wire_sample_signed wire_sample_short, of None "''bob''" 5 None J]
  by (simp_all add: quarantined_by_def rate_check_def)

lemma wire_sample_sender: "mSenderID wire_sample = ''alice''"
  by (simp add: wire_sample_def sample_message_def)

text \<open>C5. Whatever the validator accepts was checked: the payload is not empty and at most 64 KiB, it is
  JSON of the right shape, a control message names the peer that forwarded it, and every chat message
  in it -- alone or inside a sync response -- has its required fields, a positive own counter and a
  signature that verifies under the key of its claimed sender.\<close>

theorem accepted_payloads_are_checked:
  assumes "validateEnvelopeData P J data fwd now trust = (trust', None)"
  shows "accepted_payload P data fwd \<and> (\<forall>m \<in> carried data. message_wf m \<and> signed_by_sender P m)"
  using validate_accept [of P J data fwd now trust] assms carried_wf carried_signed by fastforce

theorem accepted_payloads_are_checked_witness:
  "signed_by_sender wire_lib (wire_sample\<lparr>mVectorClock := sorted_clock (mVectorClock wire_sample)\<rparr>)"
  using accepted_payloads_are_checked [OF wire_sample_accepted(1)] by (simp add: wire_sample_accepted(2))

text \<open>C6. Accepted messages are authentic.  Let \<open>seen\<close> be the pairs of bytes and signature text anybody has come up with -- not all
  pairs that verify in theory: a real key has signatures on any data -- and suppose that among these the ones that verify
  under a peer's key are on the signable bytes of messages the peer issued.  Then every accepted message that claims this
  sender, its signature having been seen, agrees with an issued one in every field but the signature: a message that was
  changed on its way, or invented, is not accepted.\<close>

theorem accepted_messages_are_authentic:
  assumes "validateEnvelopeData P J data fwd now trust = (trust', None)"
    and "m \<in> carried data" and "p_Decode P (mSenderID m) = Inr pid"
    and "\<forall>bytes. SignableBytes m = Inr bytes \<longrightarrow> (bytes, mSignature m) \<in> seen"
    and "\<forall>(bytes, sig) \<in> seen. VerifySignature P pid bytes sig = Inr True \<longrightarrow> (\<exists>m0 \<in> issued. SignableBytes m0 = Inr bytes)"
    and "\<forall>m0 \<in> issued. message_wf m0"
  shows "\<exists>m0 \<in> issued. same_signed_part m0 m"
proof -
  have "accepted_payload P data fwd" using validate_accept [of P J data fwd now trust] assms(1) by simp
  then have "signed_by_sender P m" using assms(2) by (rule carried_signed)
  then obtain bytes where "SignableBytes m = Inr bytes" "VerifySignature P pid bytes (mSignature m) = Inr True"
    using assms(3) by (auto simp: signed_by_sender_def split: sum.splits)
  with assms(4,5) obtain m0 where "m0 \<in> issued" "SignableBytes m0 = SignableBytes m" by fastforce
  with SignableBytes_eq assms(2,6) carried_wf show ?thesis by metis
qed

text \<open>An ordinary key pair, whose signatures exist for any data: the name of the key and a checksum, the last letters of the data.
  A forged signature was tried, too.\<close>

definition checksum :: "string \<Rightarrow> string" where
  "checksum d = take 4 (rev d)"

definition mac_lib :: "(string, string) libp2p" where
  "mac_lib = toy\<lparr>p_Sign := \<lambda>k d. Inr (k @ checksum d), p_Verify := \<lambda>k d s. Inr (s = k @ checksum d)\<rparr>"

lemma mac_key_pair: "key_pair mac_lib (toy_id n)"
  by (simp add: key_pair_def mac_lib_def toy_def toy_id_def)

definition mac_sample :: Message where
  "mac_sample = sample_message\<lparr>mSignature := hex_EncodeToString (''alice'' @ checksum (projr (SignableBytes sample_message)))\<rparr>"

lemma mac_sample_accepted:
  "SignableBytes (mac_sample\<lparr>mVectorClock := sorted_clock (mVectorClock mac_sample)\<rparr>) = SignableBytes sample_message"
  "validateEnvelopeData mac_lib J (Message_Marshal mac_sample) ''bob'' 5 None = (None, None)"
  "carried (Message_Marshal mac_sample) = {mac_sample\<lparr>mVectorClock := sorted_clock (mVectorClock mac_sample)\<rparr>}"
proof -
  have bytes: "SignableBytes mac_sample = SignableBytes sample_message" "SignableBytes sample_message = Inr (projr (SignableBytes sample_message))"
    by (simp_all add: mac_sample_def SignableBytes_def signable_json_def)
  then show "SignableBytes (mac_sample\<lparr>mVectorClock := sorted_clock (mVectorClock mac_sample)\<rparr>) = SignableBytes sample_message"
    by (simp add: SignableBytes_def signable_sorted)
  have "valid_utf8 (hex_EncodeToString (''alice'' @ checksum (projr (SignableBytes sample_message))))" by code_simp
  then have wf: "message_wf mac_sample"
    unfolding mac_sample_def by (rule message_wf_update(9) [OF sample_message_wf(1)])
  have "length (Message_Marshal mac_sample) = 201" by code_simp
  then have short: "length (Message_Marshal mac_sample) \<le> 65536" by simp
  obtain d where d: "SignableBytes sample_message = Inr d" by (simp add: SignableBytes_def)
  have "VerifySignature mac_lib ''alice'' d (hex_EncodeToString (''alice'' @ checksum d)) = Inr True" for d
    unfolding VerifySignature_def hex_Decode_Encode by (simp add: mac_lib_def toy_def)
  moreover have "mSignature mac_sample = hex_EncodeToString (''alice'' @ checksum (projr (SignableBytes sample_message)))"
    by (simp add: mac_sample_def)
  moreover have "go_get 0 (clock_of mac_sample) (mSenderID mac_sample) = 1" "mVectorClock mac_sample \<noteq> None"
    "mID mac_sample = ''m1''" "mSenderID mac_sample = ''alice''" "mSenderName mac_sample = ''Alice''" "length (mContent mac_sample) = 10"
    "p_Decode mac_lib ''alice'' = Inr ''alice''"
    by (simp_all add: mac_sample_def sample_message_def clock_of_def go_get_def mac_lib_def toy_def)
  ultimately have signed: "signed_by_sender mac_lib mac_sample"
    using bytes d by (simp add: signed_by_sender_def)
  show "validateEnvelopeData mac_lib J (Message_Marshal mac_sample) ''bob'' 5 None = (None, None)"
    "carried (Message_Marshal mac_sample) = {mac_sample\<lparr>mVectorClock := sorted_clock (mVectorClock mac_sample)\<rparr>}"
    using honest_accept [OF wf signed short, of None "''bob''" 5 None J]
    by (simp_all add: quarantined_by_def rate_check_def)
qed

theorem accepted_messages_are_authentic_witness:
  "key_pair mac_lib (toy_id ''alice'') \<and>
   (\<exists>m0 \<in> {sample_message}. same_signed_part m0 (mac_sample\<lparr>mVectorClock := sorted_clock (mVectorClock mac_sample)\<rparr>))"
proof (intro conjI mac_key_pair)
  let ?m = "mac_sample\<lparr>mVectorClock := sorted_clock (mVectorClock mac_sample)\<rparr>"
  let ?seen = "{(projr (SignableBytes sample_message), mSignature mac_sample), (''forged'', ''616c69636500'')}"
  have "?m \<in> carried (Message_Marshal mac_sample)" by (simp add: mac_sample_accepted(3))
  moreover have "p_Decode mac_lib (mSenderID ?m) = Inr ''alice''" by (simp add: mac_lib_def toy_def mac_sample_def sample_message_def)
  moreover have "\<forall>bytes. SignableBytes ?m = Inr bytes \<longrightarrow> (bytes, mSignature ?m) \<in> ?seen"
    unfolding mac_sample_accepted(1) by (auto simp: mac_sample_def)
  moreover have "VerifySignature mac_lib ''alice'' ''forged'' ''616c69636500'' \<noteq> Inr True" by code_simp
  then have "\<forall>(bytes, sig) \<in> ?seen. VerifySignature mac_lib ''alice'' bytes sig = Inr True \<longrightarrow> (\<exists>m0 \<in> {sample_message}. SignableBytes m0 = Inr bytes)"
    by (simp add: SignableBytes_def)
  ultimately show "\<exists>m0 \<in> {sample_message}. same_signed_part m0 ?m"
    using accepted_messages_are_authentic [OF mac_sample_accepted(2), of ?m "''alice''" ?seen "{sample_message}"] by simp
qed

text \<open>C23. An honest message gets through: the published bytes of a well-formed, correctly signed message of
  at most 64 KiB are accepted by every peer that has not quarantined the sender and whose rate limit
  the forwarder has not exhausted.\<close>

theorem honest_messages_are_accepted:
  assumes "message_wf m" and "signed_by_sender P m" and "length (Message_Marshal m) \<le> 65536"
    and "\<not> quarantined_by trust (mSenderID m)"
    and "rate_check (if fwd \<noteq> [] then peerIDString P fwd else mSenderID m) now trust = (trust', True)"
  shows "validateEnvelopeData P J (Message_Marshal m) fwd now trust = (trust', None) \<and>
    carried (Message_Marshal m) = {m\<lparr>mVectorClock := sorted_clock (mVectorClock m)\<rparr>}"
  using assms by (rule honest_accept)

theorem honest_messages_are_accepted_witness:
  "snd (validateEnvelopeData wire_lib (\<lambda>_ _ _. []) (Message_Marshal wire_sample) ''bob'' 5 (Some NewTrustTracker)) = None"
proof -
  let ?t = "Some (fst (AllowRate ''bob'' 5 5 NewTrustTracker))"
  have "snd (AllowRate ''bob'' 5 5 NewTrustTracker)"
    using AllowRate_bucket(1) [of 5 "''bob''" "''bob''" 5 NewTrustTracker]
    by (simp add: NewTrustTracker_def refill_def RateLimitBurst_def)
  then have "rate_check (if ''bob'' \<noteq> [] then peerIDString wire_lib ''bob'' else mSenderID wire_sample) 5 (Some NewTrustTracker) = (?t, True)"
    by (simp add: rate_check_def peerIDString_def wire_lib_def split_beta)
  moreover have "\<not> quarantined_by (Some NewTrustTracker) (mSenderID wire_sample)"
    by (simp add: quarantined_by_def IsQuarantined_def NewTrustTracker_def)
  ultimately show ?thesis
    using honest_messages_are_accepted [OF wire_sample_wf wire_sample_signed wire_sample_short] by simp
qed

text \<open>C39. Quarantine spreads to honest forwarders.  A refusal is counted against the peer that forwarded
  the message, not against its author: after forwarding three messages of a sender this peer has
  quarantined -- correctly signed or not -- the forwarder is quarantined itself, and its own messages
  are refused from then on.\<close>

theorem quarantine_spreads_to_forwarders:
  assumes "trust_inv t" and "IsQuarantined x t" and "fwd \<noteq> []" and "p_String P fwd \<noteq> []"
    and "mSenderID m1 = x" and "mSenderID m2 = x" and "mSenderID m3 = x"
    and "mSenderID own = p_String P fwd"
  shows "snd (ValidateSignedMessage P (Some own) fwd
    (fst (ValidateSignedMessage P (Some m3) fwd
      (fst (ValidateSignedMessage P (Some m2) fwd
        (fst (ValidateSignedMessage P (Some m1) fwd (Some t)))))))) \<noteq> None"
proof -
  let ?p = "p_String P fwd"
  obtain r1 where 1: "fst (ValidateSignedMessage P (Some m1) fwd (Some t)) = Some (RecordReject ?p r1 t)"
    using assms by (metis forwarding_quarantined)
  obtain r2 where 2: "fst (ValidateSignedMessage P (Some m2) fwd (Some (RecordReject ?p r1 t))) =
      Some (RecordReject ?p r2 (RecordReject ?p r1 t))"
    using assms by (metis forwarding_quarantined quarantine_stays)
  obtain r3 where 3: "fst (ValidateSignedMessage P (Some m3) fwd (Some (RecordReject ?p r2 (RecordReject ?p r1 t)))) =
      Some (RecordReject ?p r3 (RecordReject ?p r2 (RecordReject ?p r1 t)))"
    using assms by (metis forwarding_quarantined quarantine_stays)
  show ?thesis
    unfolding 1 2 3 using three_rejects [OF assms(1,4)] assms(8) by (simp add: Validate_accept quarantined_by_def)
qed

theorem quarantine_spreads_to_forwarders_witness:
  "\<exists>t. IsQuarantined ''alice'' t \<and> \<not> IsQuarantined ''bob'' t \<and>
    snd (ValidateSignedMessage wire_lib (Some (wire_sample\<lparr>mSenderID := ''bob''\<rparr>)) ''bob''
      (fst (ValidateSignedMessage wire_lib (Some wire_sample) ''bob''
        (fst (ValidateSignedMessage wire_lib (Some wire_sample) ''bob''
          (fst (ValidateSignedMessage wire_lib (Some wire_sample) ''bob'' (Some t)))))))) \<noteq> None"
proof -
  let ?t = "RecordReject ''alice'' ''x'' (RecordReject ''alice'' ''x'' (RecordReject ''alice'' ''x'' NewTrustTracker))"
  have q: "IsQuarantined ''alice'' ?t" by (rule three_rejects [OF NewTrustTracker_inv]) simp
  have nq: "\<not> IsQuarantined ''bob'' ?t"
    by (simp add: IsQuarantined_def RecordReject_def Let_def count_invalid_simps NewTrustTracker_def)
  have inv: "trust_inv ?t" by (intro RecordReject_inv NewTrustTracker_inv)
  have "snd (ValidateSignedMessage wire_lib (Some (wire_sample\<lparr>mSenderID := ''bob''\<rparr>)) ''bob''
      (fst (ValidateSignedMessage wire_lib (Some wire_sample) ''bob''
        (fst (ValidateSignedMessage wire_lib (Some wire_sample) ''bob''
          (fst (ValidateSignedMessage wire_lib (Some wire_sample) ''bob'' (Some ?t)))))))) \<noteq> None"
    by (rule quarantine_spreads_to_forwarders [OF inv q]) (simp_all add: wire_sample_sender wire_lib_def)
  with q nq show ?thesis by blast
qed

end
