(* ===== verification/PubSub.thy ===== *)
theory PubSub
  imports Validate
begin

text \<open>
  \<open>internal/p2p/pubsub.go\<close>: a chat room on a GossipSub topic -- its validator, its read loop, what it
  publishes, and the security trace shown for every packet.

  Go channels are lists with a capacity; a \<open>select\<close> with a default case drops what does not fit
  (\<open>offer\<close>).  \<open>crPublished\<close> logs the payloads handed to \<open>topic.Publish\<close>.  The validator and the read
  loop run concurrently: \<open>room_step\<close> interleaves them, with the subscription's queue between them.
  A step of the read loop returns \<open>None\<close> where the Go code would dereference a nil pointer.
  \<open>quote\<close> stands for \<open>fmt\<close>'s \<open>%q\<close>, which needs Unicode tables.
\<close>

section \<open>State\<close>

record SecurityTraceEvent =
  steFromPeer :: string
  steKind :: string
  steVerdict :: string
  steReason :: string
  stePacketSummary :: string
  steSteps :: "string list"

record ChatRoom =
  crTopicName :: string
  crSelfID :: string
  crMessages :: "Message list"
  crActivities :: "Activity list"
  crControls :: "Control list"
  crRejected :: "RejectEvent list"
  crTrace :: "SecurityTraceEvent list"
  crTrust :: TrustTracker
  crPublished :: "string list"

definition JoinChatRoom :: "('sk, 'pk) libp2p \<Rightarrow> string \<Rightarrow> string \<Rightarrow> ChatRoom" where
  "JoinChatRoom P hostID roomCode =
     \<lparr>crTopicName = ''dmapc-room-'' @ roomCode, crSelfID = p_String P hostID, crMessages = [],
      crActivities = [], crControls = [], crRejected = [], crTrace = [], crTrust = NewTrustTracker, crPublished = []\<rparr>"

definition offer :: "nat \<Rightarrow> 'a \<Rightarrow> 'a list \<Rightarrow> 'a list" where
  "offer cap x ch = (if length ch < cap then ch @ [x] else ch)"

section \<open>Publishing\<close>

definition Publish :: "Message \<Rightarrow> ChatRoom \<Rightarrow> ChatRoom" where
  "Publish msg cr = cr\<lparr>crPublished := crPublished cr @ [Message_Marshal msg]\<rparr>"

definition PublishActivity :: "string \<Rightarrow> string \<Rightarrow> bool \<Rightarrow> ChatRoom \<Rightarrow> ChatRoom" where
  "PublishActivity name action active cr =
     cr\<lparr>crPublished := crPublished cr @
       [json_Render (activity_json \<lparr>aKind = ''activity'', aName = name, aAction = action, aActive = active\<rparr>)]\<rparr>"

definition PublishSyncRequest :: "string \<Rightarrow> string \<Rightarrow> string list \<Rightarrow> ChatRoom \<Rightarrow> ChatRoom" where
  "PublishSyncRequest requestID fromPeerID knownIDs cr =
     cr\<lparr>crPublished := crPublished cr @
       [json_Render (control_json (Control_zero\<lparr>cKind := ''sync_request'', cRequestID := requestID,
          cFromPeerID := fromPeerID, cKnownIDs := knownIDs\<rparr>))]\<rparr>"

definition PublishSyncResponse :: "string \<Rightarrow> string \<Rightarrow> Message list \<Rightarrow> ChatRoom \<Rightarrow> ChatRoom" where
  "PublishSyncResponse requestID fromPeerID messages cr =
     cr\<lparr>crPublished := crPublished cr @
       [json_Render (control_json (Control_zero\<lparr>cKind := ''sync_response'', cRequestID := requestID,
          cFromPeerID := fromPeerID, cMessages := map Some messages\<rparr>))]\<rparr>"

section \<open>The security trace\<close>

definition shortID :: "string \<Rightarrow> string" where
  "shortID i = (if length i \<le> 8 then i else take 8 i)"

definition shortHash :: "string \<Rightarrow> string" where
  "shortHash h = (if h = [] then ''<empty>'' else if length h \<le> 12 then h else take 12 h)"

definition truncate_text :: "string \<Rightarrow> nat \<Rightarrow> string" where
  "truncate_text s m = (if length s \<le> m then s else take m s @ ''...'')"

definition clockSummary :: "u64 gomap \<Rightarrow> string \<Rightarrow> string" where
  "clockSummary clk senderID =
     (if clk = [] then ''{}''
      else ''{sender:'' @ decimal (unat (go_get 0 clk senderID)) @ '' entries:'' @ decimal (length clk) @ ''}'')"

definition reject_reasons :: "string list" where
  "reject_reasons = [''bad_signature'', ''from_peer_mismatch'', ''invalid_json'', ''missing_sender_clock'',
     ''rate_limited'', ''quarantined'', ''malformed'', ''payload too large'', ''empty payload'']"

definition normalizeRejectReason :: "string option \<Rightarrow> string" where
  "normalizeRejectReason err =
     (case err of None \<Rightarrow> [] | Some msg \<Rightarrow>
       (case find (\<lambda>reason. Contains msg reason \<or> Contains (ReplaceAll msg '' '' ''_'') reason) reject_reasons of
          Some reason \<Rightarrow> reason
        | None \<Rightarrow>
          if Contains msg ''bad signature'' then ''bad_signature''
          else if Contains msg ''invalid character'' then ''invalid_json''
          else truncate_text msg 48))"

definition appendTraceVerdict :: "SecurityTraceEvent \<Rightarrow> SecurityTraceEvent" where
  "appendTraceVerdict tr =
     (if steVerdict tr = ''drop'' then
        tr\<lparr>steSteps := steSteps tr @ [''[DROP] reason = '' @ steReason tr, ''[RESULT] not inserted into ledger / UI / AI history'']\<rparr>
      else tr\<lparr>steSteps := steSteps tr @ [''[RESULT] validator accepted packet for application processing'']\<rparr>)"

definition buildSecurityTrace ::
  "('sk, 'pk) libp2p \<Rightarrow> (string \<Rightarrow> string) \<Rightarrow> (string \<Rightarrow> string) \<Rightarrow> string \<Rightarrow> string \<Rightarrow> string option \<Rightarrow> SecurityTraceEvent" where
  "buildSecurityTrace P sha256 quote data from err =
     (let from8 = shortPeerID (peerIDString P from);
          tr0 = \<lparr>steFromPeer = from8, steKind = [],
            steVerdict = (if err \<noteq> None then ''drop'' else ''accept''),
            steReason = (if err \<noteq> None then normalizeRejectReason err else []), stePacketSummary = [],
            steSteps = [''[RECV] packet from '' @ from8 @ '' ('' @ decimal (length data) @ '' bytes)'']\<rparr>
      in case Peek_Unmarshal data of
        (_, Some _) \<Rightarrow>
          tr0\<lparr>steKind := ''malformed'', stePacketSummary := ''invalid JSON payload'',
             steSteps := steSteps tr0 @ [''[PARSE] JSON decoding failed'', ''[DROP] reason = '' @ steReason tr0,
               ''[RESULT] not inserted into ledger / UI / AI history'']\<rparr>
      | (kind, None) \<Rightarrow>
        if kind = ''activity'' then
          tr0\<lparr>steKind := ''activity'', stePacketSummary := ''activity event'',
             steSteps := steSteps tr0 @ [''[PARSE] decoded as activity event'', ''[RESULT] accepted as lightweight presence event'']\<rparr>
        else if kind = ''sync_request'' \<or> kind = ''sync_response'' then
          (let ctrl = fst (Control_Unmarshal data);
               n = decimal (length (cMessages ctrl))
           in appendTraceVerdict (tr0\<lparr>steKind := kind,
                stePacketSummary := kind @ '' request_id='' @ shortID (cRequestID ctrl) @ '' from_peer_id='' @
                  shortPeerID (cFromPeerID ctrl) @ '' messages='' @ n,
                steSteps := steSteps tr0 @
                  [''[PARSE] decoded as '' @ kind @ '' control message'',
                   ''[BIND] from_peer_id='' @ shortPeerID (cFromPeerID ctrl) @ '', forwarding peer='' @ from8] @
                  (if kind = ''sync_response''
                   then [''[VERIFY] re-validating '' @ n @ '' signed message(s) inside sync response''] else [])\<rparr>))
        else
          (case Message_Unmarshal data of
             (_, Some _) \<Rightarrow>
               appendTraceVerdict (tr0\<lparr>steKind := ''bad_chat_message'', stePacketSummary := ''malformed chat message'',
                 steSteps := steSteps tr0 @ [''[PARSE] chat JSON shape invalid'']\<rparr>)
           | (msg, None) \<Rightarrow>
               appendTraceVerdict (tr0\<lparr>steKind := ''chat'',
                 stePacketSummary := ''chat sender='' @ shortPeerID (mSenderID msg) @ '' name='' @ mSenderName msg @
                   '' content='' @ quote (truncate_text (mContent msg) 70) @ '' clock='' @ clockSummary (clock_of msg) (mSenderID msg),
                 steSteps := steSteps tr0 @
                   [''[PARSE] decoded as chat message'',
                    ''[FIELDS] id='' @ shortID (mID msg) @ '' sender_id='' @ shortPeerID (mSenderID msg) @
                      '' prev_hash='' @ shortHash (mPrevHash msg)] @
                   (case SignableBytes msg of
                      Inr signable \<Rightarrow> [''[HASH] signable payload SHA-256 = '' @ take 16 (hex_EncodeToString (sha256 signable))]
                    | Inl e \<Rightarrow> [''[HASH] failed to build signable payload: '' @ e]) @
                   (if steReason tr0 = ''missing_sender_clock''
                      then [''[CLOCK] sender'' @ [CHR 0x27] @ ''s own vector-clock entry is missing or zero'']
                    else if steReason tr0 = ''bad_signature''
                      then [''[VERIFY] Ed25519 signature check failed against modified signable payload'']
                    else if steVerdict tr0 = ''accept''
                      then [''[VERIFY] Ed25519 signature matches sender_id public key'']
                    else [])\<rparr>)))"

definition emitSecurityTrace :: "SecurityTraceEvent \<Rightarrow> ChatRoom \<Rightarrow> ChatRoom" where
  "emitSecurityTrace tr cr = (if steSteps tr = [] then cr else cr\<lparr>crTrace := offer 128 tr (crTrace cr)\<rparr>)"

text \<open>The closure registered with GossipSub; true means \<open>ValidationAccept\<close>.\<close>

definition validator ::
  "('sk, 'pk) libp2p \<Rightarrow> json_text \<Rightarrow> (string \<Rightarrow> string) \<Rightarrow> (string \<Rightarrow> string) \<Rightarrow> string \<Rightarrow> string \<Rightarrow> time \<Rightarrow> ChatRoom \<Rightarrow> ChatRoom \<times> bool" where
  "validator P J sha256 quote data from now cr =
     (case validateEnvelopeData P J data from now (Some (crTrust cr)) of
        (trust, Some err) \<Rightarrow>
          (emitSecurityTrace (buildSecurityTrace P sha256 quote data from (Some err)) (cr\<lparr>crTrust := the trust\<rparr>), False)
      | (trust, None) \<Rightarrow>
          (let tr = buildSecurityTrace P sha256 quote data from None; cr1 = cr\<lparr>crTrust := the trust\<rparr>
           in (if steKind tr \<noteq> ''activity'' then emitSecurityTrace tr cr1 else cr1, True)))"

section \<open>The read loop\<close>

definition recordRejected :: "string \<Rightarrow> string \<Rightarrow> ChatRoom \<Rightarrow> ChatRoom" where
  "recordRejected peerID reason cr =
     cr\<lparr>crRejected := offer 32 \<lparr>rePeerID = peerID, reReason = reason\<rparr> (crRejected cr)\<rparr>"

definition verifyMessage :: "('sk, 'pk) libp2p \<Rightarrow> Message option \<Rightarrow> ChatRoom \<Rightarrow> ChatRoom \<times> bool" where
  "verifyMessage P msg cr =
     (case ValidateSignedMessage P msg [] (Some (crTrust cr)) of
        (trust, err) \<Rightarrow> (cr\<lparr>crTrust := the trust\<rparr>, err = None))"

text \<open>The loop over the messages of a sync response; a nil message is dereferenced in the else branch.\<close>

fun verify_all :: "('sk, 'pk) libp2p \<Rightarrow> Message option list \<Rightarrow> ChatRoom \<Rightarrow> (Message option list \<times> ChatRoom) option" where
  "verify_all P [] cr = Some ([], cr)"
| "verify_all P (msg # msgs) cr =
     (case verifyMessage P msg cr of (cr1, ok) \<Rightarrow>
        if ok then map_option (\<lambda>(verified, cr2). (msg # verified, cr2)) (verify_all P msgs cr1)
        else (case msg of None \<Rightarrow> None
              | Some m \<Rightarrow> verify_all P msgs (recordRejected (mSenderID m) ''bad_sync_message'' cr1)))"

text \<open>One round of the loop for an envelope with its forwarding peer and data.\<close>

definition readLoop_step :: "('sk, 'pk) libp2p \<Rightarrow> string \<times> string \<Rightarrow> ChatRoom \<Rightarrow> ChatRoom option" where
  "readLoop_step P envelope cr =
     (let (from, data) = envelope; kind = fst (Peek_Unmarshal data) in
      if p_String P from = crSelfID cr then Some cr
      else if kind = ''activity'' then
        (case Activity_Unmarshal data of
           (act, None) \<Rightarrow> Some (cr\<lparr>crActivities := offer 256 act (crActivities cr)\<rparr>)
         | (_, Some _) \<Rightarrow> Some cr)
      else if kind = ''sync_request'' \<or> kind = ''sync_response'' then
        (case Control_Unmarshal data of
           (_, Some _) \<Rightarrow> Some cr
         | (ctrl, None) \<Rightarrow>
           if cFromPeerID ctrl = crSelfID cr then Some cr
           else
             (let ctrl1 = ctrl\<lparr>cForwardedBy := p_String P from\<rparr> in
              if cKind ctrl1 = ''sync_response'' then
                map_option (\<lambda>(verified, cr1).
                  cr1\<lparr>crControls := offer 32 (ctrl1\<lparr>cMessages := verified\<rparr>) (crControls cr1)\<rparr>)
                  (verify_all P (cMessages ctrl1) cr)
              else Some (cr\<lparr>crControls := offer 32 ctrl1 (crControls cr)\<rparr>)))
      else
        (case Message_Unmarshal data of
           (_, Some _) \<Rightarrow> Some cr
         | (msg, None) \<Rightarrow>
           (case verifyMessage P (Some msg) cr of (cr1, ok) \<Rightarrow>
              if ok then Some (cr1\<lparr>crMessages := offer 128 msg (crMessages cr1)\<rparr>)
              else Some (recordRejected (mSenderID msg) ''bad_chat_message'' cr1))))"

definition room_TrustStats :: "ChatRoom \<Rightarrow> TrustStats" where
  "room_TrustStats cr = Trust_Stats (crTrust cr)"

section \<open>Validator and read loop, interleaved\<close>

text \<open>A room runs with the queue of the subscription, or it has crashed.\<close>

datatype room = Running ChatRoom "(string \<times> string) list" | Crashed

text \<open>Packets arrive and are validated, accepted ones are queued; the read loop takes the oldest; the
  subscription may drop queued ones; the application takes values from the channels.\<close>

inductive room_step :: "('sk, 'pk) libp2p \<Rightarrow> json_text \<Rightarrow> (string \<Rightarrow> string) \<Rightarrow> (string \<Rightarrow> string) \<Rightarrow> room \<Rightarrow> room \<Rightarrow> bool"
  for P J sha256 quote where
  packet: "validator P J sha256 quote data from now cr = (cr', ok) \<Longrightarrow>
    room_step P J sha256 quote (Running cr q) (Running cr' (if ok then q @ [(from, data)] else q))"
| lost: "room_step P J sha256 quote (Running cr (q1 @ e # q2)) (Running cr (q1 @ q2))"
| read: "readLoop_step P e cr = Some cr' \<Longrightarrow> room_step P J sha256 quote (Running cr (e # q)) (Running cr' q)"
| crash: "readLoop_step P e cr = None \<Longrightarrow> room_step P J sha256 quote (Running cr (e # q)) Crashed"
| consume: "room_step P J sha256 quote (Running cr q) (Running (cr\<lparr>crMessages := drop a (crMessages cr),
    crActivities := drop b (crActivities cr), crControls := drop c (crControls cr), crRejected := drop d (crRejected cr),
    crTrace := drop t (crTrace cr)\<rparr>) q)"

inductive_cases Running_step: "room_step P J sha256 quote (Running cr q) s"

definition signed_messages :: "('sk, 'pk) libp2p \<Rightarrow> Message option list \<Rightarrow> bool" where
  "signed_messages P xs = (\<forall>x \<in> set xs. \<exists>m. x = Some m \<and> signed_by_sender P m)"

definition room_ok :: "('sk, 'pk) libp2p \<Rightarrow> room \<Rightarrow> bool" where
  "room_ok P s = (case s of Crashed \<Rightarrow> False | Running cr q \<Rightarrow>
     (\<forall>(from, data) \<in> set q. accepted_payload P data from) \<and>
     (\<forall>m \<in> set (crMessages cr). signed_by_sender P m) \<and>
     (\<forall>c \<in> set (crControls cr). cKind c = ''sync_response'' \<longrightarrow> signed_messages P (cMessages c)) \<and>
     length (crMessages cr) \<le> 128 \<and> length (crActivities cr) \<le> 256 \<and> length (crControls cr) \<le> 32 \<and>
     length (crRejected cr) \<le> 32 \<and> length (crTrace cr) \<le> 128 \<and> trust_inv (crTrust cr))"

subsection \<open>The two decodings agree on the kind\<close>

lemma kind_members:
  "ccKind (fst (decode_members decode_control ms c)) = fst (decode_members decode_kind ms (ccKind c))"
proof (induction ms arbitrary: c)
  case (Cons x ms)
  obtain k v where x: "x = (k, v)" by (cases x)
  have "ccKind (fst (decode_control (k, v) c)) = fst (decode_kind (k, v) (ccKind c))"
    by (simp add: decode_control_def decode_kind_def split_beta)
  with Cons show ?case by (simp add: x split_beta)
qed simp

lemma Control_kind: "cKind (fst (Control_Unmarshal data)) = fst (Peek_Unmarshal data)"
proof (cases "json_Parse data")
  case (Inr v)
  have "ccKind (fst (decode_struct decode_control v control_cell_zero)) = fst (decode_struct decode_kind v [])"
    using kind_members [of _ control_cell_zero]
    by (cases v) (simp_all add: decode_struct_def control_cell_zero_def)
  with Inr show ?thesis
    by (simp add: Control_Unmarshal_def Peek_Unmarshal_def Unmarshal_def split_beta control_of_cell_def)
qed (simp add: Control_Unmarshal_def Peek_Unmarshal_def Unmarshal_def control_of_cell_def control_cell_zero_def)

subsection \<open>The steps keep the invariant\<close>

lemma offer_simps:
  "length ch \<le> n \<Longrightarrow> length (offer n x ch) \<le> n" "set (offer n x ch) \<subseteq> insert x (set ch)"
  by (auto simp: offer_def)

lemma recordValidationReject_inv:
  "trust_inv t \<Longrightarrow> \<exists>t'. recordValidationReject P (Some t) fwd s r = Some t' \<and> trust_inv t'"
  by (simp add: recordValidationReject_def RecordReject_inv)

lemma Validate_inv:
  assumes "trust_inv t" and "ValidateSignedMessage P msg fwd (Some t) = (trust', err)"
  shows "\<exists>t'. trust' = Some t' \<and> trust_inv t'"
proof (cases "err = None")
  case True
  with assms show ?thesis using Validate_trust [of P msg fwd "Some t"] by simp
next
  case False
  with assms Validate_reject [of P msg fwd "Some t"] recordValidationReject_inv [OF assms(1)] show ?thesis by force
qed

lemma check_messages_inv:
  "trust_inv t \<Longrightarrow> check_messages P ms fwd (Some t) = (trust', err) \<Longrightarrow> \<exists>t'. trust' = Some t' \<and> trust_inv t'"
proof (induction ms arbitrary: t)
  case (Cons m ms)
  obtain tr e where v: "ValidateSignedMessage P m fwd (Some t) = (tr, e)" by (metis surj_pair)
  with Cons.prems Validate_inv obtain t1 where "tr = Some t1" "trust_inv t1" by blast
  with Cons v show ?case by (cases e) auto
qed auto

lemma check_control_inv:
  assumes "trust_inv t" and "check_control P what txt ctrl fwd now (Some t) = (trust', err)"
  shows "\<exists>t'. trust' = Some t' \<and> trust_inv t'"
proof -
  let ?p = "if fwd \<noteq> [] then peerIDString P fwd else cFromPeerID ctrl"
  obtain t1 ok where a: "AllowRate ?p now now t = (t1, ok)" by (metis surj_pair)
  have t1: "trust_inv t1" using AllowRate_inv [OF assms(1), of ?p now now] a by simp
  note body = assms(2) [unfolded check_control_def Let_def rate_check_def option.case a prod.case]
  show ?thesis
  proof (cases "cFromPeerID ctrl = [] \<or> cRequestID ctrl = [] \<or> (fwd \<noteq> [] \<and> cFromPeerID ctrl \<noteq> peerIDString P fwd)")
    case True
    with body show ?thesis using recordValidationReject_inv [OF assms(1)] by (auto split: if_splits)
  next
    case False
    with body t1 show ?thesis using recordValidationReject_inv [OF t1] by (auto split: if_splits)
  qed
qed

lemma validate_inv:
  assumes "trust_inv t" and "validateEnvelopeData P J data fwd now (Some t) = (trust', err)"
  shows "\<exists>t'. trust' = Some t' \<and> trust_inv t'"
proof -
  obtain kind e where peek: "Peek_Unmarshal data = (kind, e)" by (metis surj_pair)
  obtain ctrl ce where ctrl: "Control_Unmarshal data = (ctrl, ce)" by (metis surj_pair)
  obtain msg me where msg: "Message_Unmarshal data = (msg, me)" by (metis surj_pair)
  note body = assms(2) [unfolded validateEnvelopeData_def Let_def peek ctrl msg prod.case]
  note rec = recordValidationReject_inv [OF assms(1)]
  show ?thesis
  proof (cases "data = [] \<or> length data > maxAppPayloadBytes \<or> e \<noteq> None \<or> kind = ''activity''")
    case True
    with body show ?thesis using rec assms(1) by (auto split: if_splits option.splits)
  next
    case False
    consider "kind = ''sync_request''" | "kind = ''sync_response''" | "kind \<noteq> ''sync_request''" "kind \<noteq> ''sync_response''" by blast
    then show ?thesis
    proof cases
      case 1
      with False body show ?thesis
        using rec check_control_inv [OF assms(1)] by (cases ce) auto
    next
      case 2
      obtain tr er where cc: "check_control P ''sync_response'' ''sync response'' ctrl fwd now (Some t) = (tr, er)" by (metis surj_pair)
      with check_control_inv [OF assms(1)] obtain t1 where "tr = Some t1" "trust_inv t1" by blast
      with 2 False body cc show ?thesis
        using rec check_messages_inv [of t1 P "cMessages ctrl" fwd] by (cases ce; cases er) auto
    next
      case 3
      let ?p = "if fwd \<noteq> [] then peerIDString P fwd else mSenderID msg"
      obtain t1 ok where a: "AllowRate ?p now now t = (t1, ok)" by (metis surj_pair)
      have t1: "trust_inv t1" using AllowRate_inv [OF assms(1), of ?p now now] a by simp
      have "rate_check ?p now (Some t) = (Some t1, ok)" by (simp add: rate_check_def a)
      with 3 False body t1 show ?thesis
        using rec Validate_inv [OF t1, of P "Some msg" fwd] by (cases me; cases ok) auto
    qed
  qed
qed

lemma validator_steps:
  assumes "validator P J sha256 quote data from now cr = (cr', ok)" and "trust_inv (crTrust cr)"
  obtains err tr t where "validateEnvelopeData P J data from now (Some (crTrust cr)) = (Some t, err)" "trust_inv t"
    "ok \<longleftrightarrow> err = None" "cr' = cr\<lparr>crTrust := t\<rparr> \<or> cr' = cr\<lparr>crTrust := t, crTrace := offer 128 tr (crTrace cr)\<rparr>"
proof -
  obtain trust err where v: "validateEnvelopeData P J data from now (Some (crTrust cr)) = (trust, err)" by (metis surj_pair)
  with validate_inv [OF assms(2)] obtain t where t: "trust = Some t" "trust_inv t" by blast
  note body = assms(1) [unfolded validator_def v prod.case]
  show thesis
  proof (cases err)
    case None
    with body t v that show thesis by (auto simp: emitSecurityTrace_def Let_def split: if_splits)
  next
    case (Some e)
    with body t v that show thesis by (auto simp: emitSecurityTrace_def Let_def split: if_splits)
  qed
qed

lemma verifyMessage_steps:
  assumes "verifyMessage P msg cr = (cr', ok)" and "trust_inv (crTrust cr)"
  obtains t where "cr' = cr\<lparr>crTrust := t\<rparr>" "trust_inv t" "ok \<longrightarrow> (\<exists>m. msg = Some m \<and> signed_by_sender P m)"
proof -
  obtain trust err where v: "ValidateSignedMessage P msg [] (Some (crTrust cr)) = (trust, err)" by (metis surj_pair)
  with Validate_inv [OF assms(2)] obtain t where "trust = Some t" "trust_inv t" by blast
  with assms(1) v Validate_accept [of P msg "[]" "Some (crTrust cr)"] that show thesis by (auto simp: verifyMessage_def)
qed

lemma verify_all_steps:
  assumes "verify_all P msgs cr = Some (verified, cr')" and "trust_inv (crTrust cr)"
    and "length (crRejected cr) \<le> 32"
  shows "signed_messages P verified \<and> (\<exists>t rs. cr' = cr\<lparr>crTrust := t, crRejected := rs\<rparr> \<and> trust_inv t \<and> length rs \<le> 32)"
  using assms
proof (induction msgs arbitrary: cr verified)
  case Nil
  then show ?case
    by (intro conjI exI [of _ "crTrust cr"] exI [of _ "crRejected cr"]) (simp_all add: signed_messages_def)
next
  case (Cons msg msgs)
  obtain cr1 ok where v: "verifyMessage P msg cr = (cr1, ok)" by (metis surj_pair)
  from verifyMessage_steps [OF v Cons.prems(2)] obtain t where
    t: "cr1 = cr\<lparr>crTrust := t\<rparr>" "trust_inv t" "ok \<longrightarrow> (\<exists>m. msg = Some m \<and> signed_by_sender P m)" .
  show ?case
  proof (cases ok)
    case True
    with Cons.prems v obtain vs where rest: "verify_all P msgs cr1 = Some (vs, cr')" "verified = msg # vs" by auto
    with Cons.IH [OF rest(1)] t Cons.prems(3) True show ?thesis by (auto simp: signed_messages_def)
  next
    case False
    with Cons.prems v obtain m :: Message where rest: "verify_all P msgs (recordRejected (mSenderID m) ''bad_sync_message'' cr1) = Some (verified, cr')"
      by (cases msg) auto
    from Cons.IH [OF rest] t Cons.prems(3) show ?thesis
      by (auto simp: recordRejected_def offer_simps)
  qed
qed

lemma verify_all_total: "None \<notin> set msgs \<Longrightarrow> verify_all P msgs cr \<noteq> None"
proof (induction msgs arbitrary: cr)
  case (Cons msg msgs)
  then obtain m where "msg = Some m" "None \<notin> set msgs" by (cases msg) auto
  moreover obtain cr1 ok where "verifyMessage P msg cr = (cr1, ok)" by (metis surj_pair)
  ultimately show ?case using Cons.IH by (cases ok) auto
qed simp

lemma readLoop_total: "accepted_payload P data from \<Longrightarrow> readLoop_step P (from, data) cr \<noteq> None"
proof -
  obtain ctrl ce where ctrl: "Control_Unmarshal data = (ctrl, ce)" by (metis surj_pair)
  assume ok: "accepted_payload P data from"
  have kind: "fst (Peek_Unmarshal data) = cKind ctrl" using Control_kind [of data] ctrl by simp
  have "None \<notin> set (cMessages ctrl)" if "cKind ctrl = ''sync_response''"
    using that ok ctrl by (auto simp: accepted_payload_def Let_def kind)
  then have "verify_all P (cMessages ctrl) cr \<noteq> None" if "cKind ctrl = ''sync_response''"
    using that verify_all_total by blast
  then show ?thesis
    by (auto simp: readLoop_step_def Let_def ctrl split: option.splits prod.splits)
qed

lemma readLoop_cases:
  assumes "readLoop_step P (from, data) cr = Some cr'" and "Activity_Unmarshal data = (act, ae)"
    and "Control_Unmarshal data = (ctrl, ce)" and "Message_Unmarshal data = (msg, me)"
    and "verifyMessage P (Some msg) cr = (cr1, ok)"
  shows "cr' = cr \<or> cr' = cr\<lparr>crActivities := offer 256 act (crActivities cr)\<rparr>
    \<or> cKind ctrl \<noteq> ''sync_response'' \<and> cr' = cr\<lparr>crControls := offer 32 (ctrl\<lparr>cForwardedBy := p_String P from\<rparr>) (crControls cr)\<rparr>
    \<or> (\<exists>verified cr2. verify_all P (cMessages ctrl) cr = Some (verified, cr2) \<and>
        cr' = cr2\<lparr>crControls := offer 32 (ctrl\<lparr>cForwardedBy := p_String P from, cMessages := verified\<rparr>) (crControls cr2)\<rparr>)
    \<or> ok \<and> cr' = cr1\<lparr>crMessages := offer 128 msg (crMessages cr1)\<rparr> \<or> cr' = recordRejected (mSenderID msg) ''bad_chat_message'' cr1"
  using assms(1) unfolding readLoop_step_def Let_def prod.case assms(2-5)
  by (cases ae; cases ce; cases me) (auto split: if_splits)

lemma readLoop_room_ok:
  assumes "readLoop_step P (from, data) cr = Some cr'" and "room_ok P (Running cr q)"
  shows "room_ok P (Running cr' q)"
proof -
  obtain act ae where act: "Activity_Unmarshal data = (act, ae)" by (metis surj_pair)
  obtain ctrl ce where ctrl: "Control_Unmarshal data = (ctrl, ce)" by (metis surj_pair)
  obtain msg me where msg: "Message_Unmarshal data = (msg, me)" by (metis surj_pair)
  obtain cr1 ok where v: "verifyMessage P (Some msg) cr = (cr1, ok)" by (metis surj_pair)
  let ?kind = "fst (Peek_Unmarshal data)"
  have inv: "trust_inv (crTrust cr)" using assms(2) by (simp add: room_ok_def)
  show ?thesis
    using readLoop_cases [OF assms(1) act ctrl msg v]
  proof (elim disjE exE conjE)
    assume "cKind ctrl \<noteq> ''sync_response''" "cr' = cr\<lparr>crControls := offer 32 (ctrl\<lparr>cForwardedBy := p_String P from\<rparr>) (crControls cr)\<rparr>"
    with assms(2) show ?thesis by (auto simp: room_ok_def offer_def)
  next
    fix verified cr2
    assume *: "verify_all P (cMessages ctrl) cr = Some (verified, cr2)"
      "cr' = cr2\<lparr>crControls := offer 32 (ctrl\<lparr>cForwardedBy := p_String P from, cMessages := verified\<rparr>) (crControls cr2)\<rparr>"
    have "length (crRejected cr) \<le> 32" using assms(2) by (simp add: room_ok_def)
    from verify_all_steps [OF *(1) inv this] obtain t rs where
      "cr2 = cr\<lparr>crTrust := t, crRejected := rs\<rparr>" "trust_inv t" "length rs \<le> 32" "signed_messages P verified" by blast
    with *(2) assms(2) show ?thesis by (auto simp: room_ok_def offer_def)
  next
    assume *: ok "cr' = cr1\<lparr>crMessages := offer 128 msg (crMessages cr1)\<rparr>"
    obtain t where "cr1 = cr\<lparr>crTrust := t\<rparr>" "trust_inv t" "ok \<longrightarrow> (\<exists>m. Some msg = Some m \<and> signed_by_sender P m)"
      by (rule verifyMessage_steps [OF v inv])
    with * assms(2) show ?thesis by (auto simp: room_ok_def offer_def)
  next
    assume *: "cr' = recordRejected (mSenderID msg) ''bad_chat_message'' cr1"
    obtain t where "cr1 = cr\<lparr>crTrust := t\<rparr>" "trust_inv t" by (rule verifyMessage_steps [OF v inv])
    with * assms(2) show ?thesis by (auto simp: room_ok_def offer_def recordRejected_def)
  qed (use assms(2) in \<open>auto simp: room_ok_def offer_def\<close>)
qed

lemma room_step_ok: "room_step P J sha256 quote s s' \<Longrightarrow> room_ok P s \<Longrightarrow> room_ok P s'"
proof (induction rule: room_step.induct)
  case (packet data "from" now cr cr' ok q)
  then have inv: "trust_inv (crTrust cr)" by (simp add: room_ok_def)
  obtain err tr t where
    t: "validateEnvelopeData P J data from now (Some (crTrust cr)) = (Some t, err)" "trust_inv t" "ok \<longleftrightarrow> err = None"
    "cr' = cr\<lparr>crTrust := t\<rparr> \<or> cr' = cr\<lparr>crTrust := t, crTrace := offer 128 tr (crTrace cr)\<rparr>"
    by (rule validator_steps [OF packet(1) inv])
  have "ok \<Longrightarrow> accepted_payload P data from"
    using validate_accept [of P J data "from" now "Some (crTrust cr)"] t by simp
  with t packet(2) show ?case by (auto simp: room_ok_def offer_simps)
next
  case (read e cr cr' q)
  obtain "from" data where e: "e = (from, data)" by (cases e)
  with read have "room_ok P (Running cr q)" by (simp add: room_ok_def)
  with readLoop_room_ok read(1) e show ?case by blast
next
  case (crash e cr q)
  obtain "from" data where e: "e = (from, data)" by (cases e)
  with crash(2) have "accepted_payload P data from" by (simp add: room_ok_def)
  with readLoop_total crash(1) e show ?case by blast
next
  case (consume cr q a b c d t)
  then show ?case by (auto simp: room_ok_def dest: in_set_dropD)
qed (auto simp: room_ok_def)

lemma JoinChatRoom_ok: "room_ok P (Running (JoinChatRoom P host code) [])"
  by (simp add: room_ok_def JoinChatRoom_def NewTrustTracker_inv)

lemma room_reachable_ok: "(room_step P J sha256 quote)\<^sup>*\<^sup>* s s' \<Longrightarrow> room_ok P s \<Longrightarrow> room_ok P s'"
  by (induction rule: rtranclp_induct) (auto intro: room_step_ok)

section \<open>Control messages on the wire\<close>

definition control_ok :: "Control \<Rightarrow> bool" where
  "control_ok c = (valid_utf8 (cKind c) \<and> valid_utf8 (cRequestID c) \<and> valid_utf8 (cFromPeerID c) \<and>
     list_all valid_utf8 (cKnownIDs c) \<and> (\<forall>x \<in> set (cMessages c). \<exists>m. x = Some m \<and> message_wf m))"

text \<open>What decoding makes of a sent message: its clock in key order.\<close>

abbreviation as_received :: "Message \<Rightarrow> Message" where
  "as_received m \<equiv> m\<lparr>mVectorClock := sorted_clock (mVectorClock m)\<rparr>"

lemma json_fits_control: "control_ok c \<Longrightarrow> json_fits json_max_depth (control_json c)"
proof -
  assume ok: "control_ok c"
  have d: "json_max_depth = Suc (Suc (Suc (Suc 9996)))" by (simp add: json_max_depth_def)
  have "json_fits (Suc (Suc 9996)) (message_ptr_json x)" if "x \<in> set (cMessages c)" for x
  proof -
    from ok that obtain m where "x = Some m" "message_utf8 m" by (auto simp: control_ok_def message_wf_def)
    then show ?thesis using json_fits_message [of m 9996] by (simp only: message_ptr_json_def option.case)
  qed
  with ok show ?thesis
    by (auto simp: d control_json_def control_ok_def omitempty_def list_all_iff)
qed

lemma decode_message_list:
  assumes "\<forall>x \<in> set xs. \<exists>m. x = Some m \<and> message_wf m"
  shows "decode_slice decode_message_ptr None (JArr (map message_ptr_json xs)) ([], []) =
    ((map (map_option (\<lambda>m. (as_received m, []))) xs, []), False)"
proof -
  have "map (\<lambda>(w, x). decode_message_ptr w x) (zip (map message_ptr_json xs) (replicate (length xs) None)) =
      map (\<lambda>x. (map_option (\<lambda>m. (as_received m, [])) x, False)) xs"
    using assms
  proof (induction xs)
    case (Cons x xs)
    then obtain m where m: "x = Some m" "message_wf m" by auto
    have "decode_message_ptr (message_json m) None = (Some (as_received m, []), False)"
      using decode_members_message [of m] m(2)
      by (auto simp: decode_message_ptr_def message_wf_def message_json_def)
    with Cons m show ?case by (simp add: message_ptr_json_def)
  qed simp
  then show ?thesis
    by (cases "xs = []") (simp_all only: decode_slice_def Let_def, simp_all add: comp_def list_ex_iff split_beta)
qed

lemma decode_control_keys:
  "decode_control (''_kind'', JStr s) c = (c\<lparr>ccKind := s\<rparr>, False)"
  "decode_control (''request_id'', JStr s) c = (c\<lparr>ccRequestID := s\<rparr>, False)"
  "decode_control (''from_peer_id'', JStr s) c = (c\<lparr>ccFromPeerID := s\<rparr>, False)"
  "decode_control (''known_ids'', v) c = (case decode_slice decode_string [] v (ccKnownIDs c) of (xs, e) \<Rightarrow> (c\<lparr>ccKnownIDs := xs\<rparr>, e))"
  "decode_control (''messages'', v) c = (case decode_slice decode_message_ptr None v (ccMessages c) of (xs, e) \<Rightarrow> (c\<lparr>ccMessages := xs\<rparr>, e))"
  by (simp_all add: decode_control_def is_field_def decode_string_def)

lemma Control_roundtrip:
  assumes "control_ok c"
  shows "Control_Unmarshal (json_Render (control_json c)) =
    (c\<lparr>cMessages := map (map_option as_received) (cMessages c), cForwardedBy := []\<rparr>, None)"
proof -
  have parse: "json_Parse (json_Render (control_json c)) = Inr (control_json c)"
    by (simp add: json_Parse_Render json_fits_control assms)
  have msgs: "\<forall>x \<in> set (cMessages c). \<exists>m. x = Some m \<and> message_wf m" using assms by (simp add: control_ok_def)
  have "decode_struct decode_control (control_json c) control_cell_zero =
      (\<lparr>ccKind = cKind c, ccRequestID = cRequestID c, ccFromPeerID = cFromPeerID c, ccKnownIDs = (cKnownIDs c, []),
        ccMessages = (map (map_option (\<lambda>m. (as_received m, []))) (cMessages c), [])\<rparr>, False)"
    by (cases "cRequestID c = []"; cases "cFromPeerID c = []"; cases "cKnownIDs c = []"; cases "cMessages c = []")
      (simp_all add: control_json_def decode_struct_def omitempty_def decode_control_keys control_cell_zero_def decode_mentions
        decode_message_list [OF msgs])
  then show ?thesis
    by (simp add: Control_Unmarshal_def Unmarshal_def parse control_of_cell_def option.map_comp comp_def)
qed

lemma Peek_control:
  assumes "control_ok c"
  shows "Peek_Unmarshal (json_Render (control_json c)) = (cKind c, None)"
proof -
  have parse: "json_Parse (json_Render (control_json c)) = Inr (control_json c)"
    by (simp add: json_Parse_Render json_fits_control assms)
  have "decode_struct decode_kind (control_json c) [] = (cKind c, False)"
    by (cases "cRequestID c = []"; cases "cFromPeerID c = []"; cases "cKnownIDs c = []"; cases "cMessages c = []")
      (simp_all add: control_json_def decode_struct_def omitempty_def decode_kind_def is_field_def decode_string_def)
  then show ?thesis by (simp add: Peek_Unmarshal_def Unmarshal_def parse)
qed

section \<open>From publish to the application\<close>

definition good_messages :: "('sk, 'pk) libp2p \<Rightarrow> TrustTracker \<Rightarrow> Message option list \<Rightarrow> bool" where
  "good_messages P t xs = (\<forall>x \<in> set xs. \<exists>m. x = Some m \<and> signed_by_sender P m \<and> \<not> IsQuarantined (mSenderID m) t)"

lemma Validate_good:
  assumes "signed_by_sender P m" "\<not> IsQuarantined (mSenderID m) t"
  shows "ValidateSignedMessage P (Some m) fwd (Some t) = (Some t, None)"
  using assms by (simp add: Validate_verdict verdict_None [THEN iffD2] quarantined_by_def)

lemma check_messages_good: "good_messages P t xs \<Longrightarrow> check_messages P xs fwd (Some t) = (Some t, None)"
  by (induction xs) (auto simp: good_messages_def Validate_good)

lemma verifyMessage_good:
  "signed_by_sender P m \<Longrightarrow> \<not> IsQuarantined (mSenderID m) (crTrust cr) \<Longrightarrow> verifyMessage P (Some m) cr = (cr, True)"
  by (simp add: verifyMessage_def Validate_good)

lemma verify_all_good: "good_messages P (crTrust cr) xs \<Longrightarrow> verify_all P xs cr = Some (xs, cr)"
  by (induction xs) (auto simp: good_messages_def verifyMessage_good)

lemma AllowRate_quarantine: "AllowRate p now1 now2 t = (t', True) \<Longrightarrow> IsQuarantined x t' = IsQuarantined x t"
  by (auto simp: AllowRate_def Let_def IsQuarantined_def split: if_splits)

lemma validator_accepts:
  assumes "validateEnvelopeData P J data from now (Some (crTrust cr)) = (Some t, None)"
  obtains cr1 where "validator P J sha256 quote data from now cr = (cr1, True)"
    "crTrust cr1 = t" "crMessages cr1 = crMessages cr" "crControls cr1 = crControls cr" "crSelfID cr1 = crSelfID cr"
  using assms by (auto simp: validator_def Let_def emitSecurityTrace_def)

lemma chat_delivery:
  assumes wf: "message_wf m" and signed: "signed_by_sender P m" and size: "length (Message_Marshal m) \<le> 65536"
    and standing: "\<not> IsQuarantined (mSenderID m) (crTrust cr)" "AllowRate (p_String P src) now now (crTrust cr) = (t, True)"
    and hop: "src \<noteq> []" "p_String P src \<noteq> crSelfID cr" and room: "length (crMessages cr) < 128"
  shows "\<exists>cr1 cr2. validator P J sha256 quote (Message_Marshal m) src now cr = (cr1, True) \<and>
    readLoop_step P (src, Message_Marshal m) cr1 = Some cr2 \<and> crMessages cr2 = crMessages cr @ [as_received m]"
proof -
  have "rate_check (if src \<noteq> [] then peerIDString P src else mSenderID m) now (Some (crTrust cr)) = (Some t, True)"
    using hop standing(2) by (simp add: rate_check_def peerIDString_def)
  then have "validateEnvelopeData P J (Message_Marshal m) src now (Some (crTrust cr)) = (Some t, None)"
    using honest_accept [OF wf signed size] standing(1) by (simp add: quarantined_by_def)
  then obtain cr1 where v: "validator P J sha256 quote (Message_Marshal m) src now cr = (cr1, True)"
    "crTrust cr1 = t" "crMessages cr1 = crMessages cr" "crControls cr1 = crControls cr" "crSelfID cr1 = crSelfID cr"
    by (rule validator_accepts)
  have "signed_by_sender P (as_received m)" using wf signed signed_sorted [of m P] by (simp add: message_wf_def)
  moreover have "\<not> IsQuarantined (mSenderID (as_received m)) (crTrust cr1)"
    using standing AllowRate_quarantine v(2) by simp
  ultimately have "verifyMessage P (Some (as_received m)) cr1 = (cr1, True)" by (rule verifyMessage_good)
  then show ?thesis
    using v hop room by (simp add: readLoop_step_def Let_def Peek_message [OF wf] Message_Unmarshal_Marshal [OF wf] offer_def)
qed

lemma repair_delivery:
  fixes rid self :: string and ms :: "Message list"
  defines "ctrl \<equiv> Control_zero\<lparr>cKind := ''sync_response'', cRequestID := rid, cFromPeerID := self, cMessages := map Some ms\<rparr>"
  assumes ms: "\<forall>m \<in> set ms. message_wf m \<and> signed_by_sender P m \<and> \<not> IsQuarantined (mSenderID m) (crTrust cr)"
    and ids: "rid \<noteq> []" "self \<noteq> []" "valid_utf8 rid" "valid_utf8 self" and size: "length (json_Render (control_json ctrl)) \<le> 65536"
    and standing: "\<not> IsQuarantined self (crTrust cr)" "AllowRate self now now (crTrust cr) = (t, True)"
    and hop: "src \<noteq> []" "p_String P src = self" "self \<noteq> crSelfID cr" and room: "length (crControls cr) < 32"
  shows "\<exists>cr1 cr2. validator P J sha256 quote (json_Render (control_json ctrl)) src now cr = (cr1, True) \<and>
    readLoop_step P (src, json_Render (control_json ctrl)) cr1 = Some cr2 \<and>
    crControls cr2 = crControls cr @ [ctrl\<lparr>cMessages := map (Some \<circ> as_received) ms, cForwardedBy := self\<rparr>]"
proof -
  define data where "data = json_Render (control_json ctrl)"
  define got where "got = ctrl\<lparr>cMessages := map (Some \<circ> as_received) ms, cForwardedBy := []\<rparr>"
  have ok: "control_ok ctrl" using ms ids by (auto simp: control_ok_def ctrl_def Control_zero_def)
  have peek: "Peek_Unmarshal data = (''sync_response'', None)" using Peek_control [OF ok] by (simp add: ctrl_def data_def)
  have dec: "Control_Unmarshal data = (got, None)"
    using Control_roundtrip [OF ok] by (simp add: data_def got_def ctrl_def Control_zero_def comp_def)
  have got: "cKind got = ''sync_response''" "cRequestID got = rid" "cFromPeerID got = self" "cMessages got = map (Some \<circ> as_received) ms"
    by (simp_all add: got_def ctrl_def)
  have good: "good_messages P t (cMessages got)"
    using ms AllowRate_quarantine [OF standing(2)] signed_sorted by (auto simp: good_messages_def message_wf_def got)
  have data: "data \<noteq> []" "length data \<le> 65536" using size by (simp_all add: data_def control_json_def)
  have "validateEnvelopeData P J data src now (Some (crTrust cr)) = (Some t, None)"
    using data standing hop ids AllowRate_quarantine [OF standing(2)]
    by (simp add: validateEnvelopeData_def Let_def peek dec check_control_def rate_check_def peerIDString_def got(1-3)
        quarantined_by_def maxAppPayloadBytes_def check_messages_good [OF good])
  then obtain cr1 where v: "validator P J sha256 quote data src now cr = (cr1, True)"
    "crTrust cr1 = t" "crMessages cr1 = crMessages cr" "crControls cr1 = crControls cr" "crSelfID cr1 = crSelfID cr"
    by (rule validator_accepts)
  have "verify_all P (cMessages got) cr1 = Some (cMessages got, cr1)" using good v(2) by (intro verify_all_good) simp
  then have "readLoop_step P (src, data) cr1 = Some (cr1\<lparr>crControls := crControls cr @ [got\<lparr>cForwardedBy := self\<rparr>]\<rparr>)"
    using hop room v by (simp add: readLoop_step_def Let_def peek dec got(1-3) offer_def)
  with v show ?thesis unfolding data_def [symmetric] by (simp add: got_def)
qed

section \<open>Repairs that are too long\<close>

lemma length_esc: "1 \<le> length (esc_ascii c)" "u \<noteq> [] \<Longrightarrow> length u \<le> length (esc_rune u)"
  by (auto simp: esc_ascii_def esc_rune_def)

lemma length_json_escape: "length s \<le> length (json_escape s)"
proof (induction s rule: json_escape.induct)
  case (2 c s)
  show ?case
  proof (cases "byte c < 128")
    case True
    then show ?thesis using 2(1) length_esc(1) [of c] by (simp add: json_escape.simps(2))
  next
    case multi: False
    show ?thesis
    proof (cases "utf8_len (c # s) = 0")
      case True
      then show ?thesis using 2(2) multi by (simp add: json_escape.simps(2))
    next
      case False
      let ?n = "utf8_len (c # s)"
      have "length (take ?n (c # s)) \<le> length (esc_rune (take ?n (c # s)))" using False by (intro length_esc(2)) simp
      moreover have "length (drop ?n (c # s)) \<le> length (json_escape (drop ?n (c # s)))" by (rule 2(3) [OF multi False])
      moreover have "length (c # s) = length (take ?n (c # s)) + length (drop ?n (c # s))"
        unfolding length_append [symmetric] append_take_drop_id ..
      moreover have "json_escape (c # s) = esc_rune (take ?n (c # s)) @ json_escape (drop ?n (c # s))"
        by (simp only: json_escape.simps(2) [of c s] multi False if_False)
      ultimately show ?thesis unfolding \<open>json_escape (c # s) = _\<close> length_append by linarith
    qed
  qed
qed simp

lemma length_json_string: "length s < length (json_string s)"
  using length_json_escape [of s] by (simp add: json_string_def)

lemma length_commas: "sum_list (map length xs) \<le> length (commas xs)"
  by (induction xs rule: commas.induct) simp_all

lemma length_member: "(k, v) \<in> set ms \<Longrightarrow> length (json_Render v) < length (json_Render (JObj ms))"
proof -
  assume mem: "(k, v) \<in> set ms"
  let ?parts = "map (\<lambda>(k, v). json_string k @ '':'' @ json_Render v) ms"
  have "length (json_string k @ '':'' @ json_Render v) \<le> sum_list (map length ?parts)"
    using mem by (intro member_le_sum_list) (force, simp)
  also have "\<dots> \<le> length (commas ?parts)" by (rule length_commas)
  finally show ?thesis by simp
qed

lemma length_message: "length (mContent m) \<le> length (json_Render (message_ptr_json (Some m)))"
proof -
  have "length (json_Render (JStr (mContent m))) < length (json_Render (message_json m))"
    unfolding message_json_def by (rule length_member [of "''content''"]) simp
  then show ?thesis using length_json_string [of "mContent m"] by (simp add: message_ptr_json_def)
qed

text \<open>An encoded sync response is longer than all texts in it together.\<close>

lemma repair_length:
  "sum_list (map (\<lambda>m. length (mContent m)) ms) <
     length (json_Render (control_json \<lparr>cKind = kind, cRequestID = rid, cFromPeerID = self, cKnownIDs = ids, cMessages = map Some ms, cForwardedBy = fwd\<rparr>))"
    (is "_ < length (json_Render (control_json ?c))")
proof (cases "ms = []")
  case False
  let ?parts = "map json_Render (map message_ptr_json (map Some ms))"
  have "sum_list (map (\<lambda>m. length (mContent m)) ms) \<le> sum_list (map length ?parts)"
    unfolding map_map comp_def using length_message by (intro sum_list_mono) simp
  also have "\<dots> \<le> length (commas ?parts)" by (rule length_commas)
  also have "\<dots> < length (json_Render (JArr (map message_ptr_json (map Some ms))))" by simp
  also have "\<dots> < length (json_Render (control_json ?c))"
    unfolding control_json_def by (rule length_member [of "''messages''"]) (simp add: omitempty_def False)
  finally show ?thesis .
qed (simp add: control_json_def)

lemma validator_too_large:
  assumes "65536 < length data" and "helper \<noteq> []"
  shows "\<not> snd (validator P J sha256 quote data helper now cr)"
    and "crTrust (fst (validator P J sha256 quote data helper now cr)) = RecordReject (p_String P helper) ''payload_too_large'' (crTrust cr)"
    and "crControls (fst (validator P J sha256 quote data helper now cr)) = crControls cr"
    and "crMessages (fst (validator P J sha256 quote data helper now cr)) = crMessages cr"
proof -
  have "data \<noteq> []" using assms(1) by auto
  then have "validateEnvelopeData P J data helper now (Some (crTrust cr)) =
      (Some (RecordReject (p_String P helper) ''payload_too_large'' (crTrust cr)), Some (''payload too large: '' @ decimal (length data)))"
    using assms by (simp add: validateEnvelopeData_def maxAppPayloadBytes_def recordValidationReject_def peerIDString_def)
  then show "\<not> snd (validator P J sha256 quote data helper now cr)"
    and "crTrust (fst (validator P J sha256 quote data helper now cr)) = RecordReject (p_String P helper) ''payload_too_large'' (crTrust cr)"
    and "crControls (fst (validator P J sha256 quote data helper now cr)) = crControls cr"
    and "crMessages (fst (validator P J sha256 quote data helper now cr)) = crMessages cr"
    by (simp_all add: validator_def emitSecurityTrace_def)
qed

section \<open>The trace tells what happened\<close>

abbreviation not_inserted :: string where
  "not_inserted \<equiv> ''[RESULT] not inserted into ledger / UI / AI history''"

abbreviation accepted_for_processing :: string where
  "accepted_for_processing \<equiv> ''[RESULT] validator accepted packet for application processing''"

lemma appendTraceVerdict_simps:
  "steVerdict (appendTraceVerdict tr) = steVerdict tr" "steReason (appendTraceVerdict tr) = steReason tr"
  "steKind (appendTraceVerdict tr) = steKind tr" "steSteps (appendTraceVerdict tr) \<noteq> []"
  "last (steSteps (appendTraceVerdict tr)) = (if steVerdict tr = ''drop'' then not_inserted else accepted_for_processing)"
  "set (steSteps (appendTraceVerdict tr)) \<subseteq> set (steSteps tr) \<union> {''[DROP] reason = '' @ steReason tr, not_inserted, accepted_for_processing}"
  by (auto simp: appendTraceVerdict_def)

lemma trace_of_other_kinds:
  assumes "snd (Peek_Unmarshal data) \<noteq> None \<or> fst (Peek_Unmarshal data) \<noteq> ''activity''"
  shows "steSteps (buildSecurityTrace P sha256 quote data from err) \<noteq> []"
    "steKind (buildSecurityTrace P sha256 quote data from err) \<noteq> ''activity''"
    "steVerdict (buildSecurityTrace P sha256 quote data from err) = (if err \<noteq> None then ''drop'' else ''accept'')"
    "err \<noteq> None \<or> snd (Peek_Unmarshal data) = None \<Longrightarrow>
      last (steSteps (buildSecurityTrace P sha256 quote data from err)) = (if err \<noteq> None then not_inserted else accepted_for_processing)"
proof -
  obtain kind e where peek: "Peek_Unmarshal data = (kind, e)" by (metis surj_pair)
  obtain msg me where msg: "Message_Unmarshal data = (msg, me)" by (metis surj_pair)
  note defs = buildSecurityTrace_def Let_def peek msg prod.case
  show "steSteps (buildSecurityTrace P sha256 quote data from err) \<noteq> []"
    "steKind (buildSecurityTrace P sha256 quote data from err) \<noteq> ''activity''"
    "steVerdict (buildSecurityTrace P sha256 quote data from err) = (if err \<noteq> None then ''drop'' else ''accept'')"
    "err \<noteq> None \<or> snd (Peek_Unmarshal data) = None \<Longrightarrow>
      last (steSteps (buildSecurityTrace P sha256 quote data from err)) = (if err \<noteq> None then not_inserted else accepted_for_processing)"
    using assms unfolding defs by (cases e; cases me; auto simp: appendTraceVerdict_simps)+
qed

lemma trace_of_activity:
  assumes "Peek_Unmarshal data = (''activity'', None)"
  shows "steSteps (buildSecurityTrace P sha256 quote data from err) \<noteq> []"
    "steKind (buildSecurityTrace P sha256 quote data from err) = ''activity''"
    "steVerdict (buildSecurityTrace P sha256 quote data from err) = (if err \<noteq> None then ''drop'' else ''accept'')"
    "last (steSteps (buildSecurityTrace P sha256 quote data from err)) = ''[RESULT] accepted as lightweight presence event''"
  using assms by (simp_all add: buildSecurityTrace_def Let_def)

lemma validator_trace:
  assumes "validator P J sha256 quote data from now cr = (cr', ok)"
  obtains err where "ok \<longleftrightarrow> err = None" "err = None \<longrightarrow> accepted_payload P data from"
    "crTrace cr' = (let tr = buildSecurityTrace P sha256 quote data from err in
      if steSteps tr = [] \<or> err = None \<and> steKind tr = ''activity'' then crTrace cr else offer 128 tr (crTrace cr))"
proof -
  obtain t err where v: "validateEnvelopeData P J data from now (Some (crTrust cr)) = (t, err)" by (metis surj_pair)
  have "err = None \<Longrightarrow> accepted_payload P data from" using validate_accept [of P J data "from"] v by (metis snd_conv)
  with assms v show thesis
    by (intro that [of err]; cases err) (auto simp: validator_def Let_def emitSecurityTrace_def split: if_splits)
qed

lemma trace_verdict:
  assumes "validator P J sha256 quote data from now cr = (cr', ok)"
  shows "if ok \<and> fst (Peek_Unmarshal data) = ''activity'' then crTrace cr' = crTrace cr
    else (\<exists>tr. crTrace cr' = offer 128 tr (crTrace cr) \<and> steVerdict tr = (if ok then ''accept'' else ''drop'') \<and>
      last (steSteps tr) =
        (if Peek_Unmarshal data = (''activity'', None) then ''[RESULT] accepted as lightweight presence event''
         else if ok then accepted_for_processing else not_inserted))"
proof -
  obtain err where err: "ok \<longleftrightarrow> err = None" "err = None \<longrightarrow> accepted_payload P data from"
    "crTrace cr' = (let tr = buildSecurityTrace P sha256 quote data from err in
      if steSteps tr = [] \<or> err = None \<and> steKind tr = ''activity'' then crTrace cr else offer 128 tr (crTrace cr))"
    by (rule validator_trace [OF assms])
  have peek: "snd (Peek_Unmarshal data) = None" if ok using that err by (simp add: accepted_payload_def)
  show ?thesis
  proof (cases "Peek_Unmarshal data = (''activity'', None)")
    case True
    with err trace_of_activity [OF True, of P sha256 quote "from" err] show ?thesis
      by (cases err) (simp add: Let_def, auto simp: Let_def)
  next
    case False
    then have other: "snd (Peek_Unmarshal data) \<noteq> None \<or> fst (Peek_Unmarshal data) \<noteq> ''activity''"
      by (metis prod.collapse)
    with err(1,3) peek False show ?thesis by (cases err) (auto simp: Let_def trace_of_other_kinds [OF other])
  qed
qed

lemma sender_clock_reason: "normalizeRejectReason (Some ''missing sender vector clock'') = ''missing sender vector clock''"
  by code_simp

section \<open>Properties\<close>

text \<open>C1. The read loop never crashes and only authentic content reaches the application.  From joining a room,
  whatever packets arrive, in whatever interleaving of validator, queue, read loop and application, no
  nil message is dereferenced, every chat message in the channels and every message of a queued repair
  is signed by its sender, the channels keep to their capacities and the trust tracker its invariant.\<close>

theorem room_is_safe:
  assumes "(room_step P J sha256 quote)\<^sup>*\<^sup>* (Running (JoinChatRoom P host code) []) s"
  shows "\<exists>cr q. s = Running cr q \<and>
    (\<forall>m \<in> set (crMessages cr). signed_by_sender P m) \<and>
    (\<forall>c \<in> set (crControls cr). cKind c = ''sync_response'' \<longrightarrow> signed_messages P (cMessages c)) \<and>
    length (crMessages cr) \<le> 128 \<and> length (crActivities cr) \<le> 256 \<and> length (crControls cr) \<le> 32 \<and>
    length (crRejected cr) \<le> 32 \<and> length (crTrace cr) \<le> 128 \<and> trust_inv (crTrust cr)"
  using room_reachable_ok [OF assms JoinChatRoom_ok] by (cases s) (auto simp: room_ok_def)

lemma fresh_rate: obtains t where "AllowRate ''bob'' 5 5 NewTrustTracker = (t, True)"
proof -
  have "snd (AllowRate ''bob'' 5 5 NewTrustTracker)"
    using AllowRate_bucket(1) [of 5 "''bob''" "''bob''" 5 NewTrustTracker]
    by (simp add: NewTrustTracker_def refill_def RateLimitBurst_def)
  then show thesis using that by (metis prod.collapse)
qed

lemma fresh_standing: "\<not> IsQuarantined p NewTrustTracker"
  by (simp add: IsQuarantined_def NewTrustTracker_def)

lemma JoinChatRoom_simps:
  "crTrust (JoinChatRoom P host code) = NewTrustTracker" "crMessages (JoinChatRoom P host code) = []"
  "crControls (JoinChatRoom P host code) = []" "crTrace (JoinChatRoom P host code) = []"
  "crSelfID (JoinChatRoom P host code) = p_String P host"
  by (simp_all add: JoinChatRoom_def)

lemma sample_delivery:
  obtains cr1 cr2 where
    "validator wire_lib J sha256 quote (Message_Marshal wire_sample) ''bob'' 5 (JoinChatRoom wire_lib ''carol'' ''x'') = (cr1, True)"
    "readLoop_step wire_lib (''bob'', Message_Marshal wire_sample) cr1 = Some cr2" "crMessages cr2 = [as_received wire_sample]"
proof -
  obtain t where rate: "AllowRate ''bob'' 5 5 NewTrustTracker = (t, True)" by (rule fresh_rate)
  have "\<exists>cr1 cr2. validator wire_lib J sha256 quote (Message_Marshal wire_sample) ''bob'' 5 (JoinChatRoom wire_lib ''carol'' ''x'') = (cr1, True) \<and>
    readLoop_step wire_lib (''bob'', Message_Marshal wire_sample) cr1 = Some cr2 \<and>
    crMessages cr2 = crMessages (JoinChatRoom wire_lib ''carol'' ''x'') @ [as_received wire_sample]"
    by (rule chat_delivery [OF wire_sample_wf wire_sample_signed wire_sample_short, where t = t])
      (simp_all add: JoinChatRoom_simps fresh_standing rate wire_lib_def)
  with that show thesis by (auto simp: JoinChatRoom_simps)
qed

theorem room_is_safe_witness:
  "\<exists>cr. (room_step wire_lib (\<lambda>_ _ _. []) (\<lambda>_. []) (\<lambda>_. []))\<^sup>*\<^sup>* (Running (JoinChatRoom wire_lib ''carol'' ''x'') []) (Running cr [])
    \<and> crMessages cr = [as_received wire_sample] \<and> signed_by_sender wire_lib (as_received wire_sample)"
proof -
  let ?step = "room_step wire_lib (\<lambda>_ _ _. []) (\<lambda>_. []) (\<lambda>_. [])"
  obtain cr1 cr2 where d: "validator wire_lib (\<lambda>_ _ _. []) (\<lambda>_. []) (\<lambda>_. []) (Message_Marshal wire_sample) ''bob'' 5 (JoinChatRoom wire_lib ''carol'' ''x'') = (cr1, True)"
    "readLoop_step wire_lib (''bob'', Message_Marshal wire_sample) cr1 = Some cr2" "crMessages cr2 = [as_received wire_sample]"
    by (rule sample_delivery)
  have "?step (Running (JoinChatRoom wire_lib ''carol'' ''x'') []) (Running cr1 [(''bob'', Message_Marshal wire_sample)])"
    using room_step.packet [OF d(1), of "[]"] by simp
  moreover have "?step (Running cr1 [(''bob'', Message_Marshal wire_sample)]) (Running cr2 [])"
    by (rule room_step.read) (rule d(2))
  ultimately have reach: "?step\<^sup>*\<^sup>* (Running (JoinChatRoom wire_lib ''carol'' ''x'') []) (Running cr2 [])" by auto
  then have "signed_by_sender wire_lib (as_received wire_sample)"
    using room_is_safe [OF reach] d(3) by auto
  with reach d(3) show ?thesis by blast
qed

text \<open>C25. A repair reaches the requester.  Let a helper publish a sync response whose messages are well formed, signed by their
  senders and not from peers the neighbour has quarantined, with a request number and a peer identifier that are not empty and
  valid UTF-8, and let the encoded response fit in 64 KiB.  When the neighbour, another peer, has not quarantined the helper, its
  rate limit lets the packet pass and its channel of 32 control messages has room, then its validator accepts the response and
  its read loop hands the application exactly those messages, in their order.\<close>

theorem repair_reaches_the_requester:
  assumes "\<forall>m \<in> set ms. message_wf m \<and> signed_by_sender P m \<and> \<not> IsQuarantined (mSenderID m) (crTrust cr)"
    and "rid \<noteq> []" "p_String P from \<noteq> []" "valid_utf8 rid" "valid_utf8 (p_String P from)"
    and "data = last (crPublished (PublishSyncResponse rid (p_String P from) ms sender))" and "length data \<le> 65536"
    and "\<not> IsQuarantined (p_String P from) (crTrust cr)" "AllowRate (p_String P from) now now (crTrust cr) = (t, True)"
    and "from \<noteq> []" "p_String P from \<noteq> crSelfID cr" and "length (crControls cr) < 32"
  shows "\<exists>cr1 cr2. validator P J sha256 quote data from now cr = (cr1, True) \<and> readLoop_step P (from, data) cr1 = Some cr2 \<and>
    crControls cr2 = crControls cr @ [\<lparr>cKind = ''sync_response'', cRequestID = rid, cFromPeerID = p_String P from, cKnownIDs = [],
      cMessages = map (Some \<circ> as_received) ms, cForwardedBy = p_String P from\<rparr>]"
  using repair_delivery [OF assms(1,2,3,4,5) _ assms(8,9,10) refl assms(11,12), of J sha256 quote] assms(6,7)
  by (simp add: PublishSyncResponse_def Control_zero_def)

theorem repair_reaches_the_requester_witness:
  "\<exists>data cr1 cr2.
    validator wire_lib (\<lambda>_ _ _. []) (\<lambda>_. []) (\<lambda>_. []) data ''bob'' 5 (JoinChatRoom wire_lib ''carol'' ''x'') = (cr1, True) \<and>
    readLoop_step wire_lib (''bob'', data) cr1 = Some cr2 \<and>
    crControls cr2 = [\<lparr>cKind = ''sync_response'', cRequestID = ''r'', cFromPeerID = ''bob'', cKnownIDs = [],
      cMessages = [Some (as_received wire_sample)], cForwardedBy = ''bob''\<rparr>]"
proof -
  let ?data = "last (crPublished (PublishSyncResponse ''r'' (p_String wire_lib ''bob'') [wire_sample] (JoinChatRoom wire_lib ''bob'' ''x'')))"
  have "length ?data = 270" by code_simp
  then have "length ?data \<le> 65536" by simp
  obtain t where rate: "AllowRate ''bob'' 5 5 NewTrustTracker = (t, True)" by (rule fresh_rate)
  have "\<exists>cr1 cr2. validator wire_lib (\<lambda>_ _ _. []) (\<lambda>_. []) (\<lambda>_. []) ?data ''bob'' 5 (JoinChatRoom wire_lib ''carol'' ''x'') = (cr1, True) \<and>
    readLoop_step wire_lib (''bob'', ?data) cr1 = Some cr2 \<and>
    crControls cr2 = crControls (JoinChatRoom wire_lib ''carol'' ''x'') @ [\<lparr>cKind = ''sync_response'', cRequestID = ''r'',
      cFromPeerID = p_String wire_lib ''bob'', cKnownIDs = [],
      cMessages = map (Some \<circ> as_received) [wire_sample], cForwardedBy = p_String wire_lib ''bob''\<rparr>]"
    by (rule repair_reaches_the_requester [OF _ _ _ _ _ refl \<open>length ?data \<le> 65536\<close>, where t = t])
      (use wire_sample_wf wire_sample_signed rate in \<open>simp_all add: JoinChatRoom_simps fresh_standing, simp_all add: wire_lib_def\<close>)
  then show ?thesis by (simp add: JoinChatRoom_simps) (auto simp: wire_lib_def)
qed

text \<open>C36. A repair that is too long is held against the helper.  \<open>handleControl\<close> answers with up to 80 messages in one response, and
  the validator refuses payloads over 64 KiB: when the texts of the messages have 65536 bytes together -- eight messages of the
  length the validator allows -- every peer whose validator sees the response refuses it and hands nothing to the application,
  and after the third one the helper is quarantined there, and its own messages are refused.\<close>

theorem long_repair_is_held_against_the_helper:
  assumes "data = last (crPublished (PublishSyncResponse rid (p_String P helper) ms sender))"
    and "65536 \<le> sum_list (map (\<lambda>m. length (mContent m)) ms)"
    and "helper \<noteq> []" and "p_String P helper \<noteq> []" and "trust_inv (crTrust cr)"
    and "validator P J sha256 quote data helper now1 cr = (cr1, ok1)" and "validator P J sha256 quote data helper now2 cr1 = (cr2, ok2)"
    and "validator P J sha256 quote data helper now3 cr2 = (cr3, ok3)"
    and "mSenderID own = p_String P helper"
  shows "\<not> ok1 \<and> \<not> ok2 \<and> \<not> ok3 \<and> crControls cr3 = crControls cr \<and> crMessages cr3 = crMessages cr \<and>
    IsQuarantined (p_String P helper) (crTrust cr3) \<and> snd (ValidateSignedMessage P (Some own) fwd (Some (crTrust cr3))) \<noteq> None"
proof -
  have "sum_list (map (\<lambda>m. length (mContent m)) ms) < length data"
    using repair_length [of ms] by (simp add: assms(1) PublishSyncResponse_def Control_zero_def)
  then have big: "65536 < length data" using assms(2) by linarith
  note refused = validator_too_large [OF big assms(3)]
  have one: "\<not> ok1" "crTrust cr1 = RecordReject (p_String P helper) ''payload_too_large'' (crTrust cr)"
      "crControls cr1 = crControls cr" "crMessages cr1 = crMessages cr" using refused [of P J sha256 quote now1 cr] assms(6) by simp_all
  have two: "\<not> ok2" "crTrust cr2 = RecordReject (p_String P helper) ''payload_too_large'' (crTrust cr1)"
      "crControls cr2 = crControls cr" "crMessages cr2 = crMessages cr" using refused [of P J sha256 quote now2 cr1] assms(7) one by simp_all
  have three: "\<not> ok3" "crTrust cr3 = RecordReject (p_String P helper) ''payload_too_large'' (crTrust cr2)"
      "crControls cr3 = crControls cr" "crMessages cr3 = crMessages cr" using refused [of P J sha256 quote now3 cr2] assms(8) two by simp_all
  have quar: "IsQuarantined (p_String P helper) (crTrust cr3)"
    unfolding three(2) two(2) one(2) by (rule three_rejects [OF assms(5,4)])
  with one(1) two(1) three(1,3,4) assms(9) show ?thesis by (simp add: Validate_accept quarantined_by_def)
qed

theorem long_repair_is_held_against_the_helper_witness:
  "\<exists>data cr. validator wire_lib (\<lambda>_ _ _. []) (\<lambda>_. []) (\<lambda>_. []) data ''bob'' 7 (JoinChatRoom wire_lib ''carol'' ''x'') = (cr, False) \<and>
    data = last (crPublished (PublishSyncResponse ''r'' ''bob'' (replicate 8 (wire_sample\<lparr>mContent := replicate 8192 (CHR ''x'')\<rparr>))
      (JoinChatRoom wire_lib ''bob'' ''x'')))"
proof -
  let ?ms = "replicate 8 (wire_sample\<lparr>mContent := replicate 8192 (CHR ''x'')\<rparr>)"
  let ?data = "last (crPublished (PublishSyncResponse ''r'' (p_String wire_lib ''bob'') ?ms (JoinChatRoom wire_lib ''bob'' ''x'')))"
  let ?v = "validator wire_lib (\<lambda>_ _ _. []) (\<lambda>_. []) (\<lambda>_. []) ?data ''bob'' 7"
  obtain cr1 ok1 where 1: "?v (JoinChatRoom wire_lib ''carol'' ''x'') = (cr1, ok1)" by (metis surj_pair)
  obtain cr2 ok2 where 2: "?v cr1 = (cr2, ok2)" by (metis surj_pair)
  obtain cr3 ok3 where 3: "?v cr2 = (cr3, ok3)" by (metis surj_pair)
  have name: "p_String wire_lib ''bob'' = ''bob''" by (simp add: wire_lib_def)
  have inv: "trust_inv (crTrust (JoinChatRoom wire_lib ''carol'' ''x''))" by (simp add: JoinChatRoom_simps NewTrustTracker_inv)
  have size: "65536 \<le> sum_list (map (\<lambda>m. length (mContent m)) ?ms)" by (simp add: sum_list_replicate map_replicate)
  have own: "mSenderID (wire_sample\<lparr>mSenderID := ''bob''\<rparr>) = p_String wire_lib ''bob''" by (simp add: name)
  have "\<not> ok1"
    using long_repair_is_held_against_the_helper [OF refl size _ _ inv 1 2 3 own, of "[]"] by (simp add: name)
  with 1 show ?thesis by (auto simp: name)
qed

text \<open>C30. What the security trace reports.  Every packet but an accepted presence event offers one entry to the channel of the
  traces -- which drops it when 128 entries wait there already -- whose verdict is the validator's and whose last line says
  so, except for a payload that decodes as a presence event: dropped for its size, it is still reported as accepted.\<close>

theorem security_trace_tells_the_verdict:
  assumes "validator P J sha256 quote data from now cr = (cr', ok)"
  shows "if ok \<and> fst (Peek_Unmarshal data) = ''activity'' then crTrace cr' = crTrace cr
    else (\<exists>tr. crTrace cr' = offer 128 tr (crTrace cr) \<and> steVerdict tr = (if ok then ''accept'' else ''drop'') \<and>
      last (steSteps tr) =
        (if Peek_Unmarshal data = (''activity'', None) then ''[RESULT] accepted as lightweight presence event''
         else if ok then accepted_for_processing else not_inserted))"
  using assms by (rule trace_verdict)

theorem security_trace_tells_the_verdict_witness:
  "\<exists>cr' tr. validator wire_lib (\<lambda>_ _ _. []) (\<lambda>_. []) (\<lambda>_. []) (Message_Marshal wire_sample) ''bob'' 5 (JoinChatRoom wire_lib ''carol'' ''x'') = (cr', True)
    \<and> crTrace cr' = [tr] \<and> steVerdict tr = ''accept'' \<and> last (steSteps tr) = accepted_for_processing"
proof -
  obtain cr1 cr2 where d: "validator wire_lib (\<lambda>_ _ _. []) (\<lambda>_. []) (\<lambda>_. []) (Message_Marshal wire_sample) ''bob'' 5 (JoinChatRoom wire_lib ''carol'' ''x'') = (cr1, True)"
    by (rule sample_delivery)
  show ?thesis
    using security_trace_tells_the_verdict [OF d(1)] d by (auto simp: JoinChatRoom_simps offer_def Peek_message [OF wire_sample_wf])
qed

text \<open>A message without its sender's own clock entry is reported under the text of the error and never under
  \<open>missing_sender_clock\<close>, the name the validator counts it under: the \<open>[CLOCK]\<close> line of the trace, written for
  this attack, never appears.\<close>

theorem missing_clock_is_not_named_in_the_trace:
  "let tr = buildSecurityTrace P sha256 quote data from (Some ''missing sender vector clock'') in
   steReason tr = ''missing sender vector clock'' \<and>
   ''[CLOCK] sender'' @ [CHR 0x27] @ ''s own vector-clock entry is missing or zero'' \<notin> set (steSteps tr)"
proof -
  obtain kind e where peek: "Peek_Unmarshal data = (kind, e)" by (metis surj_pair)
  obtain msg me where msg: "Message_Unmarshal data = (msg, me)" by (metis surj_pair)
  show ?thesis
    unfolding buildSecurityTrace_def Let_def peek msg prod.case sender_clock_reason
    by (cases e; cases me) (simp_all add: appendTraceVerdict_def sender_clock_reason SignableBytes_def)
qed

end
