(* ===== verification/Mention.thy ===== *)
theory Mention
  imports Go_Strings
begin

text \<open>
  \<open>internal/types/mention.go\<close>: who a message addresses.

  The regular expression is a parameterless constant of the source, so its matcher is written out: RE2's
  leftmost-first semantics for this pattern.  Names match ASCII word characters and, because of \<open>(?i)\<close>, the two
  code points that fold to ASCII letters (long s and the Kelvin sign); word boundaries are ASCII.  An absent and
  an empty list of mentions are both the empty list.
\<close>

section \<open>The expression \<open>(?i)(?:^|[\s(])@([a-z0-9_][a-z0-9_-]{0,29})\b\<close>\<close>

definition is_word :: "char \<Rightarrow> bool" where
  "is_word c = (48 \<le> byte c \<and> byte c \<le> 57 \<or> 65 \<le> byte c \<and> byte c \<le> 90 \<or> byte c = 95 \<or> 97 \<le> byte c \<and> byte c \<le> 122)"

text \<open>The length in bytes of the name character a text starts with, 0 if there is none.\<close>

definition name_rune :: "bool \<Rightarrow> string \<Rightarrow> nat" where
  "name_rune dash s = (case s of [] \<Rightarrow> 0 | c # _ \<Rightarrow>
     if is_word c \<or> dash \<and> c = CHR ''-'' then 1
     else if take 2 s = [CHR 0xC5, CHR 0xBF] then 2
     else if take 3 s = [CHR 0xE2, CHR 0x84, CHR 0xAA] then 3
     else 0)"

definition word_boundary :: "string \<Rightarrow> string \<Rightarrow> bool" where
  "word_boundary pre post = ((pre \<noteq> [] \<and> is_word (last pre)) \<noteq> (post \<noteq> [] \<and> is_word (hd post)))"

text \<open>The longest run of at most \<open>n\<close> name characters, after the run \<open>cons\<close> already read, that ends at a
  word boundary: the run and what follows it.\<close>

primrec longest_name :: "nat \<Rightarrow> bool \<Rightarrow> string \<Rightarrow> string \<Rightarrow> (string \<times> string) option" where
  "longest_name 0 dash cons s = None"
| "longest_name (Suc n) dash cons s =
     (let k = name_rune dash s; cons1 = cons @ take k s; s1 = drop k s in
      if k = 0 then None
      else (case longest_name n True cons1 s1 of
              Some r \<Rightarrow> Some r
            | None \<Rightarrow> if word_boundary cons1 s1 then Some (cons1, s1) else None))"

definition opens_mention :: "char \<Rightarrow> bool" where
  "opens_mention c = (byte c \<in> {9, 10, 12, 13, 32, 40})"

text \<open>A match that begins here; \<open>bol\<close> says that here is the beginning of the text.\<close>

definition match_here :: "bool \<Rightarrow> string \<Rightarrow> (string \<times> string) option" where
  "match_here bol s =
     (if bol \<and> s \<noteq> [] \<and> hd s = CHR ''@'' then longest_name 30 False [] (tl s)
      else (case s of c # d # r \<Rightarrow> if opens_mention c \<and> d = CHR ''@'' then longest_name 30 False [] r else None | _ \<Rightarrow> None))"

lemma name_rune_le: "name_rune dash s \<le> length s"
  by (auto simp: name_rune_def split: list.splits dest!: arg_cong [where f = length])

lemma longest_name_split:
  "longest_name n dash cons s = Some (name, rest) \<Longrightarrow> cons @ s = name @ rest \<and> length cons < length name"
proof (induction n arbitrary: dash cons s)
  case (Suc n)
  let ?k = "name_rune dash s"
  have k: "?k \<noteq> 0" using Suc.prems by (auto simp: Let_def split: if_splits)
  then have len: "length cons < length (cons @ take ?k s)" using name_rune_le [of dash s] by simp
  show ?case
  proof (cases "longest_name n True (cons @ take ?k s) (drop ?k s)")
    case None
    with Suc.prems k len show ?thesis by (auto simp: Let_def split: if_splits)
  next
    case (Some r)
    with Suc.prems k have "longest_name n True (cons @ take ?k s) (drop ?k s) = Some (name, rest)" by (simp add: Let_def)
    from Suc.IH [OF this] len show ?thesis by simp
  qed
qed simp

lemma longest_name_rest: "longest_name n dash cons s = Some (name, rest) \<Longrightarrow> length rest < length s"
  using longest_name_split [of n dash cons s name rest] by (metis add_less_cancel_left add.commute length_append nat_add_left_cancel_less)

lemma match_here_shorter: "match_here bol s = Some (name, rest) \<Longrightarrow> length rest < length s"
  by (auto simp: match_here_def neq_Nil_conv dest!: longest_name_rest split: if_splits list.splits)

text \<open>\<open>FindAllStringSubmatch\<close>: the first group of every match, from left to right.\<close>

function find_mentions :: "bool \<Rightarrow> string \<Rightarrow> string list" where
  "find_mentions bol s =
     (if s = [] then []
      else (case match_here bol s of
              Some (name, rest) \<Rightarrow> name # find_mentions False rest
            | None \<Rightarrow> find_mentions False (tl s)))"
  by pat_completeness auto
termination
  by (relation "measure (\<lambda>(_, s). length s)") (auto dest!: match_here_shorter)

declare find_mentions.simps [simp del]

section \<open>Operations\<close>

text \<open>One round of the loop of \<open>ParseMentions\<close> over the matches.\<close>

definition parse_step :: "unicode \<Rightarrow> string \<Rightarrow> string list \<times> string list \<times> bool \<Rightarrow> string list \<times> string list \<times> bool" where
  "parse_step U m = (\<lambda>(mentions, seen, mentionAll).
     let name = TrimSpace m; key = ToLower U name in
     if name = [] then (mentions, seen, mentionAll)
     else if EqualFold U name ''all'' then (mentions, seen, True)
     else if key \<in> set seen then (mentions, seen, mentionAll)
     else (mentions @ [name], key # seen, mentionAll))"

definition ParseMentions :: "unicode \<Rightarrow> string \<Rightarrow> string list \<times> bool" where
  "ParseMentions U content =
     (let matches = find_mentions True content in
      if matches = [] then ([], Contains (ToLower U content) ''@all'')
      else (case fold (parse_step U) matches ([], [], False) of (mentions, _, mentionAll) \<Rightarrow> (mentions, mentionAll)))"

definition Mentioned :: "unicode \<Rightarrow> string list \<Rightarrow> string \<Rightarrow> bool" where
  "Mentioned U mentions name = list_ex (\<lambda>mention. EqualFold U mention name) mentions"

definition normalize_step :: "unicode \<Rightarrow> string \<Rightarrow> string list \<times> string list \<Rightarrow> string list \<times> string list" where
  "normalize_step U m = (\<lambda>(out, seen).
     let mention = TrimSpace m; key = ToLower U mention in
     if mention = [] \<or> EqualFold U mention ''all'' then (out, seen)
     else if key \<in> set seen then (out, seen)
     else (out @ [mention], key # seen))"

text \<open>\<open>slices.SortFunc\<close> promises a sorted permutation; as no two keys are equal, there is only one.\<close>

definition NormalizeMentions :: "unicode \<Rightarrow> string list \<Rightarrow> string list" where
  "NormalizeMentions U mentions = sort_key (ToLower U) (fst (fold (normalize_step U) mentions ([], [])))"

section \<open>Parsing what is written\<close>

text \<open>A handle the expression reads back: at most 30 ASCII word characters and dashes, a word character first and last.\<close>

definition handle :: "string \<Rightarrow> bool" where
  "handle h = (h \<noteq> [] \<and> length h \<le> 30 \<and> is_word (hd h) \<and> is_word (last h) \<and> list_all (\<lambda>c. is_word c \<or> c = CHR ''-'') h)"

text \<open>What may follow a name: nothing, or a character that cannot belong to it (the two bytes begin the letters that fold to ASCII).\<close>

definition ends_name :: "string \<Rightarrow> bool" where
  "ends_name r = (r = [] \<or> \<not> is_word (hd r) \<and> hd r \<notin> {CHR ''-'', CHR 0xC5, CHR 0xE2})"

lemma ends_name_rune: "ends_name r \<Longrightarrow> name_rune dash r = 0 \<and> \<not> (r \<noteq> [] \<and> is_word (hd r))"
  by (cases r) (auto simp: ends_name_def name_rune_def)

lemma longest_name_handle:
  assumes "list_all (\<lambda>c. is_word c \<or> dash \<and> c = CHR ''-'') (take 1 h)" "list_all (\<lambda>c. is_word c \<or> c = CHR ''-'') h"
    "h \<noteq> []" "is_word (last h)" "length h \<le> n" "ends_name r"
  shows "longest_name n dash cons (h @ r) = Some (cons @ h, r)"
  using assms
proof (induction h arbitrary: n dash cons)
  case (Cons c h)
  then obtain n' where n: "n = Suc n'" by (cases n) auto
  have k: "name_rune dash (c # h @ r) = 1" using Cons.prems(1) by (auto simp: name_rune_def)
  show ?case
  proof (cases "h = []")
    case True
    have "longest_name n' True (cons @ [c]) r = None"
      using ends_name_rune [OF Cons.prems(6)] by (cases n') auto
    with True k Cons.prems(4) ends_name_rune [OF Cons.prems(6), of True] show ?thesis by (simp add: n word_boundary_def)
  next
    case False
    with Cons.prems n have "longest_name n' True (cons @ [c]) (h @ r) = Some ((cons @ [c]) @ h, r)"
      by (intro Cons.IH) (auto simp: take_Suc neq_Nil_conv)
    with k show ?thesis by (simp add: n)
  qed
qed simp

lemma match_here_handle:
  assumes "handle h" "ends_name r"
  shows "opens_mention c \<Longrightarrow> match_here bol (c # CHR ''@'' # h @ r) = Some (h, r)"
    and "match_here True (CHR ''@'' # h @ r) = Some (h, r)"
  using longest_name_handle [of False h 30 r "[]"] assms
  by (cases h; auto simp: match_here_def handle_def opens_mention_def)+

text \<open>A text with mentions: each one after an opening character, and followed by words without \<open>@\<close>.\<close>

definition filler :: "string \<Rightarrow> bool" where
  "filler w = (CHR ''@'' \<notin> set w)"

definition piece :: "char \<times> string \<times> string \<Rightarrow> bool" where
  "piece = (\<lambda>(c, h, w). opens_mention c \<and> handle h \<and> filler w \<and> ends_name w)"

definition spelled :: "(char \<times> string \<times> string) list \<Rightarrow> string" where
  "spelled ps = concat (map (\<lambda>(c, h, w). c # CHR ''@'' # h @ w) ps)"

definition names_of :: "(char \<times> string \<times> string) list \<Rightarrow> string list" where
  "names_of ps = map (\<lambda>(c, h, w). h) ps"

lemma opens_mention_ends: "opens_mention c \<Longrightarrow> c \<noteq> CHR ''@'' \<and> ends_name (c # r)"
  by (auto simp: opens_mention_def ends_name_def is_word_def)

lemma ends_name_spelled: "list_all piece ps \<Longrightarrow> ends_name w \<Longrightarrow> ends_name (w @ spelled ps)"
proof (cases w)
  case Nil
  assume "list_all piece ps"
  then show "ends_name (w @ spelled ps)"
  proof (cases ps)
    case (Cons p ps')
    obtain c h v where "p = (c, h, v)" by (metis surj_pair)
    then show ?thesis using \<open>list_all piece ps\<close> Nil Cons opens_mention_ends by (simp add: piece_def spelled_def)
  qed (simp add: Nil spelled_def ends_name_def)
qed (simp add: ends_name_def)

text \<open>Words without \<open>@\<close> are skipped.\<close>

lemma find_mentions_skip:
  assumes "filler w" and "list_all piece ps"
  shows "find_mentions bol (w @ spelled ps) = find_mentions (bol \<and> w = []) (spelled ps)"
  using assms(1)
proof (induction w arbitrary: bol)
  case (Cons d w)
  have "\<not> (w @ spelled ps \<noteq> [] \<and> hd (w @ spelled ps) = CHR ''@'')"
    using Cons.prems assms(2) opens_mention_ends
    by (cases w; cases ps) (fastforce simp: filler_def spelled_def piece_def)+
  then have "match_here bol (d # w @ spelled ps) = None"
    using Cons.prems by (cases "w @ spelled ps") (auto simp: match_here_def filler_def)
  then have "find_mentions bol ((d # w) @ spelled ps) = find_mentions False (w @ spelled ps)"
    by (simp add: find_mentions.simps [of bol "_ # _"])
  with Cons show ?case by (simp add: filler_def)
qed simp

lemma find_mentions_spelled: "list_all piece ps \<Longrightarrow> find_mentions bol (spelled ps) = names_of ps"
proof (induction ps arbitrary: bol)
  case (Cons p ps)
  obtain c h w where p: "p = (c, h, w)" by (metis surj_pair)
  have piece: "opens_mention c" "handle h" "filler w" "ends_name w" using Cons.prems by (simp_all add: p piece_def)
  have "match_here bol (c # CHR ''@'' # h @ w @ spelled ps) = Some (h, w @ spelled ps)"
    using Cons.prems piece by (intro match_here_handle(1) ends_name_spelled) simp_all
  moreover have "spelled (p # ps) = c # CHR ''@'' # h @ w @ spelled ps" by (simp add: spelled_def p)
  ultimately have "find_mentions bol (spelled (p # ps)) = h # find_mentions False (w @ spelled ps)"
    by (simp add: find_mentions.simps [of bol "_ # _"])
  also have "\<dots> = h # names_of ps" using find_mentions_skip [OF piece(3), of ps False] Cons by simp
  finally show ?case by (simp add: names_of_def p)
qed (simp add: spelled_def names_of_def find_mentions.simps)

text \<open>The first mention may also stand at the very beginning.\<close>

lemma find_mentions_text:
  assumes "handle h" and "filler w" and "ends_name w" and "list_all piece ps"
    and "lead = [] \<or> (\<exists>pre c. lead = pre @ [c] \<and> filler pre \<and> opens_mention c)"
  shows "find_mentions True (lead @ CHR ''@'' # h @ w @ spelled ps) = h # names_of ps"
proof (cases "lead = []")
  case True
  have "match_here True (CHR ''@'' # h @ w @ spelled ps) = Some (h, w @ spelled ps)"
    using assms by (intro match_here_handle(2) ends_name_spelled)
  then have "find_mentions True (CHR ''@'' # h @ w @ spelled ps) = h # find_mentions False (w @ spelled ps)"
    by (simp add: find_mentions.simps [of True "_ # _"])
  with True show ?thesis using find_mentions_skip [OF assms(2,4), of False] find_mentions_spelled [OF assms(4)] by simp
next
  case False
  then obtain pre c where lead: "lead = pre @ [c]" "filler pre" "opens_mention c" using assms(5) by auto
  have "lead @ CHR ''@'' # h @ w @ spelled ps = pre @ spelled ((c, h, w) # ps)" by (simp add: lead spelled_def)
  moreover have pieces: "list_all piece ((c, h, w) # ps)" using assms lead by (simp add: piece_def)
  ultimately show ?thesis
    using find_mentions_skip [OF lead(2) pieces, of True] find_mentions_spelled [OF pieces] by (simp add: names_of_def)
qed

lemma handle_ascii:
  assumes "handle h"
  shows "is_ascii h"
proof -
  have "byte c < 128" if "c \<in> set h" for c
  proof -
    have "is_word c \<or> c = CHR ''-''" using assms that by (simp add: handle_def list_all_iff)
    then show ?thesis by (auto simp: is_word_def)
  qed
  then show ?thesis by (simp add: is_ascii_def list_all_iff)
qed

text \<open>Characters that start or end no white-space code point.\<close>

definition no_space :: "char \<Rightarrow> bool" where
  "no_space c = (33 \<le> byte c \<and> byte c < 128)"

lemma code_at_head: "(\<forall>k \<in> set cs. k \<noteq> [] \<and> hd k \<noteq> c) \<Longrightarrow> code_at cs (c # s) = 0"
  by (induction cs) (auto simp: neq_Nil_conv)

lemma space_heads: "list_all (\<lambda>k. k \<noteq> [] \<and> \<not> no_space (hd k) \<and> \<not> no_space (last k)) space_codes"
  by code_simp

lemma no_space_at:
  assumes "no_space c"
  shows "space_at (c # s) = 0" "rspace_at (c # s) = 0"
proof -
  have k: "k \<noteq> [] \<and> hd k \<noteq> c \<and> last k \<noteq> c" if "k \<in> set space_codes" for k
    using space_heads assms that by (auto simp: list_all_iff)
  show "space_at (c # s) = 0" unfolding space_at_def using k by (intro code_at_head) simp
  show "rspace_at (c # s) = 0" unfolding rspace_at_def using k by (intro code_at_head) (auto simp: hd_rev)
qed

lemma TrimSpace_id:
  assumes "s \<noteq> []" "no_space (hd s)" "no_space (last s)"
  shows "TrimSpace s = s"
proof -
  have "space_at s = 0" using assms(1,2) no_space_at(1) by (metis list.collapse)
  then have "drop_codes space_at s = s" by (subst drop_codes.simps) simp
  moreover have "rspace_at (rev s) = 0" using assms(1,3) no_space_at(2) by (metis hd_rev list.collapse rev_is_Nil_conv)
  then have "drop_codes rspace_at (rev s) = rev s" by (subst drop_codes.simps) simp
  ultimately show ?thesis by (simp add: TrimSpace_def)
qed

lemma handle_trim: "handle h \<Longrightarrow> TrimSpace h = h"
  by (rule TrimSpace_id) (auto simp: handle_def is_word_def no_space_def)

text \<open>Each name once, as it was spelled first, up to case.\<close>

primrec keep_first :: "(string \<Rightarrow> string) \<Rightarrow> string list \<Rightarrow> string list \<Rightarrow> string list" where
  "keep_first key seen [] = []"
| "keep_first key seen (h # hs) = (if key h \<in> set seen then keep_first key seen hs else h # keep_first key (key h # seen) hs)"

lemma EqualFold_all:
  assumes "handle h"
  shows "EqualFold U h ''all'' \<longleftrightarrow> ToLower U h = ''all''"
proof -
  have "EqualFold U h ''all'' \<longleftrightarrow> ToLower U h = ToLower U ''all''"
    by (rule EqualFold_ascii [OF handle_ascii [OF assms]]) (simp add: is_ascii_def)
  moreover have "ToLower U ''all'' = ''all''" by (simp add: ToLower_def is_ascii_def ascii_lower_def)
  ultimately show ?thesis by simp
qed

lemma parse_handles:
  assumes "list_all handle hs"
  shows "\<exists>seen'. fold (parse_step U) hs (ms, seen, b) =
    (ms @ keep_first (ToLower U) seen (filter (\<lambda>h. ToLower U h \<noteq> ''all'') hs), seen', b \<or> (\<exists>h \<in> set hs. ToLower U h = ''all''))"
  using assms
proof (induction hs arbitrary: ms seen b)
  case (Cons h hs)
  have h: "handle h" "h \<noteq> []" using Cons.prems(1) by (simp_all add: handle_def)
  have "parse_step U h (ms, seen, b) =
      (if ToLower U h = ''all'' then (ms, seen, True)
       else if ToLower U h \<in> set seen then (ms, seen, b) else (ms @ [h], ToLower U h # seen, b))"
    using h by (simp add: parse_step_def Let_def handle_trim EqualFold_all)
  then show ?case
    using Cons.IH [of ms seen True] Cons.IH [of ms seen b] Cons.IH [of "ms @ [h]" "ToLower U h # seen" b] Cons.prems by simp
qed simp

section \<open>Normal form\<close>

definition addressed :: "unicode \<Rightarrow> string \<Rightarrow> bool" where
  "addressed U m = (TrimSpace m \<noteq> [] \<and> \<not> EqualFold U (TrimSpace m) ''all'')"

lemma normalize_fold:
  assumes "fold (normalize_step U) ms (out, seen) = (out', seen')"
    and "distinct (map (ToLower U) out)" "set seen = ToLower U ` set out"
  shows "distinct (map (ToLower U) out') \<and> set seen' = ToLower U ` set out' \<and>
    ToLower U ` set out' = ToLower U ` set out \<union> (ToLower U \<circ> TrimSpace) ` {m \<in> set ms. addressed U m} \<and>
    set out' \<subseteq> set out \<union> TrimSpace ` {m \<in> set ms. addressed U m}"
  using assms
proof (induction ms arbitrary: out seen)
  case (Cons m ms)
  obtain o1 s1 where step: "normalize_step U m (out, seen) = (o1, s1)" by (metis surj_pair)
  have o1: "o1 = (if addressed U m \<and> ToLower U (TrimSpace m) \<notin> set seen then out @ [TrimSpace m] else out)"
    "s1 = (if addressed U m \<and> ToLower U (TrimSpace m) \<notin> set seen then ToLower U (TrimSpace m) # seen else seen)"
    using step by (auto simp: normalize_step_def Let_def addressed_def split: if_splits)
  have "distinct (map (ToLower U) o1)" "set s1 = ToLower U ` set o1" using o1 Cons.prems by auto
  with Cons.IH [of o1 s1] Cons.prems(1) step have IH: "distinct (map (ToLower U) out') \<and> set seen' = ToLower U ` set out' \<and>
    ToLower U ` set out' = ToLower U ` set o1 \<union> (ToLower U \<circ> TrimSpace) ` {m \<in> set ms. addressed U m} \<and>
    set out' \<subseteq> set o1 \<union> TrimSpace ` {m \<in> set ms. addressed U m}" by simp
  have "{x \<in> set (m # ms). addressed U x} = (if addressed U m then {m} else {}) \<union> {x \<in> set ms. addressed U x}" by auto
  then show ?case
    using o1 Cons.prems(3) IH by (cases "addressed U m"; cases "ToLower U (TrimSpace m) \<in> set seen") (auto simp del: set_simps simp: set_simps(1) set_simps(2) [of _ "[]"])
qed simp

lemma Normalize_facts:
  "sorted_wrt (<) (map (ToLower U) (NormalizeMentions U ms))"
  "ToLower U ` set (NormalizeMentions U ms) = (ToLower U \<circ> TrimSpace) ` {m \<in> set ms. addressed U m}"
  "set (NormalizeMentions U ms) \<subseteq> TrimSpace ` {m \<in> set ms. addressed U m}"
proof -
  obtain out seen where f: "fold (normalize_step U) ms ([], []) = (out, seen)" by (metis surj_pair)
  from normalize_fold [OF f] have *: "distinct (map (ToLower U) out)"
    "ToLower U ` set out = (ToLower U \<circ> TrimSpace) ` {m \<in> set ms. addressed U m}"
    "set out \<subseteq> TrimSpace ` {m \<in> set ms. addressed U m}" by simp_all
  have "sorted (map (ToLower U) (sort_key (ToLower U) out))" by simp
  moreover have "distinct (map (ToLower U) (sort_key (ToLower U) out))"
    using *(1) by (metis mset_eq_imp_distinct_iff mset_map mset_sort)
  ultimately show "sorted_wrt (<) (map (ToLower U) (NormalizeMentions U ms))"
    by (simp add: NormalizeMentions_def f strict_sorted_iff)
  show "ToLower U ` set (NormalizeMentions U ms) = (ToLower U \<circ> TrimSpace) ` {m \<in> set ms. addressed U m}"
    "set (NormalizeMentions U ms) \<subseteq> TrimSpace ` {m \<in> set ms. addressed U m}"
    using *(2,3) by (simp_all add: NormalizeMentions_def f)
qed

lemma Mentioned_ascii:
  assumes "list_all is_ascii ms" "is_ascii name"
  shows "Mentioned U ms name \<longleftrightarrow> ToLower U name \<in> ToLower U ` set ms"
  using assms by (induction ms) (auto simp: Mentioned_def EqualFold_ascii)

lemma code_at_drop: "is_ascii s \<Longrightarrow> is_ascii (drop n s)"
  unfolding is_ascii_def list_all_iff by (auto dest: in_set_dropD)

lemma drop_codes_ascii: "is_ascii s \<Longrightarrow> is_ascii (drop_codes at s)"
proof (induction at s rule: drop_codes.induct)
  case (1 at s)
  then show ?case by (subst drop_codes.simps) (simp add: code_at_drop)
qed

lemma TrimSpace_ascii: "is_ascii s \<Longrightarrow> is_ascii (TrimSpace s)"
  using drop_codes_ascii [of "rev (drop_codes space_at s)" rspace_at] drop_codes_ascii [of s space_at]
  by (simp add: TrimSpace_def is_ascii_def)

section \<open>Properties\<close>

text \<open>C28. Normalised mentions are a canonical form.  For any names: the result is strictly ordered by lower-case form, so without
  repetitions up to case, and its lower-case forms are exactly those of the trimmed entries of the list that are neither
  blank nor \<open>all\<close>.  When the entries and a name are ASCII, the result mentions the name exactly when the name is neither
  empty nor \<open>all\<close> and an entry, trimmed, mentions it -- the result against the list with its white space trimmed, that is.\<close>

theorem normalized_mentions_address_the_same:
  "sorted_wrt (<) (map (ToLower U) (NormalizeMentions U ms)) \<and>
    ToLower U ` set (NormalizeMentions U ms) = (ToLower U \<circ> TrimSpace) ` {m \<in> set ms. TrimSpace m \<noteq> [] \<and> \<not> EqualFold U (TrimSpace m) ''all''} \<and>
    (list_all is_ascii ms \<and> is_ascii name \<longrightarrow>
      (Mentioned U (NormalizeMentions U ms) name \<longleftrightarrow>
        name \<noteq> [] \<and> \<not> EqualFold U name ''all'' \<and> Mentioned U (map TrimSpace ms) name))"
proof (intro conjI impI)
  assume "list_all is_ascii ms \<and> is_ascii name"
  then have ascii: "list_all is_ascii ms" "is_ascii name" by simp_all
  have trimmed: "list_all is_ascii (map TrimSpace ms)" using ascii(1) by (simp add: list_all_iff TrimSpace_ascii)
  have "list_all is_ascii (NormalizeMentions U ms)"
    using trimmed Normalize_facts(3) [of U ms] unfolding list_all_iff by auto
  then have "Mentioned U (NormalizeMentions U ms) name \<longleftrightarrow> ToLower U name \<in> (ToLower U \<circ> TrimSpace) ` {m \<in> set ms. addressed U m}"
    using ascii(2) Normalize_facts(2) [of U ms] by (simp add: Mentioned_ascii)
  moreover have "addressed U m \<longleftrightarrow> name \<noteq> [] \<and> \<not> EqualFold U name ''all''"
    if "m \<in> set ms" "ToLower U name = ToLower U (TrimSpace m)" for m
  proof -
    have m: "is_ascii (TrimSpace m)" "is_ascii ''all''" using ascii(1) that TrimSpace_ascii by (auto simp: list_all_iff is_ascii_def)
    then have "TrimSpace m = [] \<longleftrightarrow> name = []" using that(2) ascii(2) by (metis ToLower_ascii map_is_Nil_conv)
    with m ascii(2) that(2) show ?thesis by (simp add: addressed_def EqualFold_ascii)
  qed
  ultimately show "Mentioned U (NormalizeMentions U ms) name \<longleftrightarrow>
      name \<noteq> [] \<and> \<not> EqualFold U name ''all'' \<and> Mentioned U (map TrimSpace ms) name"
    using Mentioned_ascii [OF trimmed ascii(2), of U] by auto
qed (use Normalize_facts(1,2) in \<open>simp_all add: addressed_def\<close>)

theorem normalized_mentions_address_the_same_witness:
  "Mentioned ascii_tables (NormalizeMentions ascii_tables ['' Bob '', ''all'', ''alice'', ''BOB'']) ''bob''"
proof -
  have "Mentioned ascii_tables (map TrimSpace ['' Bob '', ''all'', ''alice'', ''BOB'']) ''bob''"
    "\<not> EqualFold ascii_tables ''bob'' ''all''" by code_simp+
  moreover have "list_all is_ascii ['' Bob '', ''all'', ''alice'', ''BOB'']" "is_ascii ''bob''" by code_simp+
  ultimately show ?thesis
    using normalized_mentions_address_the_same [of ascii_tables "['' Bob '', ''all'', ''alice'', ''BOB'']" "''bob''"] by blast
qed

text \<open>C37. Mentions are read back as they are written.  Take a text in which every \<open>@\<close> starts a mention: it stands at the beginning,
  or after a blank, a line break or an opening parenthesis, and a handle follows it -- at most 30 ASCII letters, digits, underscores
  and dashes, no dash first or last -- that ends where the text ends or at a character that cannot belong to a name; between the
  mentions there may be any words without \<open>@\<close>.  Then parsing returns the handles in their order, each once up to case and as it
  was spelled first, without the \<open>all\<close>s, and whether there was an \<open>all\<close>.\<close>

theorem written_mentions_are_parsed:
  assumes "lead = [] \<or> (\<exists>pre c. lead = pre @ [c] \<and> filler pre \<and> opens_mention c)"
    and "handle h" and "filler w" and "ends_name w" and "list_all piece ps"
  shows "ParseMentions U (lead @ CHR ''@'' # h @ w @ spelled ps) =
    (keep_first (ToLower U) [] (filter (\<lambda>x. ToLower U x \<noteq> ''all'') (h # names_of ps)), \<exists>x \<in> set (h # names_of ps). ToLower U x = ''all'')"
proof -
  have "list_all handle (h # names_of ps)"
    using assms(2,5) by (auto simp: names_of_def piece_def list_all_iff)
  from parse_handles [OF this, of U "[]" "[]" False]
  obtain seen where "fold (parse_step U) (h # names_of ps) ([], [], False) =
      (keep_first (ToLower U) [] (filter (\<lambda>x. ToLower U x \<noteq> ''all'') (h # names_of ps)), seen, \<exists>x \<in> set (h # names_of ps). ToLower U x = ''all'')"
    by auto
  then show ?thesis
    unfolding ParseMentions_def find_mentions_text [OF assms(2-5,1)] Let_def by simp
qed

theorem written_mentions_are_parsed_witness:
  "ParseMentions ascii_tables ''Hi (@Bob), ask @al-1 and @bob, or @ALL!'' = ([''Bob'', ''al-1''], True)"
proof -
  let ?ps = "[(CHR '' '', ''al-1'', '' and''), (CHR '' '', ''bob'', '', or''), (CHR '' '', ''ALL'', ''!'')]"
  have "list_all piece ?ps" "handle ''Bob''" "filler ''), ask''" "ends_name ''), ask''" "filler ''Hi ''" "opens_mention (CHR ''('')"
    by code_simp+
  moreover have "''Hi ('' = ''Hi '' @ [CHR ''('']" by simp
  ultimately have "ParseMentions ascii_tables (''Hi ('' @ CHR ''@'' # ''Bob'' @ ''), ask'' @ spelled ?ps) =
      (keep_first (ToLower ascii_tables) [] (filter (\<lambda>x. ToLower ascii_tables x \<noteq> ''all'') (''Bob'' # names_of ?ps)),
       \<exists>x \<in> set (''Bob'' # names_of ?ps). ToLower ascii_tables x = ''all'')"
    by (intro written_mentions_are_parsed) blast+
  moreover have "keep_first (ToLower ascii_tables) [] (filter (\<lambda>x. ToLower ascii_tables x \<noteq> ''all'') (''Bob'' # names_of ?ps)) = [''Bob'', ''al-1'']"
    "list_ex (\<lambda>x. ToLower ascii_tables x = ''all'') (''Bob'' # names_of ?ps)" by code_simp+
  ultimately show ?thesis by (simp add: spelled_def list_ex_iff)
qed

text \<open>Without any match the whole text is searched for \<open>@all\<close>, so an address inside a word calls everyone, unless
  somebody else is mentioned too.\<close>

lemma address_calls_everyone:
  "ParseMentions ascii_tables ''mail me@allied.org'' = ([], True)"
  "ParseMentions ascii_tables ''mail me@allied.org @bob'' = ([''bob''], False)"
  by code_simp+

end
