(* ===== verification/Memory_Store.thy ===== *)
theory Memory_Store
  imports Message
begin

text \<open>
  \<open>internal/ai/memory.go\<close>: what the agent remembers between sessions.

  The disk is a map from paths to contents.  What the operating system answers is a parameter: the record \<open>os\<close> has
  the home directory, \<open>filepath.Join\<close> (which depends on the platform) and \<open>MkdirAll\<close>, and every write has an
  outcome.  A fresh uuid and the formatted time are arguments of \<open>Add\<close>.
\<close>

section \<open>State\<close>

record Memory =
  memID :: string
  memFact :: string
  memCreatedAt :: string

record MemoryStore =
  msMemories :: "Memory list"
  msPath :: string
  msMaxItems :: int

type_synonym disk = "string \<Rightarrow> string option"

record os =
  os_UserHomeDir :: "string + string"
  os_Join :: "string list \<Rightarrow> string"
  os_MkdirAll :: "string \<Rightarrow> string option"

text \<open>A write succeeds, or fails and leaves the path with this content, if any.\<close>

datatype written = Written | WriteFailed "string option"

section \<open>The file\<close>

definition memory_json :: "Memory \<Rightarrow> json" where
  "memory_json m = JObj [(''id'', JStr (memID m)), (''fact'', JStr (memFact m)), (''created_at'', JStr (memCreatedAt m))]"

definition decode_memory :: "string \<times> json \<Rightarrow> Memory \<Rightarrow> Memory \<times> bool" where
  "decode_memory = (\<lambda>(key, v) m.
     if is_field ''id'' key then (case decode_string v (memID m) of (s, e) \<Rightarrow> (m\<lparr>memID := s\<rparr>, e))
     else if is_field ''fact'' key then (case decode_string v (memFact m) of (s, e) \<Rightarrow> (m\<lparr>memFact := s\<rparr>, e))
     else if is_field ''created_at'' key then (case decode_string v (memCreatedAt m) of (s, e) \<Rightarrow> (m\<lparr>memCreatedAt := s\<rparr>, e))
     else (m, False))"

definition Memory_zero :: Memory where
  "Memory_zero = \<lparr>memID = [], memFact = [], memCreatedAt = []\<rparr>"

text \<open>\<open>load\<close> into an empty store; what was decoded before an error of type stays.\<close>

definition load_data :: "string option \<Rightarrow> Memory list" where
  "load_data contents = (case contents of None \<Rightarrow> [] | Some data \<Rightarrow>
     (case json_Parse data of
        Inl _ \<Rightarrow> []
      | Inr v \<Rightarrow> fst (fst (decode_slice (decode_struct decode_memory) Memory_zero v ([], [])))))"

definition save :: "written \<Rightarrow> MemoryStore \<Rightarrow> disk \<Rightarrow> disk" where
  "save w ms disk = (case w of
      Written \<Rightarrow> disk(msPath ms := Some (json_Indent (JArr (map memory_json (msMemories ms)))))
    | WriteFailed left \<Rightarrow> disk(msPath ms := left))"

section \<open>Operations\<close>

definition sanitise :: "string \<Rightarrow> string" where
  "sanitise name =
     (let out = filter (\<lambda>c. (97 \<le> byte c \<and> byte c \<le> 122) \<or> (65 \<le> byte c \<and> byte c \<le> 90) \<or>
          (48 \<le> byte c \<and> byte c \<le> 57) \<or> byte c = 45 \<or> byte c = 95) name
      in if out = [] then ''default'' else out)"

definition NewMemoryStore :: "os \<Rightarrow> string \<Rightarrow> int \<Rightarrow> disk \<Rightarrow> string + MemoryStore" where
  "NewMemoryStore os personaName maxItems disk =
     (case os_UserHomeDir os of
        Inl err \<Rightarrow> Inl (''home dir: '' @ err)
      | Inr home \<Rightarrow>
        (let dir = os_Join os [home, ''.dmapc'', ''personas'', sanitise personaName] in
         case os_MkdirAll os dir of
           Some err \<Rightarrow> Inl (''mkdir '' @ dir @ '': '' @ err)
         | None \<Rightarrow>
           (let path = os_Join os [dir, ''memory.json''] in
            Inr \<lparr>msMemories = load_data (disk path), msPath = path, msMaxItems = maxItems\<rparr>)))"

text \<open>\<open>Add\<close>; a negative limit would make the slice expression panic.\<close>

definition Memory_Add :: "string \<Rightarrow> string \<Rightarrow> string \<Rightarrow> written \<Rightarrow> MemoryStore \<times> disk \<Rightarrow> (MemoryStore \<times> disk) option" where
  "Memory_Add fct uuid now w = (\<lambda>(ms, disk).
     let xs = msMemories ms @ [\<lparr>memID = uuid, memFact = fct, memCreatedAt = now\<rparr>] in
     if msMaxItems ms < 0 then None
     else (let ms1 = ms\<lparr>msMemories := if int (length xs) > msMaxItems ms then drop (length xs - nat (msMaxItems ms)) xs else xs\<rparr>
           in Some (ms1, save w ms1 disk)))"

fun remove_first :: "string \<Rightarrow> Memory list \<Rightarrow> Memory list option" where
  "remove_first i [] = None"
| "remove_first i (m # xs) = (if memID m = i then Some xs else map_option ((#) m) (remove_first i xs))"

definition Memory_Delete :: "string \<Rightarrow> written \<Rightarrow> MemoryStore \<times> disk \<Rightarrow> MemoryStore \<times> disk" where
  "Memory_Delete i w = (\<lambda>(ms, disk).
     case remove_first i (msMemories ms) of
       None \<Rightarrow> (ms, disk)
     | Some xs \<Rightarrow> (let ms1 = ms\<lparr>msMemories := xs\<rparr> in (ms1, save w ms1 disk)))"

definition Memory_All :: "MemoryStore \<Rightarrow> Memory list" where
  "Memory_All ms = msMemories ms"

definition AsPromptSection :: "MemoryStore \<Rightarrow> string" where
  "AsPromptSection ms =
     (if msMemories ms = [] then []
      else [CHR 0x0A, CHR 0x0A] @ ''You remember these facts from past conversations:'' @ [CHR 0x0A] @
        concat (map (\<lambda>m. ''- '' @ memFact m @ [CHR 0x0A]) (msMemories ms)))"

section \<open>The file holds the memories\<close>

definition memory_utf8 :: "Memory \<Rightarrow> bool" where
  "memory_utf8 m = (valid_utf8 (memID m) \<and> valid_utf8 (memFact m) \<and> valid_utf8 (memCreatedAt m))"

lemma fold_name_memory [simp]: "fold_name ''fact'' = ''FACT''" "fold_name ''created_at'' = ''CREATED_AT''"
  by code_simp+

lemma decode_memory_json:
  "decode_struct decode_memory (memory_json m) Memory_zero = (m, False)"
  by (simp add: memory_json_def decode_struct_def decode_memory_def is_field_def decode_string_def Memory_zero_def)

lemma load_saved:
  assumes "list_all memory_utf8 xs"
  shows "load_data (Some (json_Indent (JArr (map memory_json xs)))) = xs"
proof -
  have d: "json_max_depth = Suc (Suc 9998)" by (simp add: json_max_depth_def)
  have "json_fits json_max_depth (JArr (map memory_json xs))"
    using assms by (auto simp: d list_all_iff memory_json_def memory_utf8_def)
  then have "json_Parse (json_Indent (JArr (map memory_json xs))) = Inr (JArr (map memory_json xs))"
    by (rule json_Parse_Indent)
  moreover have "map (\<lambda>(w, x). decode_struct decode_memory w x) (zip (map memory_json xs) (replicate (length xs) Memory_zero)) =
      map (\<lambda>x. (x, False)) xs"
    by (induction xs) (simp_all add: decode_memory_json)
  ultimately show ?thesis
    by (cases "xs = []") (simp_all only: load_data_def decode_slice_def Let_def, simp_all add: comp_def)
qed

lemma decode_memory_utf8: "json_utf8 v \<Longrightarrow> memory_utf8 m \<Longrightarrow> memory_utf8 (fst (decode_memory (k, v) m))"
  using decode_string_utf8 [of v] by (simp add: decode_memory_def memory_utf8_def split_beta)

lemma decode_members_memory:
  "\<forall>(k, v) \<in> set ms. json_utf8 v \<Longrightarrow> memory_utf8 m \<Longrightarrow> memory_utf8 (fst (decode_members decode_memory ms m))"
proof (induction ms arbitrary: m)
  case (Cons x ms)
  obtain k v where x: "x = (k, v)" by (cases x)
  have "memory_utf8 (fst (decode_memory (k, v) m))" using Cons.prems by (intro decode_memory_utf8) (auto simp: x)
  with Cons show ?case by (simp add: x split_beta)
qed simp

lemma load_utf8: "list_all memory_utf8 (load_data contents)"
proof (cases contents)
  case (Some data)
  show ?thesis
  proof (cases "json_Parse data")
    case (Inr v)
    obtain xs sp e where d: "decode_slice (decode_struct decode_memory) Memory_zero v ([], []) = ((xs, sp), e)" by (metis surj_pair)
    have zero: "memory_utf8 Memory_zero" by (simp add: memory_utf8_def Memory_zero_def)
    have "memory_utf8 (fst (decode_struct decode_memory w x))" if "json_utf8 w" "memory_utf8 x" for w x
      using that decode_members_memory by (cases w) (fastforce simp: decode_struct_def)+
    with decode_slice_all [OF json_Parse_utf8 [OF Inr], of memory_utf8 "[]" "[]" Memory_zero "decode_struct decode_memory"] zero d
    show ?thesis by (simp add: load_data_def Some Inr)
  qed (simp add: load_data_def Some)
qed (simp add: load_data_def)

text \<open>Sequences of operations.\<close>

datatype memory_op = AddFact string string string | DeleteMemory string

definition perform_memory :: "memory_op \<Rightarrow> MemoryStore \<times> disk \<Rightarrow> MemoryStore \<times> disk" where
  "perform_memory op s = (case op of
      AddFact fct uuid now \<Rightarrow> (case Memory_Add fct uuid now Written s of None \<Rightarrow> s | Some s' \<Rightarrow> s')
    | DeleteMemory i \<Rightarrow> Memory_Delete i Written s)"

definition memory_op_ok :: "memory_op \<Rightarrow> bool" where
  "memory_op_ok op = (case op of AddFact fct uuid now \<Rightarrow> valid_utf8 fct \<and> valid_utf8 uuid \<and> valid_utf8 now | DeleteMemory i \<Rightarrow> True)"

definition memory_inv :: "string \<Rightarrow> int \<Rightarrow> MemoryStore \<times> disk \<Rightarrow> bool" where
  "memory_inv path limit = (\<lambda>(ms, disk).
     msPath ms = path \<and> msMaxItems ms = limit \<and> list_all memory_utf8 (msMemories ms) \<and> load_data (disk path) = msMemories ms)"

lemma remove_first_set: "remove_first i xs = Some ys \<Longrightarrow> set ys \<subseteq> set xs"
  by (induction xs arbitrary: ys) (auto split: if_splits)

interpretation memory: invariant_machine perform_memory memory_op_ok "memory_inv path limit" for path limit
proof unfold_locales
  fix op s assume ok: "memory_op_ok op" and inv: "memory_inv path limit s"
  obtain ms disk where s: "s = (ms, disk)" by (cases s)
  have saved: "memory_inv path limit (ms\<lparr>msMemories := xs\<rparr>, save Written (ms\<lparr>msMemories := xs\<rparr>) disk)" if "list_all memory_utf8 xs" for xs
    using inv that load_saved [OF that] by (simp add: s memory_inv_def save_def)
  show "memory_inv path limit (perform_memory op s)"
  proof (cases op)
    case (AddFact fct uuid now)
    define xs where "xs = msMemories ms @ [\<lparr>memID = uuid, memFact = fct, memCreatedAt = now\<rparr>]"
    have utf8: "list_all memory_utf8 xs" "list_all memory_utf8 (drop n xs)" for n
      using ok inv by (auto simp: xs_def AddFact s memory_op_ok_def memory_inv_def memory_utf8_def list_all_iff dest!: in_set_dropD)
    have "perform_memory op s = (if msMaxItems ms < 0 then s else
        (let ys = (if int (length xs) > msMaxItems ms then drop (length xs - nat (msMaxItems ms)) xs else xs)
         in (ms\<lparr>msMemories := ys\<rparr>, save Written (ms\<lparr>msMemories := ys\<rparr>) disk)))"
      by (simp add: AddFact s perform_memory_def Memory_Add_def Let_def xs_def)
    then show ?thesis
      using inv saved [OF utf8(1)] saved [OF utf8(2)] by (simp add: Let_def)
  next
    case (DeleteMemory i)
    show ?thesis
    proof (cases "remove_first i (msMemories ms)")
      case None
      with inv show ?thesis by (simp add: DeleteMemory s perform_memory_def Memory_Delete_def)
    next
      case (Some xs)
      with inv have "list_all memory_utf8 xs" by (auto simp: s memory_inv_def list_all_iff dest: remove_first_set)
      from saved [OF this] Some show ?thesis by (simp add: DeleteMemory s perform_memory_def Memory_Delete_def Let_def)
    qed
  qed
qed

lemma NewMemoryStore_inv:
  "NewMemoryStore os name limit disk = Inr ms \<Longrightarrow> memory_inv (msPath ms) limit (ms, disk)"
  using load_utf8 by (auto simp: NewMemoryStore_def Let_def memory_inv_def split: sum.splits option.splits)

lemma NewMemoryStore_again:
  assumes "NewMemoryStore os name limit disk = Inr ms"
  shows "NewMemoryStore os name limit disk' = Inr (ms\<lparr>msMemories := load_data (disk' (msPath ms))\<rparr>)"
  using assms by (auto simp: NewMemoryStore_def Let_def split: sum.splits option.splits)

section \<open>Properties\<close>

text \<open>C27. Memories survive a restart.  Whatever the file held at first -- nothing, garbage or a file of an
  earlier session -- after any sequence of added facts and deletions whose writes succeed, opening the store
  again under the same name gives exactly the state it had.\<close>

theorem memories_survive_a_restart:
  assumes "NewMemoryStore os name limit disk = Inr ms" and "list_all memory_op_ok ops"
    and "fold perform_memory ops (ms, disk) = (ms', disk')"
  shows "NewMemoryStore os name limit disk' = Inr ms'"
proof -
  have "memory_inv (msPath ms) limit (ms', disk')"
    using memory.run_inv [OF assms(2) NewMemoryStore_inv [OF assms(1)]] assms(3) by simp
  moreover have "msMaxItems ms = limit" using NewMemoryStore_inv [OF assms(1)] by (simp add: memory_inv_def)
  ultimately show ?thesis
    using NewMemoryStore_again [OF assms(1), of disk'] by (cases ms; cases ms') (simp add: memory_inv_def)
qed

definition sample_os :: os where
  "sample_os = \<lparr>os_UserHomeDir = Inr ''/home/u'', os_Join = concat \<circ> map (\<lambda>s. s @ ''/''), os_MkdirAll = (\<lambda>_. None)\<rparr>"

theorem memories_survive_a_restart_witness:
  "\<exists>ms' disk'. map memFact (msMemories ms') = [''Alice likes tea''] \<and> NewMemoryStore sample_os ''Bob'' 1 disk' = Inr ms'"
proof -
  let ?ops = "[AddFact ''Alice is 20'' ''u1'' ''t1'', AddFact ''Alice likes tea'' ''u2'' ''t2'', DeleteMemory ''u1'']"
  obtain ms where ms: "NewMemoryStore sample_os ''Bob'' 1 (\<lambda>_. None) = Inr ms" "msMemories ms = []" "msMaxItems ms = 1"
    by (simp add: NewMemoryStore_def sample_os_def load_data_def)
  obtain ms' disk' where run: "fold perform_memory ?ops (ms, \<lambda>_. None) = (ms', disk')" by (metis surj_pair)
  then have "map memFact (msMemories ms') = [''Alice likes tea'']"
    using ms by (simp add: perform_memory_def Memory_Add_def Memory_Delete_def Let_def) (auto split: prod.splits)
  moreover have "list_all memory_op_ok ?ops" by (simp add: memory_op_ok_def)
  ultimately show ?thesis using memories_survive_a_restart [OF ms(1) _ run] by (intro exI conjI)
qed

text \<open>Persona names outside the ASCII letters, digits, dash and underscore share one file.\<close>

lemma personas_share_a_file:
  "list_all (\<lambda>c. 128 \<le> byte c) name \<Longrightarrow> NewMemoryStore os name limit disk = NewMemoryStore os [] limit disk"
proof -
  assume "list_all (\<lambda>c. 128 \<le> byte c) name"
  then have "sanitise name = sanitise []"
    by (auto simp: sanitise_def list_all_iff filter_empty_conv less_eq_char_def)
  then show ?thesis unfolding NewMemoryStore_def by (simp only:)
qed

end
