(* ===== verification/Batcher.thy ===== *)
theory Batcher
  imports Prelude Go_Float
begin

text \<open>
  \<open>internal/ai/batcher.go\<close>: messages for the agent are collected and handed over in batches.

  Timers are modelled as Go has them: \<open>time.AfterFunc\<close> arms a timer that, when due, starts a goroutine running
  \<open>timerFlush\<close>; \<open>Stop\<close> disarms it if it has not fired, and has no effect on a goroutine already started, which
  waits for the mutex.  A drained batch waits for \<open>flushMu\<close> until \<open>onFlush\<close> takes it; waiting batches get the lock in
  any order.  \<open>batcher_step\<close> interleaves all of this.  Every operation between \<open>Lock\<close> and \<open>Unlock\<close> is one
  function.
\<close>

section \<open>State\<close>

record ChatMessage =
  cmID :: string
  cmSenderID :: string
  cmSenderName :: string
  cmContent :: string
  cmIsAI :: bool
  cmMentions :: "string list"
  cmMentionAll :: bool
  cmVectorClock :: "u64 gomap"

definition idleTimeout :: time where
  "idleTimeout = 3 * 1000000000"

definition maxTimeout :: time where
  "maxTimeout = 20 * 1000000000"

definition capacityTrigger :: nat where
  "capacityTrigger = 15"

text \<open>The batcher, its timer pointers naming timers, and the armed timers of the runtime with their deadlines.\<close>

record 'm Batcher =
  bMessages :: "'m list"
  bIdleTimer :: "nat option"
  bMaxTimer :: "nat option"
  bStopped :: bool
  rtArmed :: "(nat \<times> time) list"
  rtNext :: nat

definition NewBatcher :: "'m Batcher" where
  "NewBatcher = \<lparr>bMessages = [], bIdleTimer = None, bMaxTimer = None, bStopped = False, rtArmed = [], rtNext = 0\<rparr>"

section \<open>Operations\<close>

text \<open>\<open>time.AfterFunc\<close> gives a new armed timer; \<open>Timer.Stop\<close>, and the nil check around it.\<close>

definition AfterFunc :: "time \<Rightarrow> time \<Rightarrow> 'm Batcher \<Rightarrow> nat \<times> 'm Batcher" where
  "AfterFunc d now b = (rtNext b, b\<lparr>rtArmed := rtArmed b @ [(rtNext b, now + d)], rtNext := Suc (rtNext b)\<rparr>)"

definition stop_timer :: "nat option \<Rightarrow> 'm Batcher \<Rightarrow> 'm Batcher" where
  "stop_timer t b = (case t of None \<Rightarrow> b | Some i \<Rightarrow> b\<lparr>rtArmed := filter (\<lambda>e. fst e \<noteq> i) (rtArmed b)\<rparr>)"

definition drain :: "'m Batcher \<Rightarrow> 'm list \<times> 'm Batcher" where
  "drain b =
     (let b1 = (stop_timer (bIdleTimer b) b)\<lparr>bIdleTimer := None\<rparr>;
          b2 = (stop_timer (bMaxTimer b1) b1)\<lparr>bMaxTimer := None\<rparr>
      in (bMessages b2, b2\<lparr>bMessages := []\<rparr>))"

definition doFlushLocked :: "'m Batcher \<Rightarrow> 'm list \<times> 'm Batcher" where
  "doFlushLocked b = (if bMessages b = [] then ([], b) else drain b)"

definition Batcher_Stop :: "'m Batcher \<Rightarrow> 'm Batcher" where
  "Batcher_Stop b =
     (let b0 = b\<lparr>bStopped := True\<rparr>;
          b1 = (stop_timer (bIdleTimer b0) b0)\<lparr>bIdleTimer := None\<rparr>;
          b2 = (stop_timer (bMaxTimer b1) b1)\<lparr>bMaxTimer := None\<rparr>
      in b2\<lparr>bMessages := []\<rparr>)"

text \<open>The part of \<open>Add\<close> under the mutex, with the batch it takes out.\<close>

definition Batcher_Add :: "'m \<Rightarrow> time \<Rightarrow> 'm Batcher \<Rightarrow> 'm list \<times> 'm Batcher" where
  "Batcher_Add msg now b =
     (if bStopped b then ([], b)
      else
        (let first = (bMessages b = []);
             b1 = b\<lparr>bMessages := bMessages b @ [msg]\<rparr>;
             b2 = (if first then (case AfterFunc maxTimeout now b1 of (i, b') \<Rightarrow> b'\<lparr>bMaxTimer := Some i\<rparr>) else b1);
             b3 = stop_timer (bIdleTimer b2) b2;
             b4 = (case AfterFunc idleTimeout now b3 of (i, b') \<Rightarrow> b'\<lparr>bIdleTimer := Some i\<rparr>)
         in if length (bMessages b4) \<ge> capacityTrigger then doFlushLocked b4 else ([], b4)))"

section \<open>The batcher at work\<close>

text \<open>The batcher with the time, the number of \<open>timerFlush\<close> goroutines waiting for the mutex, the batches waiting
  for \<open>flushMu\<close>, and the batches \<open>onFlush\<close> was called with.  The last four fields only record: what was added, when the
  oldest and the newest message of the buffer were, and what \<open>Stop\<close> threw away.\<close>

record 'm batching =
  bcBatcher :: "'m Batcher"
  bcNow :: time
  bcFired :: nat
  bcWaiting :: "'m list list"
  bcFlushed :: "'m list list"
  bcAdded :: "'m list"
  bcFirst :: time
  bcLast :: time
  bcDropped :: "'m list"

definition batching_start :: "time \<Rightarrow> 'm batching" where
  "batching_start now = \<lparr>bcBatcher = NewBatcher, bcNow = now, bcFired = 0, bcWaiting = [], bcFlushed = [], bcAdded = [],
     bcFirst = now, bcLast = now, bcDropped = []\<rparr>"

text \<open>\<open>if len(batch) > 0 { b.invokeFlush(batch) }\<close>\<close>

definition hand_over :: "'m list \<Rightarrow> 'm list list \<Rightarrow> 'm list list" where
  "hand_over batch waiting = (if batch = [] then waiting else waiting @ [batch])"

inductive batcher_step :: "'m batching \<Rightarrow> 'm batching \<Rightarrow> bool" where
  add: "Batcher_Add msg (bcNow s) (bcBatcher s) = (batch, b) \<Longrightarrow>
    batcher_step s (s\<lparr>bcBatcher := b, bcWaiting := hand_over batch (bcWaiting s),
      bcAdded := (if bStopped (bcBatcher s) then bcAdded s else bcAdded s @ [msg]),
      bcFirst := (if bMessages (bcBatcher s) = [] then bcNow s else bcFirst s), bcLast := bcNow s\<rparr>)"
| fire: "(i, t) \<in> set (rtArmed (bcBatcher s)) \<Longrightarrow> t \<le> bcNow s \<Longrightarrow>
    batcher_step s (s\<lparr>bcBatcher := (bcBatcher s)\<lparr>rtArmed := filter (\<lambda>e. fst e \<noteq> i) (rtArmed (bcBatcher s))\<rparr>,
      bcFired := Suc (bcFired s)\<rparr>)"
| timerFlush: "bcFired s = Suc n \<Longrightarrow> doFlushLocked (bcBatcher s) = (batch, b) \<Longrightarrow>
    batcher_step s (s\<lparr>bcBatcher := b, bcFired := n, bcWaiting := hand_over batch (bcWaiting s)\<rparr>)"
| ForceFlush: "drain (bcBatcher s) = (batch, b) \<Longrightarrow>
    batcher_step s (s\<lparr>bcBatcher := b, bcWaiting := bcWaiting s @ [batch]\<rparr>)"
| invokeFlush: "bcWaiting s = ws @ batch # ws' \<Longrightarrow>
    batcher_step s (s\<lparr>bcWaiting := ws @ ws', bcFlushed := bcFlushed s @ [batch]\<rparr>)"
| stop: "batcher_step s (s\<lparr>bcBatcher := Batcher_Stop (bcBatcher s), bcDropped := bcDropped s @ bMessages (bcBatcher s)\<rparr>)"
| tick: "bcNow s \<le> now \<Longrightarrow> \<forall>(i, t) \<in> set (rtArmed (bcBatcher s)). now \<le> t \<Longrightarrow> batcher_step s (s\<lparr>bcNow := now\<rparr>)"

section \<open>Nothing is lost and nothing waits too long\<close>

text \<open>The pointers name different timers, every armed timer is named by one, and new timers get new names.\<close>

definition timers_ok :: "'m Batcher \<Rightarrow> bool" where
  "timers_ok b =
     (distinct (map fst (rtArmed b)) \<and> (\<forall>e \<in> set (rtArmed b). Some (fst e) = bIdleTimer b \<or> Some (fst e) = bMaxTimer b) \<and>
      (\<forall>i. Some i = bIdleTimer b \<or> Some i = bMaxTimer b \<longrightarrow> i < rtNext b) \<and>
      (bIdleTimer b \<noteq> None \<longrightarrow> bIdleTimer b \<noteq> bMaxTimer b) \<and>
      (bMessages b = [] \<longrightarrow> bIdleTimer b = None \<and> bMaxTimer b = None) \<and> (bStopped b \<longrightarrow> bMessages b = []))"

definition armed_at :: "'m Batcher \<Rightarrow> nat option \<Rightarrow> time \<Rightarrow> bool" where
  "armed_at b p t = (\<exists>i. p = Some i \<and> (i, t) \<in> set (rtArmed b))"

lemma stop_timer_simps:
  "bMessages (stop_timer p b) = bMessages b" "bIdleTimer (stop_timer p b) = bIdleTimer b" "bMaxTimer (stop_timer p b) = bMaxTimer b"
  "bStopped (stop_timer p b) = bStopped b" "rtNext (stop_timer p b) = rtNext b"
  "set (rtArmed (stop_timer p b)) = {e \<in> set (rtArmed b). Some (fst e) \<noteq> p}"
  "distinct (map fst (rtArmed b)) \<Longrightarrow> distinct (map fst (rtArmed (stop_timer p b)))"
  by (auto simp: stop_timer_def distinct_map_filter split: option.splits)

lemma drain_simps:
  assumes "timers_ok b"
  shows "fst (drain b) = bMessages b" "bMessages (snd (drain b)) = []" "bStopped (snd (drain b)) = bStopped b"
    "rtArmed (snd (drain b)) = []" "timers_ok (snd (drain b))"
proof -
  have "set (rtArmed (snd (drain b))) = {}"
    using assms by (auto simp: drain_def Let_def stop_timer_simps timers_ok_def)
  then show armed: "rtArmed (snd (drain b)) = []" by simp
  show "timers_ok (snd (drain b))"
    using armed by (simp add: timers_ok_def drain_def Let_def stop_timer_simps)
qed (simp_all add: drain_def Let_def stop_timer_simps)

lemma timers_empty: "timers_ok b \<Longrightarrow> bMessages b = [] \<Longrightarrow> rtArmed b = []"
  by (cases "rtArmed b") (auto simp: timers_ok_def)

lemma doFlushLocked_simps:
  assumes "timers_ok b"
  shows "fst (doFlushLocked b) = bMessages b" "bMessages (snd (doFlushLocked b)) = []" "bStopped (snd (doFlushLocked b)) = bStopped b"
    "rtArmed (snd (doFlushLocked b)) = []" "timers_ok (snd (doFlushLocked b))"
  using drain_simps [OF assms] timers_empty [OF assms] assms by (simp_all add: doFlushLocked_def)

lemma Batcher_Stop_simps:
  assumes "timers_ok b"
  shows "bMessages (Batcher_Stop b) = []" "bStopped (Batcher_Stop b)" "rtArmed (Batcher_Stop b) = []" "timers_ok (Batcher_Stop b)"
proof -
  have "set (rtArmed (Batcher_Stop b)) = {}"
    using assms by (auto simp: Batcher_Stop_def Let_def stop_timer_simps timers_ok_def)
  then show armed: "rtArmed (Batcher_Stop b) = []" by simp
  show "timers_ok (Batcher_Stop b)"
    using armed by (simp add: timers_ok_def Batcher_Stop_def Let_def stop_timer_simps)
qed (simp_all add: Batcher_Stop_def Let_def stop_timer_simps)

text \<open>What \<open>Add\<close> does before it looks at the capacity.\<close>

definition added :: "'m \<Rightarrow> time \<Rightarrow> 'm Batcher \<Rightarrow> 'm Batcher" where
  "added msg now b =
     (let b1 = b\<lparr>bMessages := bMessages b @ [msg]\<rparr>;
          b2 = (if bMessages b = [] then b1\<lparr>rtArmed := rtArmed b @ [(rtNext b, now + maxTimeout)], rtNext := Suc (rtNext b), bMaxTimer := Some (rtNext b)\<rparr> else b1);
          b3 = stop_timer (bIdleTimer b2) b2
      in b3\<lparr>rtArmed := rtArmed b3 @ [(rtNext b3, now + idleTimeout)], rtNext := Suc (rtNext b3), bIdleTimer := Some (rtNext b3)\<rparr>)"

lemma Batcher_Add_added:
  "Batcher_Add msg now b = (if bStopped b then ([], b)
     else if length (bMessages b) \<ge> capacityTrigger - 1 then drain (added msg now b) else ([], added msg now b))"
  by (simp add: Batcher_Add_def AfterFunc_def added_def doFlushLocked_def Let_def stop_timer_simps capacityTrigger_def)

lemma added_timers:
  assumes "timers_ok b" and "\<not> bStopped b"
  shows "timers_ok (added msg now b)"
    and "bMessages (added msg now b) = bMessages b @ [msg]" and "bStopped (added msg now b) = bStopped b"
    and "armed_at (added msg now b) (bIdleTimer (added msg now b)) (now + idleTimeout)"
    and "bMessages b = [] \<Longrightarrow> armed_at (added msg now b) (bMaxTimer (added msg now b)) (now + maxTimeout)"
    and "bMessages b \<noteq> [] \<Longrightarrow> armed_at b (bMaxTimer b) t \<Longrightarrow> armed_at (added msg now b) (bMaxTimer (added msg now b)) t"
    and "\<forall>e \<in> set (rtArmed b). now \<le> snd e \<Longrightarrow> \<forall>e \<in> set (rtArmed (added msg now b)). now \<le> snd e"
  using assms
  by (auto simp: added_def Let_def timers_ok_def stop_timer_simps armed_at_def idleTimeout_def maxTimeout_def
      distinct_map_filter stop_timer_def split: option.splits)

definition batching_inv :: "'m batching \<Rightarrow> bool" where
  "batching_inv s =
     (let b = bcBatcher s in
      timers_ok b \<and> length (bMessages b) < capacityTrigger \<and> (\<forall>e \<in> set (rtArmed b). bcNow s \<le> snd e) \<and>
      (bMessages b \<noteq> [] \<and> bcFired s = 0 \<longrightarrow>
        armed_at b (bIdleTimer b) (bcLast s + idleTimeout) \<and> armed_at b (bMaxTimer b) (bcFirst s + maxTimeout)) \<and>
      (\<forall>batch \<in> set (bcWaiting s) \<union> set (bcFlushed s). length batch \<le> capacityTrigger) \<and>
      mset (bcAdded s) = mset (concat (bcFlushed s)) + mset (concat (bcWaiting s)) + mset (bMessages b) + mset (bcDropped s))"

lemma hand_over_simps:
  "mset (concat (hand_over batch ws)) = mset (concat ws) + mset batch"
  "set (hand_over batch ws) \<subseteq> insert batch (set ws)"
  by (auto simp: hand_over_def)

lemma timers_ok_fire:
  "timers_ok b \<Longrightarrow> timers_ok (b\<lparr>rtArmed := filter (\<lambda>e. fst e \<noteq> i) (rtArmed b)\<rparr>)"
  by (auto simp: timers_ok_def distinct_map_filter)

lemma batcher_step_inv: "batcher_step s s' \<Longrightarrow> batching_inv s \<Longrightarrow> batching_inv s'"
proof (induction rule: batcher_step.induct)
  case (add msg s batch b)
  let ?b = "bcBatcher s"
  have inv: "timers_ok ?b" "length (bMessages ?b) < capacityTrigger" "\<forall>e \<in> set (rtArmed ?b). bcNow s \<le> snd e"
    using add(2) by (simp_all add: batching_inv_def Let_def)
  show ?case
  proof (cases "bStopped ?b")
    case True
    with add inv have "batch = []" "b = ?b" "bMessages ?b = []" by (auto simp: Batcher_Add_added timers_ok_def)
    with add(2) True show ?thesis by (simp add: batching_inv_def Let_def hand_over_def)
  next
    case False
    note new = added_timers [OF inv(1) False, where msg = msg and now = "bcNow s"]
    show ?thesis
    proof (cases "length (bMessages ?b) \<ge> capacityTrigger - 1")
      case True
      with add(1) False have b: "batch = fst (drain (added msg (bcNow s) ?b))" "b = snd (drain (added msg (bcNow s) ?b))"
        by (simp_all add: Batcher_Add_added)
      have "batch = bMessages ?b @ [msg]" "length batch \<le> capacityTrigger" using drain_simps [OF new(1)] inv(2) by (simp_all add: b new(2))
      with add(2) False drain_simps [OF new(1)] show ?thesis
        by (auto simp: batching_inv_def Let_def b hand_over_def capacityTrigger_def)
    next
      case cap: False
      with add(1) False have b: "batch = []" "b = added msg (bcNow s) ?b" by (simp_all add: Batcher_Add_added)
      have "armed_at b (bMaxTimer b) ((if bMessages ?b = [] then bcNow s else bcFirst s) + maxTimeout)" if "bcFired s = 0"
        using new(5,6) add(2) that by (simp add: b batching_inv_def Let_def)
      with add(2) False cap new(1,4) new(7) [OF inv(3)] show ?thesis
        by (simp add: batching_inv_def Let_def b hand_over_def new(2))
    qed
  qed
next
  case (fire i t s)
  then show ?case by (auto simp: batching_inv_def Let_def timers_ok_fire)
next
  case (timerFlush s n batch b)
  have ok: "timers_ok (bcBatcher s)" using timerFlush(3) by (simp add: batching_inv_def Let_def)
  note f = doFlushLocked_simps [OF ok, unfolded timerFlush(2) fst_conv snd_conv]
  from timerFlush(3) f hand_over_simps [of batch "bcWaiting s"] show ?case
    by (auto simp: batching_inv_def Let_def capacityTrigger_def dest!: subsetD)
next
  case (ForceFlush s batch b)
  have ok: "timers_ok (bcBatcher s)" using ForceFlush(2) by (simp add: batching_inv_def Let_def)
  note f = drain_simps [OF ok, unfolded ForceFlush(1) fst_conv snd_conv]
  from ForceFlush(2) f show ?case by (auto simp: batching_inv_def Let_def capacityTrigger_def)
next
  case (invokeFlush s ws batch ws')
  then show ?case by (auto simp: batching_inv_def Let_def)
next
  case (stop s)
  have ok: "timers_ok (bcBatcher s)" using stop by (simp add: batching_inv_def Let_def)
  from stop Batcher_Stop_simps [OF ok] show ?case by (auto simp: batching_inv_def Let_def capacityTrigger_def)
next
  case (tick s now)
  then show ?case by (auto simp: batching_inv_def Let_def)
qed

lemma batching_start_inv: "batching_inv (batching_start t)"
  by (simp add: batching_inv_def batching_start_def NewBatcher_def timers_ok_def capacityTrigger_def)

lemma batching_reachable: "batcher_step\<^sup>*\<^sup>* s s' \<Longrightarrow> batching_inv s \<Longrightarrow> batching_inv s'"
  by (induction rule: rtranclp_induct) (auto intro: batcher_step_inv)

section \<open>Properties\<close>



text \<open>After \<open>Stop\<close> a forced flush still calls \<open>onFlush\<close>, with an empty batch.\<close>

lemma ForceFlush_after_Stop:
  assumes "timers_ok (bcBatcher s)"
  shows "\<exists>s'. batcher_step (s\<lparr>bcBatcher := Batcher_Stop (bcBatcher s)\<rparr>) s' \<and> bcWaiting s' = bcWaiting s @ [[]]"
proof -
  let ?s = "s\<lparr>bcBatcher := Batcher_Stop (bcBatcher s)\<rparr>"
  have "fst (drain (bcBatcher ?s)) = []"
    using Batcher_Stop_simps [OF assms] by (simp add: drain_simps(1))
  then obtain b where "drain (bcBatcher ?s) = ([], b)" by (metis prod.collapse)
  from batcher_step.ForceFlush [OF this] show ?thesis by auto
qed

end
