(* ===== verification/Agent_Text.thy ===== *)
theory Agent_Text
  imports Mention Batcher Go_Sort Vector_Clock Ledger
begin

text \<open>
  The helpers of \<open>internal/ai/orchestrator.go\<close>: the agent's order of chat messages, what counts as being addressed, as a
  question or as a repetition, the deterministic dice, and the cleaning of what the language model wrote.

  Numbers of type \<open>float64\<close> are rationals rounded as in \<open>Go_Float\<close>.  Literals beyond ASCII are written as
  their UTF-8 bytes.
\<close>

section \<open>The order of the history\<close>

text \<open>\<open>keys\<close> is a set in the code; which of its elements comes first does not matter for two flags.\<close>

definition compareVectorClock :: "u64 gomap \<Rightarrow> u64 gomap \<Rightarrow> int" where
  "compareVectorClock a b =
     (if a = [] \<or> b = [] then 0
      else
        (let keys = map fst a @ map fst b;
             aLess = list_ex (\<lambda>k. go_get 0 a k < go_get 0 b k) keys;
             bLess = list_ex (\<lambda>k. go_get 0 b k < go_get 0 a k) keys
         in if aLess \<and> \<not> bLess then - 1 else if bLess \<and> \<not> aLess then 1 else 0))"

definition compareChatMessage :: "unicode \<Rightarrow> ChatMessage \<Rightarrow> ChatMessage \<Rightarrow> int" where
  "compareChatMessage U a b =
     (let vcCmp = compareVectorClock (cmVectorClock a) (cmVectorClock b) in
      if vcCmp \<noteq> 0 then vcCmp
      else if cmSenderID a \<noteq> cmSenderID b then strings_Compare (cmSenderID a) (cmSenderID b)
      else if cmID a \<noteq> cmID b then strings_Compare (cmID a) (cmID b)
      else if cmSenderName a \<noteq> cmSenderName b then strings_Compare (ToLower U (cmSenderName a)) (ToLower U (cmSenderName b))
      else strings_Compare (cmContent a) (cmContent b))"

definition sortChatMessages :: "unicode \<Rightarrow> ChatMessage list \<Rightarrow> ChatMessage list" where
  "sortChatMessages U msgs = SliceStable (\<lambda>a b. compareChatMessage U a b < 0) msgs"

definition trailingAI :: "unicode \<Rightarrow> ChatMessage list \<Rightarrow> nat" where
  "trailingAI U history = length (takeWhile cmIsAI (rev (sortChatMessages U history)))"

section \<open>Who is addressed, and how\<close>

definition isNameChar :: "char \<Rightarrow> bool" where
  "isNameChar r = (97 \<le> byte r \<and> byte r \<le> 122 \<or> 48 \<le> byte r \<and> byte r \<le> 57 \<or> byte r = 95)"

lemma Index_bound: "Index s sub = Some i \<Longrightarrow> i + length sub \<le> length s"
  by (induction s sub arbitrary: i rule: Index.induct) (auto simp: HasPrefix_iff split: if_splits dest!: arg_cong [where f = length])

lemma Index_progress: "Index (drop idx s) sub = Some i \<Longrightarrow> sub \<noteq> [] \<Longrightarrow> length s - (idx + i + length sub) < length s - idx"
  using Index_bound [of "drop idx s" sub i] by (cases sub) auto

text \<open>The loop of \<open>mentionsName\<close> from index \<open>idx\<close>; \<open>lowerName\<close> is not empty, as no case mapping empties a text.\<close>

function name_from :: "string \<Rightarrow> string \<Rightarrow> nat \<Rightarrow> bool" where
  "name_from lowerText lowerName idx =
     (case Index (drop idx lowerText) lowerName of
        None \<Rightarrow> False
      | Some found \<Rightarrow>
        (let start = idx + found; stop = start + length lowerName;
             leftOK = (start = 0 \<or> \<not> isNameChar (lowerText ! (start - 1)));
             rightOK = (stop = length lowerText \<or> \<not> isNameChar (lowerText ! stop))
         in if leftOK \<and> rightOK then True
            else if lowerName = [] then False
            else name_from lowerText lowerName stop))"
  by pat_completeness auto

termination
  by (relation "measure (\<lambda>(t, _, idx). length t - idx)") (auto dest: Index_progress)

declare name_from.simps [simp del]

definition mentionsName :: "unicode \<Rightarrow> string \<Rightarrow> string \<Rightarrow> bool" where
  "mentionsName U text name0 =
     (let nm = TrimSpace name0 in if nm = [] then False else name_from (ToLower U text) (ToLower U nm) 0)"

definition messageMentionsPersona :: "unicode \<Rightarrow> ChatMessage \<Rightarrow> string \<Rightarrow> bool" where
  "messageMentionsPersona U msg selfName =
     (if Mentioned U (cmMentions msg) selfName then True else mentionsName U (cmContent msg) selfName)"

definition group_cues :: "string list" where
  "group_cues = [''@all'',
    ''anyone'',
    ''everyone'',
    ''anybody'',
    ''you guys'',
    ''guys'',
    [CHR 0xE5, CHR 0xA4, CHR 0xA7, CHR 0xE5, CHR 0xAE, CHR 0xB6],
    [CHR 0xE6, CHR 0x9C, CHR 0x89, CHR 0xE4, CHR 0xBA, CHR 0xBA],
    [CHR 0xE4, CHR 0xBD, CHR 0xA0, CHR 0xE5, CHR 0x80, CHR 0x91],
    [CHR 0xE5, CHR 0x90, CHR 0x84, CHR 0xE4, CHR 0xBD, CHR 0x8D],
    [CHR 0xE6, CHR 0x99, CHR 0x9A, CHR 0xE5, CHR 0xAE, CHR 0x89],
    [CHR 0xE6, CHR 0x97, CHR 0xA9, CHR 0xE5, CHR 0xAE, CHR 0x89],
    [CHR 0xE5, CHR 0x93, CHR 0x88, CHR 0xE5, CHR 0x9B, CHR 0x89],
    ''hello'',
    ''hi all'']"

definition isOpenGroupPrompt :: "unicode \<Rightarrow> string \<Rightarrow> bool" where
  "isOpenGroupPrompt U content =
     (let lower = ToLower U (TrimSpace content) in if lower = [] then False else list_ex (Contains lower) group_cues)"

definition question_cues :: "string list" where
  "question_cues = [''how'',
    ''what'',
    ''why'',
    ''who'',
    ''when'',
    ''where'',
    ''do you'',
    ''would you'',
    ''can you'',
    [CHR 0xE4, CHR 0xBD, CHR 0xA0, CHR 0xE8, CHR 0xA6, CHR 0xBA, CHR 0xE5, CHR 0xBE, CHR 0x97],
    [CHR 0xE6, CHR 0x80, CHR 0x8E, CHR 0xE9, CHR 0xBA, CHR 0xBC],
    [CHR 0xE7, CHR 0x82, CHR 0xBA, CHR 0xE4, CHR 0xBB, CHR 0x80, CHR 0xE9, CHR 0xBA, CHR 0xBC],
    [CHR 0xE8, CHR 0xAA, CHR 0xB0],
    [CHR 0xE8, CHR 0xA6, CHR 0x81, CHR 0xE4, CHR 0xB8, CHR 0x8D, CHR 0xE8, CHR 0xA6, CHR 0x81],
    [CHR 0xE5, CHR 0x8F, CHR 0xAF, CHR 0xE4, CHR 0xBB, CHR 0xA5, CHR 0xE5, CHR 0x97, CHR 0x8E],
    [CHR 0xE5, CHR 0xA5, CHR 0xBD, CHR 0xE5, CHR 0x97, CHR 0x8E],
    [CHR 0xE5, CHR 0x97, CHR 0x8E]]"

definition looksLikeQuestion :: "unicode \<Rightarrow> string \<Rightarrow> bool" where
  "looksLikeQuestion U content =
     (let lower = ToLower U (TrimSpace content) in
      if lower = [] then False
      else if Contains lower ''?'' \<or> Contains lower ([CHR 0xEF, CHR 0xBC, CHR 0x9F]) then True
      else list_ex (Contains lower) question_cues)"

section \<open>Deterministic dice\<close>

text \<open>32-bit FNV-1a.\<close>

definition fnv32a :: "string \<Rightarrow> 32 word" where
  "fnv32a key = fold (\<lambda>c h. (xor h (of_nat (byte c))) * 16777619) key 2166136261"

definition deterministicPercent :: "string \<Rightarrow> 32 word" where
  "deterministicPercent key = fnv32a key mod 100"

definition deterministicFraction :: "string \<Rightarrow> rat" where
  "deterministicFraction key = fdiv (of_nat (unat (deterministicPercent key))) 100"

definition surpriseReplyPercent :: "32 word" where
  "surpriseReplyPercent = 6"

definition shouldSurpriseReply :: "ChatMessage \<Rightarrow> string \<Rightarrow> bool" where
  "shouldSurpriseReply msg personaName =
     (if cmMentionAll msg \<or> cmMentions msg \<noteq> [] then False
      else deterministicPercent (cmID msg @ ''|surprise|'' @ personaName) < surpriseReplyPercent)"

definition chainDecay :: "nat \<Rightarrow> rat" where
  "chainDecay depth =
     (if depth = 0 then 1 else if depth = 1 then fl (92 / 100) else if depth = 2 then fl (75 / 100)
      else if depth = 3 then fl (50 / 100) else if depth = 4 then fl (28 / 100) else if depth = 5 then fl (12 / 100) else 0)"

definition shouldWinMentionAll :: "ChatMessage \<Rightarrow> string \<Rightarrow> rat \<Rightarrow> bool" where
  "shouldWinMentionAll msg personaName score =
     (let c1 = (if cmIsAI msg then fmul score (fl (55 / 100)) else score);
          capScore = (if c1 > fl (72 / 100) then fl (72 / 100) else c1)
      in deterministicFraction (cmID msg @ ''|all|'' @ personaName) < capScore)"

definition clamp01 :: "rat \<Rightarrow> rat" where
  "clamp01 v = (if v < 0 then 0 else if v > 1 then 1 else v)"

section \<open>What the model wrote\<close>

text \<open>\<open>thinkRe.ReplaceAllString(s, "")\<close> for \<open>(?s)<think>.*?</think>\<close>.\<close>

function strip_think :: "string \<Rightarrow> string" where
  "strip_think s =
     (case Index s ''<think>'' of
        None \<Rightarrow> s
      | Some i \<Rightarrow>
        (case Index (drop (i + 7) s) ''</think>'' of
           None \<Rightarrow> s
         | Some j \<Rightarrow> take i s @ strip_think (drop (i + 7 + j + 8) s)))"
  by pat_completeness auto
termination
  by (relation "measure length") (auto dest!: Index_bound)

declare strip_think.simps [simp del]

definition cleanReply :: "unicode \<Rightarrow> string \<Rightarrow> bool \<Rightarrow> string" where
  "cleanReply U s0 mentioned =
     (let s1 = Trim (TrimSpace s0) ([CHR 0x22, CHR 0x27] @ [CHR 0x60] @ '' '') in
      if s1 = [] then []
      else if \<not> mentioned \<and> ToUpper U (Trim s1 (''[]<>()'' @ [CHR 0x22, CHR 0x27] @ ''*_ .'' @ [CHR 0x0A])) = ''SILENCE'' then []
      else
        (let s2 = TrimSpace (ReplaceAll (ReplaceAll s1 ''[SILENCE]'' []) ''[silence]'' []) in
         if EqualFold U s2 ''[No reply text provided for this message.]'' then [] else s2))"

definition fallbackReply :: "unicode \<Rightarrow> string \<Rightarrow> string" where
  "fallbackReply U latest =
     (let lower = ToLower U latest in
      if Contains lower ''morning'' then ''Good morning everyone!''
      else if Contains lower ''night'' \<or> Contains lower [CHR 0xE6, CHR 0x99, CHR 0x9A, CHR 0xE5, CHR 0xAE, CHR 0x89] then ''Good night everyone!''
      else if Contains lower ''play'' \<or> Contains lower ''csgo'' then ''I'' @ [CHR 0x27] @ ''m down!''
      else if Contains lower ''hello'' \<or> Contains lower ''hi'' then ''Hey everyone!''
      else ''Sounds good!'')"

text \<open>\<open>stripNamePrefix\<close>; the slice expression panics when the text is shorter than the name.\<close>

definition stripNamePrefix :: "unicode \<Rightarrow> string \<Rightarrow> string \<Rightarrow> string option" where
  "stripNamePrefix U s nm =
     (if HasPrefix (ToLower U s) (ToLower U nm) then
        (if length s < length nm then None
         else (let rest = TrimLeft (drop (length nm) s) ('': '' @ [CHR 0x09] @ ''-'') in Some (if rest \<noteq> [] then rest else s)))
      else Some s)"

section \<open>Repetitions\<close>

definition similarity :: "string \<Rightarrow> string \<Rightarrow> rat" where
  "similarity a b =
     (let wordsA = Fields a; wordsB = Fields b in
      if wordsA = [] \<or> wordsB = [] then 0
      else fdiv (of_nat (length (filter (\<lambda>w. w \<in> set wordsA) wordsB))) (of_nat (max (length wordsA) (length wordsB))))"

definition repeats :: "unicode \<Rightarrow> string \<Rightarrow> string \<Rightarrow> bool" where
  "repeats U newLower content =
     (let oldLower = ToLower U (TrimSpace content) in
      newLower = oldLower \<or> Contains newLower oldLower \<or> Contains oldLower newLower \<or> similarity newLower oldLower > fl (7 / 10))"

text \<open>The loop from the newest message backwards over at most five own ones.\<close>

fun duplicate_from :: "unicode \<Rightarrow> string \<Rightarrow> string \<Rightarrow> ChatMessage list \<Rightarrow> nat \<Rightarrow> bool" where
  "duplicate_from U newLower selfName [] n = False"
| "duplicate_from U newLower selfName (m # ms) n =
     (if \<not> n < 5 then False
      else if \<not> cmIsAI m \<or> \<not> EqualFold U (cmSenderName m) selfName then duplicate_from U newLower selfName ms n
      else if repeats U newLower (cmContent m) then True
      else duplicate_from U newLower selfName ms (Suc n))"

definition isDuplicate :: "unicode \<Rightarrow> string \<Rightarrow> ChatMessage list \<Rightarrow> string \<Rightarrow> bool" where
  "isDuplicate U newResp history selfName =
     duplicate_from U (ToLower U (TrimSpace newResp)) selfName (rev history) 0"

end
