(* ===== verification/Agent_Prompts.thy ===== *)
theory Agent_Prompts
  imports Agent_Text Memory_Store
begin

text \<open>
  The language model as \<open>internal/ai/orchestrator.go\<close> talks to it: the prompts, the requests to Ollama and the reading
  of its answers.

  Ollama is a parameter: \<open>ask :: request body \<Rightarrow> 'w \<Rightarrow> 'w \<times> answer\<close>, where \<open>'w\<close> is whatever the service keeps;
  an answer is an HTTP status with a body, or no answer at all (the service is down or the room was left).
\<close>

definition nl :: string where
  "nl = [CHR 0x0A]"

definition lines :: "string list \<Rightarrow> string" where
  "lines xs = joined nl xs"

section \<open>Prompts\<close>

record Persona =
  pName :: string
  pStyle :: string
  pModel :: string

definition buildChatPrompt :: "Persona \<Rightarrow> bool \<Rightarrow> string" where
  "buildChatPrompt p mentioned =
     (let silenceRule =
        (if mentioned then ''Someone just addressed you by name. You MUST reply '' @ [CHR 0xE2, CHR 0x80, CHR 0x94] @ '' NEVER output [SILENCE].''
         else lines [''If the last message is clearly a private exchange between two OTHER named people and does not involve you at all, output exactly: [SILENCE]'',
               ''Otherwise, reply normally.''])
      in lines
       [''You are '' @ pName p @ '', a real person chatting in a group chat. You are NOT an AI '' @ [CHR 0xE2, CHR 0x80, CHR 0x94] @ '' never admit or hint that you are artificial.'',
        [],
        ''Personality / backstory: '' @ pStyle p,
        [],
        ''Group-chat rules:'',
        ''- Your name is '' @ pName p @ ''. Only messages addressed to '' @ [CHR 0x22] @ pName p @ [CHR 0x22] @ '' or the whole group are for you.'',
        ''- Lines marked '' @ [CHR 0x22] @ ''(you)'' @ [CHR 0x22] @ '' are your OWN previous messages. Never repeat or paraphrase them.'',
        ''- Other participants may be humans or other personas '' @ [CHR 0xE2, CHR 0x80, CHR 0x94] @ '' treat them all like real friends. You can and should mention them by name.'',
        ''- Reply in 1-2 short sentences, casual and natural, like a real text message.'',
        ''- Actually answer the latest message. Do not dodge, do not change the topic, and do not output random single words.'',
        ''- If someone asks you to repeat a sentence or provide exact text, output that text plainly and accurately.'',
        ''- If someone asks you to make a move, guess, choose an option, or follow a constraint, do that concrete action directly. Do not merely agree to do it, and do not ignore explicit ranges, options, or limits.'',
        ''- Avoid bland filler like '' @ [CHR 0x22] @ ''yeah'' @ [CHR 0x22] @ '', '' @ [CHR 0x22] @ ''sure'' @ [CHR 0x22] @ '', or '' @ [CHR 0x22] @ ''hey'' @ [CHR 0x22] @ '' by themselves unless the latest message is only a greeting.'',
        ''- If you do not understand, ask one brief clarification question instead of hallucinating.'',
        ''- Do NOT prefix your reply with your own name or '' @ [CHR 0x22] @ pName p @ '':'' @ [CHR 0x22] @ ''. Just write the message.'',
        ''- You may use @Name to directly ask another participant something.'',
        ''- Use @all VERY rarely. Only use it for a true whole-group question, never in back-to-back turns.'',
        ''- Do NOT include stage directions, brackets, asterisks, or meta commentary.'',
        [],
        silenceRule])"

definition said :: "string \<Rightarrow> string \<Rightarrow> string" where
  "said who content = who @ '': '' @ content @ nl"

definition buildUserPrompt :: "ChatMessage list \<Rightarrow> string \<Rightarrow> bool \<Rightarrow> string" where
  "buildUserPrompt history selfName mentioned =
     ''Recent chat:'' @ nl @
     concat (map (\<lambda>m. said (if cmSenderName m = selfName then cmSenderName m @ '' (you)'' else cmSenderName m) (cmContent m)) history) @
     nl @
     (if history = [] then []
      else ''Latest message to react to:'' @ nl @ said (cmSenderName (last history)) (cmContent (last history)) @ nl) @
     (if mentioned then [CHR 0xE2, CHR 0x9A, CHR 0xA0, CHR 0xEF, CHR 0xB8, CHR 0x8F] @ '' Someone just said your name ('' @ selfName @ '') '' @ [CHR 0xE2, CHR 0x80, CHR 0x94] @ '' you MUST reply.'' @ nl else []) @
     ''Now write '' @ selfName @ [CHR 0x27] @ ''s next message. One short useful reply only, no name prefix.''"

definition calibration_sys :: string where
  "calibration_sys = lines
    [''You are a strict chat-response validator.'',
     ''Task: evaluate whether the candidate reply directly satisfies the latest user request.'',
     ''Focus on instruction-following and relevance:'',
     ''- The reply must address the latest message, not generic agreement.'',
     ''- If the latest message includes explicit constraints (range, option, format, limit), the reply should follow them.'',
     ''- Keep revised reply concise and natural.'',
     ''Return ONLY valid JSON:'',
     ''{'' @ [CHR 0x22] @ ''ok'' @ [CHR 0x22] @ '':true|false,'' @ [CHR 0x22] @ ''reason'' @ [CHR 0x22] @ '':'' @ [CHR 0x22] @ ''short reason'' @ [CHR 0x22] @ '','' @ [CHR 0x22] @ ''revised_reply'' @ [CHR 0x22] @ '':'' @ [CHR 0x22] @ ''only when ok=false'' @ [CHR 0x22] @ ''}'']"

definition buildCalibrationPrompts :: "string \<Rightarrow> ChatMessage list \<Rightarrow> ChatMessage \<Rightarrow> string \<Rightarrow> string \<times> string" where
  "buildCalibrationPrompts selfName recent latest draft =
     (calibration_sys,
      ''Recent chat:'' @ nl @ concat (map (\<lambda>m. said (cmSenderName m) (cmContent m)) recent) @ nl @
      ''Persona name: '' @ selfName @ nl @
      ''Latest message:'' @ nl @ said (cmSenderName latest) (cmContent latest) @ nl @
      ''Candidate reply:'' @ nl @ draft @ nl)"

definition memory_sys :: string where
  "memory_sys =
    ''You are a memory extraction assistant. Extract ONLY concrete, specific facts about people '' @ [CHR 0xE2, CHR 0x80, CHR 0x94] @ '' things like their real name, age, location, hobbies, job, or relationships. Do NOT store opinions, guesses, conversation summaries, or vague observations. Output 0-2 facts, each on its own line starting with '' @ [CHR 0x22] @ ''- '' @ [CHR 0x22] @ ''. If nothing concrete is worth remembering, output exactly: NONE''"

section \<open>Requests and answers\<close>

type_synonym answer = "(nat \<times> string) option"

type_synonym 'w ollama = "string \<Rightarrow> 'w \<Rightarrow> 'w \<times> answer"

definition integer_json :: "int \<Rightarrow> json" where
  "integer_json i = JNum (decimal_int i)"

definition ollama_request :: "string \<Rightarrow> string \<Rightarrow> string \<Rightarrow> string \<Rightarrow> int \<Rightarrow> string \<Rightarrow> string \<Rightarrow> string" where
  "ollama_request modelName sysPrompt userPrompt format numCtx repeatPenalty temperature =
     json_Render (JObj
       ([(''model'', JStr modelName),
         (''messages'', JArr [JObj [(''role'', JStr ''system''), (''content'', JStr sysPrompt)],
                              JObj [(''role'', JStr ''user''), (''content'', JStr userPrompt)]]),
         (''stream'', JBool False)] @
        omitempty (format = []) (''format'', JStr format) @
        [(''options'', JObj (omitempty (numCtx = 0) (''num_ctx'', integer_json numCtx) @
           [(''repeat_penalty'', JNum repeatPenalty), (''temperature'', JNum temperature)]))]))"

definition decode_response_message :: "string \<times> json \<Rightarrow> string \<Rightarrow> string \<times> bool" where
  "decode_response_message = (\<lambda>(key, v) c. if is_field ''content'' key then decode_string v c else (c, False))"

definition decode_response :: "string \<times> json \<Rightarrow> string \<Rightarrow> string \<times> bool" where
  "decode_response = (\<lambda>(key, v) c. if is_field ''message'' key then decode_struct decode_response_message v c else (c, False))"

text \<open>\<open>json.NewDecoder(body).Decode(&olResp)\<close> reads the first value and ignores what follows; the content, if
  there was no error.\<close>

definition response_content :: "string \<Rightarrow> string option" where
  "response_content body =
     (case parse_value (2 * length body + 1) json_max_depth body of
        Inl _ \<Rightarrow> None
      | Inr (v, _) \<Rightarrow> (case decode_struct decode_response v [] of (c, bad) \<Rightarrow> if bad then None else Some c))"

text \<open>The reply, and whether the model is missing.\<close>

definition callOllamaPlain :: "unicode \<Rightarrow> 'w ollama \<Rightarrow> string \<Rightarrow> string \<Rightarrow> string \<Rightarrow> int \<Rightarrow> 'w \<Rightarrow> 'w \<times> string \<times> bool" where
  "callOllamaPlain U ask modelName sysPrompt userPrompt numCtx w =
     (case ask (ollama_request modelName sysPrompt userPrompt [] numCtx ''1.2'' ''0.45'') w of
        (w', None) \<Rightarrow> (w', [], False)
      | (w', Some (status, body)) \<Rightarrow>
        if status \<noteq> 200 then (w', [], status = 404 \<and> Contains (ToLower U body) ''not found'')
        else (case response_content body of None \<Rightarrow> (w', [], False) | Some c \<Rightarrow> (w', c, False)))"

definition callOllamaCalibration :: "'w ollama \<Rightarrow> string \<Rightarrow> string \<Rightarrow> string \<Rightarrow> int \<Rightarrow> 'w \<Rightarrow> 'w \<times> string" where
  "callOllamaCalibration ask modelName sysPrompt userPrompt numCtx w =
     (case ask (ollama_request modelName sysPrompt userPrompt ''json'' (if numCtx > 2048 then 2048 else numCtx) ''1.1'' ''0.2'') w of
        (w', None) \<Rightarrow> (w', [])
      | (w', Some (status, body)) \<Rightarrow>
        if status \<noteq> 200 then (w', [])
        else (case response_content body of None \<Rightarrow> (w', []) | Some c \<Rightarrow> (w', TrimSpace c)))"

text \<open>The struct with \<open>ok\<close>, \<open>reason\<close> and \<open>revised_reply\<close>; a reason of the wrong type is an error too.\<close>

definition decode_calibration :: "string \<times> json \<Rightarrow> bool \<times> string \<times> string \<Rightarrow> (bool \<times> string \<times> string) \<times> bool" where
  "decode_calibration = (\<lambda>(key, v) (ok, reason, revised).
     if is_field ''ok'' key then (case decode_bool v ok of (b, e) \<Rightarrow> ((b, reason, revised), e))
     else if is_field ''reason'' key then (case decode_string v reason of (s, e) \<Rightarrow> ((ok, s, revised), e))
     else if is_field ''revised_reply'' key then (case decode_string v revised of (s, e) \<Rightarrow> ((ok, reason, s), e))
     else ((ok, reason, revised), False))"

definition parseCalibrationResult :: "string \<Rightarrow> bool \<times> string" where
  "parseCalibrationResult raw0 =
     (let raw = TrimSpace raw0 in
      if raw = [] then (True, [])
      else
        (let raw1 = (case (Index raw ''{'', LastIndexByte raw (CHR ''}'')) of
               (Some start, Some stop) \<Rightarrow> if stop > start then take (stop + 1 - start) (drop start raw) else raw
             | _ \<Rightarrow> raw)
         in case Unmarshal decode_calibration (False, [], []) raw1 of
              ((ok, _, revised), None) \<Rightarrow> (ok, revised)
            | (_, Some _) \<Rightarrow> (True, [])))"

section \<open>Generating a reply\<close>

definition calibrationCtxN :: nat where
  "calibrationCtxN = 6"

definition recent_of :: "nat \<Rightarrow> 'a list \<Rightarrow> 'a list" where
  "recent_of n xs = (if length xs > n then drop (length xs - n) xs else xs)"

definition calibrateReply :: "'w ollama \<Rightarrow> string \<Rightarrow> string \<Rightarrow> ChatMessage list \<Rightarrow> string \<Rightarrow> int \<Rightarrow> 'w \<Rightarrow> 'w \<times> string" where
  "calibrateReply ask modelName selfName history draft numCtx w =
     (if TrimSpace draft = [] \<or> history = [] then (w, draft)
      else
        (let (sysPrompt, userPrompt) = buildCalibrationPrompts selfName (recent_of calibrationCtxN history) (last history) draft
         in case callOllamaCalibration ask modelName sysPrompt userPrompt numCtx w of (w', raw) \<Rightarrow>
              if raw = [] then (w', draft)
              else (case parseCalibrationResult raw of (ok, revised) \<Rightarrow>
                     if ok then (w', draft)
                     else if TrimSpace revised = [] then (w', draft)
                     else (w', TrimSpace revised))))"

definition fallbackModels :: "string list" where
  "fallbackModels = [''nemotron-mini:latest'', ''nemotron-mini'', ''qwen3:4b'', ''llama3.2:3b'', ''llama3:8b'']"

definition tryModels :: "unicode \<Rightarrow> string \<Rightarrow> string list" where
  "tryModels U m = m # filter (\<lambda>candidate. candidate \<noteq> [] \<and> \<not> EqualFold U candidate m) fallbackModels"

text \<open>The loop over the models: the model that answered, if any did, and the reply.  \<open>first\<close> is \<open>idx = 0\<close>; the
  model the persona has to switch to is the second result.\<close>

fun generate_from ::
  "unicode \<Rightarrow> 'w ollama \<Rightarrow> bool \<Rightarrow> string list \<Rightarrow> string \<Rightarrow> string \<Rightarrow> Persona \<Rightarrow> ChatMessage list \<Rightarrow> int \<Rightarrow> bool \<Rightarrow> 'w \<Rightarrow> 'w \<times> string option \<times> string"
where
  "generate_from U ask first [] sysPrompt userPrompt persona history numCtx mentioned w = (w, None, [])"
| "generate_from U ask first (modelName # models) sysPrompt userPrompt persona history numCtx mentioned w =
     (case callOllamaPlain U ask modelName sysPrompt userPrompt numCtx w of (w1, raw, missingModel) \<Rightarrow>
        if raw = [] \<and> \<not> missingModel then (w1, None, [])
        else if raw \<noteq> [] then
          (let switch = (if first then None else Some modelName);
               reply = cleanReply U (TrimSpace (strip_think raw)) mentioned
           in if reply = [] then (w1, switch, [])
              else (case calibrateReply ask modelName (pName persona) history reply numCtx w1 of (w2, calibrated) \<Rightarrow>
                     (w2, switch, cleanReply U (if calibrated \<noteq> [] then calibrated else reply) mentioned)))
        else generate_from U ask False models sysPrompt userPrompt persona history numCtx mentioned w1)"

definition generate ::
  "unicode \<Rightarrow> 'w ollama \<Rightarrow> Persona \<Rightarrow> ChatMessage list \<Rightarrow> string \<Rightarrow> int \<Rightarrow> bool \<Rightarrow> 'w \<Rightarrow> 'w \<times> string option \<times> string" where
  "generate U ask persona history memorySection numCtx mentioned w =
     generate_from U ask True (tryModels U (pModel persona)) (buildChatPrompt persona mentioned @ memorySection)
       (buildUserPrompt history (pName persona) mentioned) persona history numCtx mentioned w"

section \<open>Extracting memories\<close>

definition junkPhrases :: "string list" where
  "junkPhrases = [''none'',
    ''no fact'',
    ''not enough'',
    ''cannot determine'',
    ''no concrete'',
    ''none found'',
    ''not provided'',
    ''conversation'',
    ''chat history'',
    ''possibly'',
    ''maybe'',
    ''earlier'',
    ''talking with'',
    ''having a conversation'',
    ''provided by you'']"

text \<open>The line as it is stored, or nothing.\<close>

definition memory_line :: "unicode \<Rightarrow> string \<Rightarrow> string option" where
  "memory_line U line0 =
     (let line = TrimSpace (TrimPrefix (TrimPrefix (TrimSpace line0) ''- '') ''* '') in
      if line = [] \<or> EqualFold U line ''NONE'' \<or> length line < 10 \<or> length line > 140 then None
      else if list_ex (Contains (ToLower U line)) junkPhrases then None
      else Some line)"

definition memory_facts :: "unicode \<Rightarrow> string \<Rightarrow> string list" where
  "memory_facts U content =
     (let cleaned = TrimSpace (strip_think content) in
      if TrimSpace (ToUpper U cleaned) = ''NONE'' \<or> cleaned = [] then []
      else List.map_filter (memory_line U) (SplitByte (CHR 0x0A) cleaned))"

text \<open>\<open>extractMemories\<close> up to the calls of \<open>memory.Add\<close>: the facts to add, in this order.\<close>

definition extractMemories :: "unicode \<Rightarrow> 'w ollama \<Rightarrow> string \<Rightarrow> ChatMessage list \<Rightarrow> string \<Rightarrow> int \<Rightarrow> 'w \<Rightarrow> 'w \<times> string list" where
  "extractMemories U ask modelName history aiResponse numCtx w =
     (let userPrompt = concat (map (\<lambda>m. said (cmSenderName m) (cmContent m)) (recent_of 10 history)) @ said ''[AI replied]'' aiResponse
      in case ask (ollama_request modelName memory_sys userPrompt [] (if numCtx < 2048 then numCtx else 2048) ''1.3'' ''0.3'') w of
           (w', None) \<Rightarrow> (w', [])
         | (w', Some (status, body)) \<Rightarrow>
           if status \<noteq> 200 then (w', [])
           else (case response_content body of None \<Rightarrow> (w', []) | Some c \<Rightarrow> (w', memory_facts U c)))"

end
