(* ===== verification/Orchestrator.thy ===== *)
theory Orchestrator
  imports Agent_Prompts "HOL-Library.Sublist"
begin

text \<open>
  The state machine of \<open>internal/ai/orchestrator.go\<close>: when the agent replies, and to what.

  \<open>Process\<close> and \<open>ForceReply\<close> hold the mutex twice, around deciding and around publishing, and ask the language
  model in between without it; they are the functions \<open>Process_start\<close>, \<open>generate\<close> and \<open>Process_finish\<close> (and
  \<open>ForceReply_start\<close>, \<open>ForceReply_finish\<close>), so that other operations may run between them, and \<open>Process\<close> composes them
  without interference.  \<open>onReply\<close> is a parameter of the finishing functions, acting on the state \<open>'w\<close> of the program
  around the agent.  A result \<open>None\<close> is a panic.
\<close>

section \<open>State\<close>

definition maxHistory :: nat where
  "maxHistory = 30"

definition decisionCtxN :: nat where
  "decisionCtxN = 8"

definition aiCooldown :: int where
  "aiCooldown = 8 * 1000000000"

definition aiHardStopDepth :: nat where
  "aiHardStopDepth = 6"

definition aiAtAllCooldown :: int where
  "aiAtAllCooldown = 10 * 60 * 1000000000"

record Orchestrator =
  oPersona :: Persona
  oHistory :: "ChatMessage list"
  oMemory :: "MemoryStore option"
  oNumCtx :: int
  oStopped :: bool
  oLastReplyAt :: "time option"
  oNewOthersMsgs :: int
  oLastAtAllAt :: "time option"

definition NewOrchestrator :: "Persona \<Rightarrow> MemoryStore option \<Rightarrow> int \<Rightarrow> Orchestrator" where
  "NewOrchestrator persona memory numCtx =
     \<lparr>oPersona = persona, oHistory = [], oMemory = memory, oNumCtx = (if numCtx \<le> 0 then 4096 else numCtx),
      oStopped = False, oLastReplyAt = None, oNewOthersMsgs = 0, oLastAtAllAt = None\<rparr>"

definition Orchestrator_Stop :: "Orchestrator \<Rightarrow> Orchestrator" where
  "Orchestrator_Stop o1 = o1\<lparr>oStopped := True\<rparr>"

definition compactHistory :: "unicode \<Rightarrow> Orchestrator \<Rightarrow> Orchestrator" where
  "compactHistory U o1 = o1\<lparr>oHistory := recent_of maxHistory (sortChatMessages U (oHistory o1))\<rparr>"

definition AddToHistory :: "unicode \<Rightarrow> ChatMessage \<Rightarrow> Orchestrator \<Rightarrow> Orchestrator" where
  "AddToHistory U msg o1 = compactHistory U (o1\<lparr>oHistory := oHistory o1 @ [msg]\<rparr>)"

definition SetPersona :: "Persona \<Rightarrow> Orchestrator \<Rightarrow> Orchestrator" where
  "SetPersona p o1 =
     (let q = oPersona o1;
          q1 = (if pName p \<noteq> [] then q\<lparr>pName := pName p\<rparr> else q);
          q2 = (if pStyle p \<noteq> [] then q1\<lparr>pStyle := pStyle p\<rparr> else q1);
          q3 = (if pModel p \<noteq> [] then q2\<lparr>pModel := pModel p\<rparr> else q2)
      in o1\<lparr>oPersona := q3\<rparr>)"

definition GetPersona :: "Orchestrator \<Rightarrow> Persona" where
  "GetPersona o1 = oPersona o1"

section \<open>Deciding\<close>

text \<open>The \<open>switch\<close> of \<open>shouldRespondLocked\<close>: invited without a doubt, not at all, or with a score.\<close>

datatype invitation = Direct | NotInvited | Scored rat

definition invitation_of :: "unicode \<Rightarrow> string \<Rightarrow> ChatMessage \<Rightarrow> bool \<Rightarrow> invitation" where
  "invitation_of U personaName latest explicitMention =
     (if explicitMention \<and> \<not> cmIsAI latest then Direct
      else if explicitMention \<and> cmIsAI latest then Scored (fl (78 / 100))
      else if cmMentionAll latest \<and> \<not> cmIsAI latest then Direct
      else if cmMentionAll latest \<and> cmIsAI latest then Scored (fl (28 / 100))
      else if \<not> cmIsAI latest \<and> isOpenGroupPrompt U (cmContent latest) then Scored (fl (30 / 100))
      else if \<not> cmIsAI latest \<and> shouldSurpriseReply latest personaName then Scored (fl (12 / 100))
      else if cmIsAI latest \<and> looksLikeQuestion U (cmContent latest) then Scored (fl (32 / 100))
      else NotInvited)"

definition cool_down :: "time \<Rightarrow> time option \<Rightarrow> rat \<Rightarrow> rat" where
  "cool_down now lastReplyAt score =
     (case lastReplyAt of
        None \<Rightarrow> score
      | Some t \<Rightarrow>
        (let since = time_Sub now t in
         if since < aiCooldown div 3 then fmul score (fl (35 / 100))
         else if since < aiCooldown then fmul score (fl (65 / 100))
         else score))"

text \<open>\<open>shouldRespondLocked\<close>; the reason it also returns is only logged.  \<open>now\<close> is read by \<open>time.Since\<close>.\<close>

definition shouldRespond :: "unicode \<Rightarrow> time \<Rightarrow> ChatMessage \<Rightarrow> nat \<Rightarrow> bool \<Rightarrow> Orchestrator \<Rightarrow> bool" where
  "shouldRespond U now latest consecutiveAI explicitMention o1 =
     (let personaName = pName (oPersona o1) in
      case invitation_of U personaName latest explicitMention of
        Direct \<Rightarrow> True
      | NotInvited \<Rightarrow> False
      | Scored score0 \<Rightarrow>
        (let score1 = (if looksLikeQuestion U (cmContent latest)
                       then fadd score0 (if cmIsAI latest then fl (15 / 100) else fl (20 / 100)) else score0);
             score2 = fmul score1 (chainDecay consecutiveAI);
             score3 = cool_down now (oLastReplyAt o1) score2
         in if cmMentionAll latest \<and> \<not> shouldWinMentionAll latest personaName score3 then False
            else \<not> deterministicFraction (cmID latest @ ''|reply|'' @ personaName) \<ge> clamp01 score3))"

text \<open>What is kept for the time without the mutex.\<close>

record reply_job =
  rjLatest :: ChatMessage
  rjPersona :: Persona
  rjRecent :: "ChatMessage list"
  rjMemory :: string
  rjNumCtx :: int
  rjMustReply :: bool

definition make_job :: "Orchestrator \<Rightarrow> ChatMessage \<Rightarrow> bool \<Rightarrow> reply_job" where
  "make_job o1 latest must =
     \<lparr>rjLatest = latest, rjPersona = oPersona o1, rjRecent = recent_of decisionCtxN (oHistory o1),
      rjMemory = (case oMemory o1 of None \<Rightarrow> [] | Some ms \<Rightarrow> AsPromptSection ms),
      rjNumCtx = oNumCtx o1, rjMustReply = must\<rparr>"

text \<open>\<open>Process\<close> up to \<open>generate\<close>; no job means no reply.\<close>

definition Process_start :: "unicode \<Rightarrow> time \<Rightarrow> ChatMessage list \<Rightarrow> Orchestrator \<Rightarrow> Orchestrator \<times> reply_job option" where
  "Process_start U now newMessages o0 =
     (if oStopped o0 then (o0, None)
      else
        (let filtered = filter (\<lambda>m. cmSenderName m \<noteq> pName (oPersona o0)) newMessages;
             o1 = compactHistory U (o0\<lparr>oNewOthersMsgs := oNewOthersMsgs o0 + int (length filtered), oHistory := oHistory o0 @ filtered\<rparr>)
         in if filtered = [] then (o1, None)
            else
              (let latest = last filtered;
                   explicitMention = messageMentionsPersona U latest (pName (oPersona o1));
                   consecutiveAI = trailingAI U (oHistory o1)
               in if cmIsAI latest \<and> consecutiveAI \<ge> aiHardStopDepth then (o1, None)
                  else if cmMentions latest \<noteq> [] \<and> \<not> cmMentionAll latest \<and> \<not> explicitMention then (o1, None)
                  else if \<not> shouldRespond U now latest consecutiveAI explicitMention o1 then (o1, None)
                  else if oHistory o1 = [] then (o1, None)
                  else (o1, Some (make_job o1 latest (explicitMention \<or> cmMentionAll latest \<and> \<not> cmIsAI latest))))))"

definition ForceReply_start :: "unicode \<Rightarrow> Orchestrator \<Rightarrow> Orchestrator \<times> reply_job option" where
  "ForceReply_start U o0 =
     (if oStopped o0 \<or> oHistory o0 = [] then (o0, None)
      else
        (let o1 = compactHistory U o0 in
         case find (\<lambda>m. \<not> EqualFold U (cmSenderName m) (pName (oPersona o1))) (rev (oHistory o1)) of
           None \<Rightarrow> (o1, None)
         | Some latest \<Rightarrow> (o1, Some (make_job o1 latest True))))"

section \<open>Replying\<close>

definition rewriteAtAll :: "unicode \<Rightarrow> time \<Rightarrow> string \<Rightarrow> Orchestrator \<Rightarrow> string \<times> Orchestrator" where
  "rewriteAtAll U now said_text o1 =
     (if \<not> Contains (ToLower U said_text) ''@all'' then (TrimSpace said_text, o1)
      else if oLastAtAllAt o1 \<noteq> None \<and> time_Sub now (the (oLastAtAllAt o1)) < aiAtAllCooldown then
        (TrimSpace (ReplaceAll (ReplaceAll (ReplaceAll said_text ''@all'' ''everyone'') ''@All'' ''everyone'') ''@ALL'' ''everyone''), o1)
      else (TrimSpace said_text, o1\<lparr>oLastAtAllAt := Some now\<rparr>))"

text \<open>\<open>onReply\<close> gets the persona's name and the text and returns the message that was sent, empty on failure.\<close>

type_synonym 'w onReply = "string \<Rightarrow> string \<Rightarrow> 'w \<Rightarrow> 'w \<times> ChatMessage"

text \<open>The callbacks an agent is given: the first when it is made, the others set later.  Nothing calls the one for tokens.\<close>

record 'w callbacks =
  cbReply :: "'w onReply"
  cbStream :: "(string \<Rightarrow> string \<Rightarrow> 'w \<Rightarrow> 'w) option"
  cbThinking :: "(bool \<Rightarrow> 'w \<Rightarrow> 'w) option"

definition new_callbacks :: "'w onReply \<Rightarrow> 'w callbacks" where
  "new_callbacks onReply = \<lparr>cbReply = onReply, cbStream = None, cbThinking = None\<rparr>"

definition SetStreamCallback :: "(string \<Rightarrow> string \<Rightarrow> 'w \<Rightarrow> 'w) \<Rightarrow> 'w callbacks \<Rightarrow> 'w callbacks" where
  "SetStreamCallback fn cbs = cbs\<lparr>cbStream := Some fn\<rparr>"

definition SetThinkingCallback :: "(bool \<Rightarrow> 'w \<Rightarrow> 'w) \<Rightarrow> 'w callbacks \<Rightarrow> 'w callbacks" where
  "SetThinkingCallback fn cbs = cbs\<lparr>cbThinking := Some fn\<rparr>"

definition thinkingCb :: "'w callbacks \<Rightarrow> bool \<Rightarrow> 'w \<Rightarrow> 'w" where
  "thinkingCb cbs active w = (case cbThinking cbs of None \<Rightarrow> w | Some fn \<Rightarrow> fn active w)"

definition publish_reply :: "unicode \<Rightarrow> 'w onReply \<Rightarrow> time \<Rightarrow> string \<Rightarrow> string \<Rightarrow> Orchestrator \<Rightarrow> 'w \<Rightarrow> Orchestrator \<times> 'w" where
  "publish_reply U onReply now personaName replyText o1 w =
     (case onReply personaName replyText w of (w1, msg) \<Rightarrow>
        (let selfMsg = (if cmContent msg = []
               then \<lparr>cmID = [], cmSenderID = [], cmSenderName = personaName, cmContent = replyText, cmIsAI = True,
                     cmMentions = [], cmMentionAll = False, cmVectorClock = []\<rparr> else msg);
             o2 = compactHistory U (o1\<lparr>oHistory := oHistory o1 @ [selfMsg]\<rparr>)
         in (o2\<lparr>oLastReplyAt := Some now, oNewOthersMsgs := 0\<rparr>, w1)))"

text \<open>\<open>Process\<close> after \<open>generate\<close>; the last component is the text that was published, for \<open>extractMemories\<close>.\<close>

definition Process_finish ::
  "unicode \<Rightarrow> 'w onReply \<Rightarrow> time \<Rightarrow> reply_job \<Rightarrow> string \<Rightarrow> Orchestrator \<Rightarrow> 'w \<Rightarrow> (Orchestrator \<times> 'w \<times> string option) option" where
  "Process_finish U onReply now job generated o1 w =
     (let must = rjMustReply job; personaName = pName (rjPersona job);
          text0 = (if generated = [] \<and> must then fallbackReply U (cmContent (rjLatest job)) else generated)
      in if text0 = [] then Some (o1, w, None)
         else (case stripNamePrefix U text0 personaName of
                 None \<Rightarrow> None
               | Some text1 \<Rightarrow>
                 if oStopped o1 then Some (o1, w, None)
                 else if \<not> must \<and> isDuplicate U text1 (oHistory o1) personaName then Some (o1, w, None)
                 else (case rewriteAtAll U now text1 o1 of (text2, o2) \<Rightarrow>
                        if text2 = [] then Some (o2, w, None)
                        else (case publish_reply U onReply now personaName text2 o2 w of (o3, w1) \<Rightarrow> Some (o3, w1, Some text2)))))"

definition ForceReply_finish ::
  "unicode \<Rightarrow> 'w onReply \<Rightarrow> time \<Rightarrow> reply_job \<Rightarrow> string \<Rightarrow> Orchestrator \<Rightarrow> 'w \<Rightarrow> (Orchestrator \<times> 'w) option" where
  "ForceReply_finish U onReply now job generated o1 w =
     (let personaName = pName (rjPersona job);
          text0 = (if generated = [] then fallbackReply U (cmContent (rjLatest job)) else generated)
      in case stripNamePrefix U text0 personaName of
           None \<Rightarrow> None
         | Some text1 \<Rightarrow>
           if text1 = [] then Some (o1, w)
           else if oStopped o1 then Some (o1, w)
           else (case rewriteAtAll U now text1 o1 of (text2, o2) \<Rightarrow>
                  if text2 = [] then Some (o2, w) else Some (publish_reply U onReply now personaName text2 o2 w)))"

text \<open>\<open>generate\<close> for a job; it switches the persona to the model that answered.\<close>

definition run_generate :: "unicode \<Rightarrow> 'w ollama \<Rightarrow> reply_job \<Rightarrow> Orchestrator \<Rightarrow> 'w \<Rightarrow> Orchestrator \<times> 'w \<times> string" where
  "run_generate U ask job o1 w =
     (case generate U ask (rjPersona job) (rjRecent job) (rjMemory job) (rjNumCtx job) (rjMustReply job) w of
        (w1, switch, generated) \<Rightarrow>
          (case switch of None \<Rightarrow> o1 | Some m \<Rightarrow> o1\<lparr>oPersona := (oPersona o1)\<lparr>pModel := m\<rparr>\<rparr>, w1, generated))"

text \<open>\<open>Process\<close> without interference; \<open>onThinking\<close> is called around it.\<close>

definition Process ::
  "unicode \<Rightarrow> 'w ollama \<Rightarrow> 'w onReply \<Rightarrow> (bool \<Rightarrow> 'w \<Rightarrow> 'w) \<Rightarrow> time \<Rightarrow> time \<Rightarrow> ChatMessage list \<Rightarrow> Orchestrator \<Rightarrow> 'w \<Rightarrow>
    (Orchestrator \<times> 'w \<times> string option) option" where
  "Process U ask onReply onThinking now now2 newMessages o0 w =
     (case Process_start U now newMessages o0 of
        (o1, None) \<Rightarrow> Some (o1, w, None)
      | (o1, Some job) \<Rightarrow>
        (case run_generate U ask job o1 (onThinking True w) of (o2, w2, generated) \<Rightarrow>
           map_option (\<lambda>(o3, w3, sent). (o3, onThinking False w3, sent)) (Process_finish U onReply now2 job generated o2 w2)))"

definition ForceReply ::
  "unicode \<Rightarrow> 'w ollama \<Rightarrow> 'w onReply \<Rightarrow> (bool \<Rightarrow> 'w \<Rightarrow> 'w) \<Rightarrow> time \<Rightarrow> Orchestrator \<Rightarrow> 'w \<Rightarrow> (Orchestrator \<times> 'w) option" where
  "ForceReply U ask onReply onThinking now o0 w =
     (case ForceReply_start U o0 of
        (o1, None) \<Rightarrow> Some (o1, w)
      | (o1, Some job) \<Rightarrow>
        (case run_generate U ask job o1 (onThinking True w) of (o2, w2, generated) \<Rightarrow>
           map_option (\<lambda>(o3, w3). (o3, onThinking False w3)) (ForceReply_finish U onReply now job generated o2 w2)))"

text \<open>What is remembered after a reply; \<open>extractMemories\<close> runs two seconds later, unless the agent was stopped.\<close>

definition remember :: "unicode \<Rightarrow> 'w ollama \<Rightarrow> reply_job \<Rightarrow> string \<Rightarrow> Orchestrator \<Rightarrow> 'w \<Rightarrow> 'w \<times> string list" where
  "remember U ask job sent o1 w =
     (if oMemory o1 = None \<or> oStopped o1 then (w, [])
      else extractMemories U ask (pModel (rjPersona job)) (rjRecent job) sent (rjNumCtx job) w)"

section \<open>A reply is never blank\<close>

text \<open>Texts that do not end in white space.\<close>

definition solid :: "string \<Rightarrow> bool" where
  "solid s = (s \<noteq> [] \<and> rspace_at (rev s) = 0)"

lemma code_at_0: "[] \<notin> set cs \<Longrightarrow> code_at cs s = 0 \<longleftrightarrow> (\<forall>k \<in> set cs. take (length k) s \<noteq> k)"
  by (induction cs) auto

lemma space_codes_nonempty: "k \<in> set space_codes \<Longrightarrow> k \<noteq> []"
  using space_heads by (auto simp: list_all_iff)

lemma solid_iff: "solid s \<longleftrightarrow> s \<noteq> [] \<and> (\<forall>k \<in> set space_codes. \<not> suffix k s)"
proof -
  have "[] \<notin> set (map rev space_codes)" using space_codes_nonempty by auto
  then have "rspace_at (rev s) = 0 \<longleftrightarrow> (\<forall>k \<in> set space_codes. take (length k) (rev s) \<noteq> rev k)"
    unfolding rspace_at_def by (simp add: code_at_0)
  moreover have "take (length k) (rev s) = rev k \<longleftrightarrow> suffix k s" for k
    by (metis length_rev prefix_def append_eq_conv_conj suffix_to_prefix)
  ultimately show ?thesis by (simp add: solid_def)
qed

lemma solid_suffix: "solid s \<Longrightarrow> suffix t s \<Longrightarrow> t \<noteq> [] \<Longrightarrow> solid t"
  by (auto simp: solid_iff intro: suffix_order.trans)

lemma solid_last: "s \<noteq> [] \<Longrightarrow> no_space (last s) \<Longrightarrow> solid s"
  using no_space_at(2) [of "last s" "tl (rev s)"] by (cases s rule: rev_cases) (auto simp: solid_def)

lemma space_at_code: "space_at s \<noteq> 0 \<Longrightarrow> \<exists>k \<in> set space_codes. s = k @ drop (space_at s) s"
proof -
  have "code_at cs s \<noteq> 0 \<Longrightarrow> \<exists>k \<in> set cs. s = k @ drop (code_at cs s) s" for cs
    by (induction cs) (auto, metis append_take_drop_id)
  then show "space_at s \<noteq> 0 \<Longrightarrow> \<exists>k \<in> set space_codes. s = k @ drop (space_at s) s"
    unfolding space_at_def .
qed

lemma drop_codes_suffix: "suffix (drop_codes f s) s"
proof (induction f s rule: drop_codes.induct)
  case (1 f s)
  then show ?case
    by (subst drop_codes.simps) (auto intro: suffix_order.trans suffix_drop)
qed

lemma drop_codes_solid: "solid s \<Longrightarrow> drop_codes space_at s \<noteq> []"
proof (induction space_at s rule: drop_codes.induct)
  case (1 s)
  show ?case
  proof (cases "space_at s = 0")
    case True
    with 1(2) show ?thesis by (subst drop_codes.simps) (simp add: solid_def)
  next
    case False
    then obtain k where k: "k \<in> set space_codes" "s = k @ drop (space_at s) s" using space_at_code by blast
    with 1(2) have "drop (space_at s) s \<noteq> []" by (auto simp: solid_iff)
    then have "solid (drop (space_at s) s)" using 1(2) solid_suffix suffix_drop by blast
    with 1(1) False 1(2) have "drop_codes space_at (drop (space_at s) s) \<noteq> []" by (simp add: solid_def)
    with False 1(2) show ?thesis by (subst drop_codes.simps) (simp add: solid_def)
  qed
qed

lemma TrimSpace_solid: "solid s \<Longrightarrow> TrimSpace s \<noteq> []"
proof -
  assume s: "solid s"
  let ?t = "drop_codes space_at s"
  have "solid ?t" using s drop_codes_solid drop_codes_suffix solid_suffix by blast
  then have "drop_codes rspace_at (rev ?t) = rev ?t" by (subst drop_codes.simps) (simp add: solid_def)
  then show ?thesis using drop_codes_solid [OF s] by (simp add: TrimSpace_def)
qed

lemma drop_codes_at: "drop_codes f s = [] \<or> f (drop_codes f s) = 0"
proof (induction f s rule: drop_codes.induct)
  case (1 f s)
  then show ?case by (cases "f s = 0 \<or> s = []") (auto simp: drop_codes.simps [of f s])
qed

lemma solid_TrimSpace: "TrimSpace s \<noteq> [] \<Longrightarrow> solid (TrimSpace s)"
  using drop_codes_at [of rspace_at "rev (drop_codes space_at s)"] by (auto simp: TrimSpace_def solid_def)

text \<open>Replacing by a text of ASCII letters makes no white space at the end.\<close>

definition plain :: "string \<Rightarrow> bool" where
  "plain new = (new \<noteq> [] \<and> list_all no_space new)"

lemma space_codes_not_plain: "k \<in> set space_codes \<Longrightarrow> c \<in> set k \<Longrightarrow> \<not> no_space c"
proof -
  have "list_all (list_all (\<lambda>c. \<not> no_space c)) space_codes" by code_simp
  then show "k \<in> set space_codes \<Longrightarrow> c \<in> set k \<Longrightarrow> \<not> no_space c" by (auto simp: list_all_iff)
qed

lemma solid_append_plain:
  assumes "plain new" and "solid t"
  shows "solid (new @ t)"
proof -
  have "\<not> suffix k (new @ t)" if k: "k \<in> set space_codes" for k
  proof
    assume "suffix k (new @ t)"
    then consider "suffix k t" | u where "k = u @ t" "suffix u new" by (auto simp: suffix_append)
    then show False
    proof cases
      case 1
      with k assms(2) show False by (auto simp: solid_iff)
    next
      case 2
      show False
      proof (cases "u = []")
        case True
        with 2 k assms(2) show False by (auto simp: solid_iff)
      next
        case False
        then have "last u \<in> set new" using 2(2) by (auto simp: suffix_def)
        then have "no_space (last u)" using assms(1) by (simp add: plain_def list_all_iff)
        moreover have "last u \<in> set k" using False 2(1) by simp
        ultimately show False using space_codes_not_plain [OF k] by blast
      qed
    qed
  qed
  with assms(2) show ?thesis by (simp add: solid_iff)
qed

lemma ReplaceAll_unchanged:
  "plain new \<Longrightarrow> \<forall>c \<in> set (ReplaceAll s old new). \<not> no_space c \<Longrightarrow> ReplaceAll s old new = s"
proof (induction s old new rule: ReplaceAll.induct)
  case (1 s old new)
  show ?case
  proof (cases "s = [] \<or> old = []")
    case True
    then show ?thesis by (subst ReplaceAll.simps) simp
  next
    case False
    show ?thesis
    proof (cases "HasPrefix s old")
      case True
      then have "set new \<subseteq> set (ReplaceAll s old new)" using False by (subst ReplaceAll.simps) auto
      with 1(3,4) show ?thesis by (cases new) (auto simp: plain_def)
    next
      case nopre: False
      then have "ReplaceAll s old new = hd s # ReplaceAll (tl s) old new" using False by (subst ReplaceAll.simps) simp
      with 1 False nopre show ?thesis by simp
    qed
  qed
qed

lemma ReplaceAll_solid: "plain new \<Longrightarrow> solid s \<Longrightarrow> solid (ReplaceAll s old new)"
proof (induction s old new rule: ReplaceAll.induct)
  case (1 s old new)
  show ?case
  proof (cases "s = [] \<or> old = []")
    case True
    with 1(4) show ?thesis by (subst ReplaceAll.simps) simp
  next
    case False
    show ?thesis
    proof (cases "HasPrefix s old")
      case True
      let ?r = "ReplaceAll (drop (length old) s) old new"
      have eq: "ReplaceAll s old new = new @ ?r" using False True by (subst ReplaceAll.simps) simp
      show ?thesis
      proof (cases "drop (length old) s = []")
        case True
        then have "?r = []" by (subst ReplaceAll.simps) simp
        with 1(3) show ?thesis by (simp add: eq plain_def list_all_iff solid_last)
      next
        case rest: False
        then have "solid (drop (length old) s)" using 1(4) solid_suffix suffix_drop by blast
        with 1(1) False True 1(3) have "solid ?r" by simp
        with 1(3) show ?thesis by (simp add: eq solid_append_plain)
      qed
    next
      case nopre: False
      let ?r = "ReplaceAll (tl s) old new"
      have eq: "ReplaceAll s old new = hd s # ?r" using False nopre by (subst ReplaceAll.simps) simp
      show ?thesis
      proof (cases "tl s = []")
        case True
        then have "?r = []" by (subst ReplaceAll.simps) simp
        with True False have "hd s # ?r = s" by (cases s) auto
        with 1(4) show ?thesis by (simp only: eq)
      next
        case rest: False
        then have "solid (tl s)" using 1(4) solid_suffix [of s "tl s"] by (simp add: suffix_tl)
        with 1(2) False nopre 1(3) have r: "solid ?r" by simp
        have "\<not> suffix k (hd s # ?r)" if k: "k \<in> set space_codes" for k
        proof
          assume a: "suffix k (hd s # ?r)"
          have "\<not> suffix k ?r" using r k by (simp add: solid_iff)
          with a have "k = hd s # ?r" by (auto simp: suffix_Cons)
          then have "\<forall>c \<in> set ?r. \<not> no_space c" using space_codes_not_plain [OF k] by auto
          then have "?r = tl s" using 1(3) ReplaceAll_unchanged by blast
          with \<open>k = hd s # ?r\<close> False have "k = s" by simp
          with 1(4) k show False by (auto simp: solid_iff)
        qed
        then show ?thesis by (simp add: eq solid_iff)
      qed
    qed
  qed
qed

lemma cleanReply_solid: "cleanReply U s b = [] \<or> solid (cleanReply U s b)"
  using solid_TrimSpace by (auto simp: cleanReply_def Let_def)

lemma generate_from_solid: "generate_from U ask first models p1 p2 persona history n b w = (w', switch, said_text) \<Longrightarrow> said_text = [] \<or> solid said_text"
proof (induction U ask first models p1 p2 persona history n b w rule: generate_from.induct)
  case (2 U ask first modelName models p1 p2 persona history n b w)
  obtain w1 raw missing where c: "callOllamaPlain U ask modelName p1 p2 n w = (w1, raw, missing)" by (metis surj_pair)
  show ?case
  proof (cases "raw = [] \<and> missing")
    case True
    with 2 c show ?thesis by auto
  next
    case False
    with "2.prems" c cleanReply_solid show ?thesis by (auto simp: Let_def split: if_splits prod.splits)
  qed
qed simp

lemma fallbackReply_solid: "solid (fallbackReply U s)"
proof -
  have "fallbackReply U s \<in> {''Good morning everyone!'', ''Good night everyone!'', ''I'' @ [CHR 0x27] @ ''m down!'', ''Hey everyone!'', ''Sounds good!''}"
    by (simp add: fallbackReply_def Let_def)
  then show ?thesis by (auto intro!: solid_last simp: no_space_def)
qed

text \<open>What is documented of case mapping: every code point is mapped to one code point, so a text whose lower-case
  form begins with ASCII characters has at least as many bytes as these.\<close>

definition case_lengths :: "unicode \<Rightarrow> bool" where
  "case_lengths U = (\<forall>s p. is_ascii p \<and> HasPrefix (u_lower U s) p \<longrightarrow> length p \<le> length s)"

lemma stripNamePrefix_solid:
  assumes "case_lengths U" "is_ascii nm" "solid s"
  obtains t where "stripNamePrefix U s nm = Some t" "solid t"
proof -
  have low: "is_ascii (ToLower U nm)" "length (ToLower U nm) = length nm"
    using assms(2) by (auto simp: ToLower_def is_ascii_def list_all_iff ascii_lower_def)
  have "length nm \<le> length s" if "HasPrefix (ToLower U s) (ToLower U nm)"
  proof (cases "is_ascii s")
    case True
    with that low show ?thesis by (auto simp: ToLower_def [of U s] HasPrefix_iff dest!: arg_cong [where f = length])
  next
    case False
    with that low assms(1) show ?thesis unfolding case_lengths_def ToLower_def [of U s] by (metis (full_types))
  qed
  moreover have "solid t" if "t = TrimLeft (drop (length nm) s) cs" "t \<noteq> []" for t cs
  proof -
    have "suffix t s" unfolding that TrimLeft_def by (meson suffix_dropWhile suffix_drop suffix_order.trans)
    with assms(3) that(2) show ?thesis using solid_suffix by blast
  qed
  ultimately have "\<exists>t. stripNamePrefix U s nm = Some t \<and> solid t"
    using assms(3) unfolding stripNamePrefix_def Let_def by (auto simp: not_less)
  with that show thesis by blast
qed

lemma rewriteAtAll_solid: "solid s \<Longrightarrow> solid (fst (rewriteAtAll U now s o1))"
proof -
  assume s: "solid s"
  have "plain ''everyone''" by code_simp
  then show ?thesis using s by (auto simp: rewriteAtAll_def ReplaceAll_solid TrimSpace_solid solid_TrimSpace)
qed

text \<open>A name whose lower-case form is shorter than itself breaks this: an answer that is the lower-case form panics.\<close>

lemma shrinking_name_panics:
  assumes "ToLower U nm = ToLower U (ToLower U nm)" and "length (ToLower U nm) < length nm"
  shows "stripNamePrefix U (ToLower U nm) nm = None"
  using assms by (simp add: stripNamePrefix_def Let_def HasPrefix_iff)

text \<open>U+0130, the dotted capital I, has two bytes and a lower-case form of one.\<close>

lemma dotted_capital_panics:
  assumes "u_lower U ([CHR 0xC4, CHR 0xB0] @ ''lker'') = ''ilker''"
  shows "stripNamePrefix U ''ilker'' ([CHR 0xC4, CHR 0xB0] @ ''lker'') = None"
proof -
  have "ToLower U ([CHR 0xC4, CHR 0xB0] @ ''lker'') = ''ilker''" "ToLower U ''ilker'' = ''ilker''"
    using assms by (simp_all add: ToLower_def is_ascii_def) (simp add: ascii_lower_def)
  then show ?thesis using shrinking_name_panics [of U "[CHR 0xC4, CHR 0xB0] @ ''lker''"] by simp
qed

section \<open>The reply policy\<close>

lemma set_sortChatMessages [simp]: "set (sortChatMessages U xs) = set xs" "length (sortChatMessages U xs) = length xs"
  by (simp_all add: sortChatMessages_def)

lemma recent_of_length [simp]: "length (recent_of n xs) = min n (length xs)" "set (recent_of n xs) \<subseteq> set xs"
  by (auto simp: recent_of_def dest: in_set_dropD)

lemma compactHistory_simps [simp]:
  "length (oHistory (compactHistory U o1)) = min maxHistory (length (oHistory o1))"
  "oPersona (compactHistory U o1) = oPersona o1" "oStopped (compactHistory U o1) = oStopped o1"
  "oNumCtx (compactHistory U o1) = oNumCtx o1" "oMemory (compactHistory U o1) = oMemory o1"
  by (simp_all add: compactHistory_def)

text \<open>The newest message of others in a batch.\<close>

definition others :: "ChatMessage list \<Rightarrow> Orchestrator \<Rightarrow> ChatMessage list" where
  "others msgs o1 = filter (\<lambda>m. cmSenderName m \<noteq> pName (oPersona o1)) msgs"

lemma Process_start_job:
  assumes "Process_start U now msgs o0 = (o1, Some job)"
  shows "others msgs o0 \<noteq> []" "rjLatest job = last (others msgs o0)" "\<not> oStopped o0" "oStopped o1 = oStopped o0"
    "length (oHistory o1) \<le> maxHistory"
    "\<not> (cmIsAI (rjLatest job) \<and> trailingAI U (oHistory o1) \<ge> aiHardStopDepth)"
    "cmMentions (rjLatest job) \<noteq> [] \<longrightarrow> cmMentionAll (rjLatest job) \<or> messageMentionsPersona U (rjLatest job) (pName (oPersona o0))"
    "rjMustReply job \<longleftrightarrow> messageMentionsPersona U (rjLatest job) (pName (oPersona o0)) \<or> cmMentionAll (rjLatest job) \<and> \<not> cmIsAI (rjLatest job)"
  using assms by (auto simp: Process_start_def Let_def others_def make_job_def split: if_splits)

lemma Process_start_direct:
  assumes "\<not> oStopped o0" "others msgs o0 \<noteq> []" "\<not> cmIsAI (last (others msgs o0))"
    and "messageMentionsPersona U (last (others msgs o0)) (pName (oPersona o0)) \<or> cmMentionAll (last (others msgs o0))"
  obtains o1 job where "Process_start U now msgs o0 = (o1, Some job)" "rjMustReply job" "rjLatest job = last (others msgs o0)"
    "\<not> oStopped o1" "pName (rjPersona job) = pName (oPersona o0)"
proof -
  define o1 where "o1 = compactHistory U (o0\<lparr>oNewOthersMsgs := oNewOthersMsgs o0 + int (length (others msgs o0)), oHistory := oHistory o0 @ others msgs o0\<rparr>)"
  have "length (oHistory o1) \<noteq> 0" using assms(2) by (simp add: o1_def maxHistory_def)
  then have ne: "oHistory o1 \<noteq> []" by simp
  have persona: "oPersona o1 = oPersona o0" "oStopped o1 = oStopped o0" by (simp_all add: o1_def)
  have "shouldRespond U now (last (others msgs o0)) n (messageMentionsPersona U (last (others msgs o0)) (pName (oPersona o0))) o1" for n
    using assms(3,4) by (auto simp: shouldRespond_def invitation_of_def Let_def)
  then have "Process_start U now msgs o0 =
      (o1, Some (make_job o1 (last (others msgs o0)) (messageMentionsPersona U (last (others msgs o0)) (pName (oPersona o0)) \<or>
        cmMentionAll (last (others msgs o0)) \<and> \<not> cmIsAI (last (others msgs o0)))))"
    unfolding Process_start_def Let_def others_def [symmetric] o1_def [symmetric]
    using assms ne persona by auto
  then show thesis
    using that assms(1,3,4) persona by (auto simp: make_job_def)
qed

lemma Process_finish_must:
  assumes "case_lengths U" "is_ascii (pName (rjPersona job))" "rjMustReply job" "\<not> oStopped o1" "generated = [] \<or> solid generated"
  shows "\<exists>o2 said_text. Process_finish U onReply now job generated o1 w =
    Some (o2, fst (onReply (pName (rjPersona job)) said_text w), Some said_text) \<and> TrimSpace said_text \<noteq> []"
proof -
  define text0 where "text0 = (if generated = [] \<and> rjMustReply job then fallbackReply U (cmContent (rjLatest job)) else generated)"
  have solid0: "solid text0" using assms(3,5) fallbackReply_solid by (auto simp: text0_def)
  obtain text1 where text1: "stripNamePrefix U text0 (pName (rjPersona job)) = Some text1" "solid text1"
    by (rule stripNamePrefix_solid [OF assms(1,2) solid0])
  obtain text2 o2 where text2: "rewriteAtAll U now text1 o1 = (text2, o2)" "text2 \<noteq> []" "TrimSpace text2 \<noteq> []"
    using rewriteAtAll_solid [OF text1(2)] TrimSpace_solid by (metis prod.collapse solid_def)
  have reply: "snd (publish_reply U onReply now (pName (rjPersona job)) text2 o2 w) = fst (onReply (pName (rjPersona job)) text2 w)"
    by (simp add: publish_reply_def Let_def split: prod.split)
  have "text0 \<noteq> []" using solid0 by (simp add: solid_def)
  then have "Process_finish U onReply now job generated o1 w =
      Some (fst (publish_reply U onReply now (pName (rjPersona job)) text2 o2 w), fst (onReply (pName (rjPersona job)) text2 w), Some text2)"
    unfolding Process_finish_def Let_def text0_def [symmetric]
    using assms(3,4) text1(1) text2 reply by (simp add: split_beta)
  with text2(3) show ?thesis by blast
qed

section \<open>The agent as a machine\<close>

text \<open>The agent with the jobs under way; the flag says that a job was forced.  The model's answer and what \<open>onReply\<close> returns
  are arbitrary; a panic has no successor.\<close>

inductive agent_step :: "unicode \<Rightarrow> Orchestrator \<times> (bool \<times> reply_job) list \<Rightarrow> Orchestrator \<times> (bool \<times> reply_job) list \<Rightarrow> bool"
  for U :: unicode where
  remember_message: "agent_step U (o1, jobs) (AddToHistory U m o1, jobs)"
| set_persona: "agent_step U (o1, jobs) (SetPersona p o1, jobs)"
| stop: "agent_step U (o1, jobs) (Orchestrator_Stop o1, jobs)"
| no_job: "Process_start U now msgs o1 = (o2, None) \<Longrightarrow> agent_step U (o1, jobs) (o2, jobs)"
| new_job: "Process_start U now msgs o1 = (o2, Some job) \<Longrightarrow> agent_step U (o1, jobs) (o2, jobs @ [(False, job)])"
| no_forced: "ForceReply_start U o1 = (o2, None) \<Longrightarrow> agent_step U (o1, jobs) (o2, jobs)"
| new_forced: "ForceReply_start U o1 = (o2, Some job) \<Longrightarrow> agent_step U (o1, jobs) (o2, jobs @ [(True, job)])"
| switch_model: "agent_step U (o1, jobs) (o1\<lparr>oPersona := (oPersona o1)\<lparr>pModel := model\<rparr>\<rparr>, jobs)"
| finish: "Process_finish U onReply now job generated o1 () = Some (o2, w, sent) \<Longrightarrow>
    agent_step U (o1, before @ (False, job) # later) (o2, before @ later)"
| finish_forced: "ForceReply_finish U onReply now job generated o1 () = Some (o2, w) \<Longrightarrow>
    agent_step U (o1, before @ (True, job) # later) (o2, before @ later)"

definition agent_inv :: "unicode \<Rightarrow> Orchestrator \<times> (bool \<times> reply_job) list \<Rightarrow> bool" where
  "agent_inv U s = (case s of (o1, jobs) \<Rightarrow> length (oHistory o1) \<le> 30 \<and>
     (\<forall>job. (False, job) \<in> set jobs \<longrightarrow> cmSenderName (rjLatest job) \<noteq> pName (rjPersona job) \<and>
       (cmMentions (rjLatest job) = [] \<or> cmMentionAll (rjLatest job) \<or> messageMentionsPersona U (rjLatest job) (pName (rjPersona job)))))"

lemma history_bounded:
  "length (oHistory (AddToHistory U m o1)) \<le> 30" "oHistory (SetPersona p o1) = oHistory o1"
  "oHistory (Orchestrator_Stop o1) = oHistory o1"
  "Process_start U now msgs o1 = (o2, r) \<Longrightarrow> length (oHistory o1) \<le> 30 \<Longrightarrow> length (oHistory o2) \<le> 30"
  "ForceReply_start U o1 = (o2, r) \<Longrightarrow> length (oHistory o1) \<le> 30 \<Longrightarrow> length (oHistory o2) \<le> 30"
  "publish_reply U onReply now nm replied o1 w = (o2, w1) \<Longrightarrow> length (oHistory o2) \<le> 30"
  "rewriteAtAll U now replied o1 = (replied1, o2) \<Longrightarrow> oHistory o2 = oHistory o1"
  by (auto simp: AddToHistory_def SetPersona_def Orchestrator_Stop_def Let_def Process_start_def ForceReply_start_def publish_reply_def
      rewriteAtAll_def maxHistory_def split: if_splits option.splits prod.splits)

lemma finish_bounded:
  assumes "length (oHistory o1) \<le> 30"
  shows "Process_finish U onReply now job generated o1 w = Some (o2, w2, sent) \<Longrightarrow> length (oHistory o2) \<le> 30"
    and "ForceReply_finish U onReply now job generated o1 w = Some (o2, w2) \<Longrightarrow> length (oHistory o2) \<le> 30"
  using assms
  by (auto simp: Process_finish_def ForceReply_finish_def Let_def dest: history_bounded(6,7) split: if_splits option.splits prod.splits)

lemma stopped_finish:
  assumes "oStopped o1"
  shows "Process_finish U onReply now job generated o1 w \<in> {None, Some (o1, w, None)}"
    and "ForceReply_finish U onReply now job generated o1 w \<in> {None, Some (o1, w)}"
  using assms by (auto simp: Process_finish_def ForceReply_finish_def Let_def split: option.splits)

lemma new_job_ok:
  assumes "Process_start U now msgs o1 = (o2, Some job)"
  shows "cmSenderName (rjLatest job) \<noteq> pName (rjPersona job)"
    and "cmMentions (rjLatest job) = [] \<or> cmMentionAll (rjLatest job) \<or> messageMentionsPersona U (rjLatest job) (pName (rjPersona job))"
proof -
  have "rjPersona job = oPersona o1" using assms by (auto simp: Process_start_def make_job_def Let_def split: if_splits)
  then show "cmSenderName (rjLatest job) \<noteq> pName (rjPersona job)"
    and "cmMentions (rjLatest job) = [] \<or> cmMentionAll (rjLatest job) \<or> messageMentionsPersona U (rjLatest job) (pName (rjPersona job))"
    using Process_start_job [OF assms] last_in_set [of "others msgs o1"] by (auto simp: others_def)
qed

lemma agent_step_inv: "agent_step U s s' \<Longrightarrow> agent_inv U s \<Longrightarrow> agent_inv U s'"
  by (induction rule: agent_step.induct)
    (auto simp: agent_inv_def history_bounded(1-3) new_job_ok intro: history_bounded(4,5) finish_bounded)

lemma agent_reachable: "(agent_step U)\<^sup>*\<^sup>* s s' \<Longrightarrow> agent_inv U s \<Longrightarrow> agent_inv U s'"
  by (induction rule: rtranclp_induct) (auto intro: agent_step_inv)

lemma run_generate_simps:
  assumes "run_generate U ask job o1 w = (o2, w2, generated)"
  shows "oStopped o2 = oStopped o1" "generated = [] \<or> solid generated" "oHistory o2 = oHistory o1"
  using assms by (auto simp: run_generate_def generate_def split: prod.splits option.splits dest: generate_from_solid)

lemma compareVectorClock_Compare:
  assumes "a \<noteq> []" "b \<noteq> []"
  shows "compareVectorClock a b = (case Compare a b of Before \<Rightarrow> - 1 | After \<Rightarrow> 1 | _ \<Rightarrow> 0)"
proof -
  have "(\<exists>k \<in> fst ` set a \<union> fst ` set b. counters a k < counters b k) \<longleftrightarrow> (\<exists>k. counters a k < counters b k)"
    "(\<exists>k \<in> fst ` set a \<union> fst ` set b. counters b k < counters a k) \<longleftrightarrow> (\<exists>k. counters b k < counters a k)"
    by (blast dest: less_counter_key)+
  then have "list_ex (\<lambda>k. go_get 0 a k < go_get 0 b k) (map fst a @ map fst b) \<longleftrightarrow> (\<exists>k. counters a k < counters b k)"
    "list_ex (\<lambda>k. go_get 0 b k < go_get 0 a k) (map fst a @ map fst b) \<longleftrightarrow> (\<exists>k. counters b k < counters a k)"
    unfolding list_ex_iff set_append set_map counters_def by blast+
  then show ?thesis using assms by (simp add: compareVectorClock_def Let_def Compare_flags)
qed

section \<open>Properties\<close>

text \<open>C21. Whoever addresses an agent with an ASCII name gets an answer.  When the newest message of others in a batch is from a
  human and mentions the persona or everyone, and the agent is not stopped, \<open>Process\<close> without interference publishes one text
  with a character that is not white space -- whatever the language model returns, also nothing.  It is assumed of Go's
  lower-casing that a text whose lower-case form begins with ASCII characters is no shorter than these.  (Of other names this
  is not true: \<open>shrinking_name_panics\<close>.)\<close>

theorem addressed_agent_replies:
  assumes "case_lengths U" and "is_ascii (pName (oPersona o0))" and "\<not> oStopped o0"
    and "filter (\<lambda>m. cmSenderName m \<noteq> pName (oPersona o0)) msgs = earlier @ [latest]" and "\<not> cmIsAI latest"
    and "messageMentionsPersona U latest (pName (oPersona o0)) \<or> cmMentionAll latest"
  shows "\<exists>o3 w2 said_text. TrimSpace said_text \<noteq> [] \<and>
    Process U ask onReply onThinking now now2 msgs o0 w =
      Some (o3, onThinking False (fst (onReply (pName (oPersona o0)) said_text w2)), Some said_text)"
proof -
  have latest: "others msgs o0 \<noteq> []" "last (others msgs o0) = latest" using assms(4) by (simp_all add: others_def)
  then obtain o1 job where start: "Process_start U now msgs o0 = (o1, Some job)" "rjMustReply job"
    "\<not> oStopped o1" "pName (rjPersona job) = pName (oPersona o0)"
    using Process_start_direct [OF assms(3) latest(1), of U] assms(5,6) by metis
  obtain o2 w2 generated where gen: "run_generate U ask job o1 (onThinking True w) = (o2, w2, generated)" by (metis surj_pair)
  have "\<not> oStopped o2" "generated = [] \<or> solid generated" using run_generate_simps [OF gen] start(3) by auto
  then obtain o3 said_text where "Process_finish U onReply now2 job generated o2 w2 =
      Some (o3, fst (onReply (pName (rjPersona job)) said_text w2), Some said_text)" "TrimSpace said_text \<noteq> []"
    using Process_finish_must [OF assms(1) _ start(2)] assms(2) start(4) by metis
  with start gen show ?thesis by (auto simp: Process_def)
qed

text \<open>C20. What the agent never answers on its own.  In every state reachable from a new agent by batches, forced replies, answers of
  the model, messages to remember, changes of persona and stopping, in any order and overlapping: a job of \<open>Process\<close> -- the button
  of the user, \<open>ForceReply\<close>, is exempt -- is never about a message under the agent's own name, nor about one that mentions
  others but neither the agent nor everyone; \<open>Process\<close> makes none for an agent's message at the end of six or more agents'
  messages in a row, and none once stopped, and a stopped agent publishes nothing more, forced or not.  The history has at most
  30 messages throughout.\<close>

theorem agent_stays_silent:
  assumes "(agent_step U)\<^sup>*\<^sup>* (NewOrchestrator persona memory numCtx, []) (o0, jobs)"
  shows "length (oHistory o0) \<le> 30 \<and>
    (\<forall>job. (False, job) \<in> set jobs \<longrightarrow> cmSenderName (rjLatest job) \<noteq> pName (rjPersona job) \<and>
      (cmMentions (rjLatest job) = [] \<or> cmMentionAll (rjLatest job) \<or> messageMentionsPersona U (rjLatest job) (pName (rjPersona job)))) \<and>
    (\<forall>now msgs o1 job. Process_start U now msgs o0 = (o1, Some job) \<longrightarrow>
      \<not> oStopped o0 \<and> \<not> (cmIsAI (rjLatest job) \<and> trailingAI U (oHistory o1) \<ge> 6)) \<and>
    (oStopped o0 \<longrightarrow> (\<forall>onReply now job generated. Process_finish U onReply now job generated o0 () \<in> {None, Some (o0, (), None)} \<and>
      ForceReply_finish U onReply now job generated o0 () \<in> {None, Some (o0, ())}))"
proof -
  have "agent_inv U (o0, jobs)" using agent_reachable [OF assms] by (simp add: agent_inv_def NewOrchestrator_def)
  then have silent: "length (oHistory o0) \<le> 30 \<and> (\<forall>job. (False, job) \<in> set jobs \<longrightarrow> cmSenderName (rjLatest job) \<noteq> pName (rjPersona job) \<and>
      (cmMentions (rjLatest job) = [] \<or> cmMentionAll (rjLatest job) \<or> messageMentionsPersona U (rjLatest job) (pName (rjPersona job))))"
    unfolding agent_inv_def prod.case .
  have "\<not> oStopped o0 \<and> \<not> (cmIsAI (rjLatest job) \<and> trailingAI U (oHistory o1) \<ge> 6)"
    if "Process_start U now msgs o0 = (o1, Some job)" for now msgs o1 job
    using Process_start_job(3,6) [OF that] by (simp add: aiHardStopDepth_def)
  then have start: "\<forall>now msgs o1 job. Process_start U now msgs o0 = (o1, Some job) \<longrightarrow>
      \<not> oStopped o0 \<and> \<not> (cmIsAI (rjLatest job) \<and> trailingAI U (oHistory o1) \<ge> 6)" by blast
  have "oStopped o0 \<longrightarrow> (\<forall>onReply now job generated. Process_finish U onReply now job generated o0 () \<in> {None, Some (o0, (), None)} \<and>
      ForceReply_finish U onReply now job generated o0 () \<in> {None, Some (o0, ())})"
    by (intro impI allI conjI stopped_finish)
  with silent start show ?thesis by (elim conjE, intro conjI)
qed

text \<open>The agent and the clock package order clocks alike: on clocks with an entry, \<open>compareVectorClock\<close> is
  \<open>clock.Compare\<close> with equal and concurrent clocks both unordered.\<close>

theorem agent_compares_clocks_as_the_clock_package:
  assumes "a \<noteq> []" and "b \<noteq> []"
  shows "compareVectorClock a b = (case Compare a b of Before \<Rightarrow> - 1 | After \<Rightarrow> 1 | _ \<Rightarrow> 0)"
  using assms by (rule compareVectorClock_Compare)

theorem agent_compares_clocks_as_the_clock_package_witness:
  "compareVectorClock [(''a'', 1)] [(''a'', 1), (''b'', 1)] = - 1"
proof -
  have "Compare [(''a'', 1)] [(''a'', 1), (''b'', 1)] = Before" by code_simp
  then show ?thesis using agent_compares_clocks_as_the_clock_package [of "[(''a'', 1)]" "[(''a'', 1), (''b'', 1)]"] by simp
qed

subsection \<open>Samples\<close>

definition sample_agent :: Orchestrator where
  "sample_agent = NewOrchestrator \<lparr>pName = ''Al'', pStyle = ''calm'', pModel = ''m''\<rparr> None 0"

definition sample_call :: ChatMessage where
  "sample_call = \<lparr>cmID = ''m1'', cmSenderID = ''p'', cmSenderName = ''Bob'', cmContent = ''hi al?'', cmIsAI = False,
     cmMentions = [], cmMentionAll = False, cmVectorClock = [(''p'', 1)]\<rparr>"

lemma sample_mention: "messageMentionsPersona ascii_tables sample_call ''Al''"
  by code_simp

lemma case_lengths_ascii: "case_lengths ascii_tables"
  by (auto simp: case_lengths_def ascii_tables_def HasPrefix_iff)

theorem addressed_agent_replies_witness:
  "\<exists>o3 said_text. TrimSpace said_text \<noteq> [] \<and>
    Process ascii_tables (\<lambda>_ w. (w, None)) (\<lambda>_ t w. ([t], sample_call)) (\<lambda>_ w. w) 0 0 [sample_call] sample_agent [] =
      Some (o3, [said_text], Some said_text)"
proof -
  let ?onReply = "\<lambda>(_ :: string) (t :: string) (w :: string list). ([t], sample_call)"
  have "\<exists>o3 w2 said_text. TrimSpace said_text \<noteq> [] \<and>
    Process ascii_tables (\<lambda>_ w. (w, None)) ?onReply (\<lambda>_ w. w) 0 0 [sample_call] sample_agent [] =
      Some (o3, (\<lambda>_ w. w) False (fst (?onReply (pName (oPersona sample_agent)) said_text w2)), Some said_text)"
    by (rule addressed_agent_replies [OF case_lengths_ascii, where earlier = "[]" and latest = sample_call])
      (use sample_mention in \<open>simp_all add: sample_agent_def NewOrchestrator_def sample_call_def is_ascii_def\<close>)
  then show ?thesis by auto
qed

theorem agent_stays_silent_witness:
  "\<exists>o1 job. (agent_step ascii_tables)\<^sup>*\<^sup>* (sample_agent, []) (o1, [(False, job)]) \<and> length (oHistory o1) \<le> 30 \<and>
    cmSenderName (rjLatest job) \<noteq> pName (rjPersona job)"
proof -
  have "others [sample_call] sample_agent = [sample_call]"
    by (simp add: others_def sample_agent_def sample_call_def NewOrchestrator_def)
  moreover have "\<not> oStopped sample_agent" "\<not> cmIsAI sample_call" "pName (oPersona sample_agent) = ''Al''"
    by (simp_all add: sample_agent_def sample_call_def NewOrchestrator_def)
  ultimately obtain o1 job where "Process_start ascii_tables 0 [sample_call] sample_agent = (o1, Some job)"
    using Process_start_direct [of sample_agent "[sample_call]" ascii_tables 0 thesis] sample_mention by auto
  then have "agent_step ascii_tables (sample_agent, []) (o1, [(False, job)])"
    using agent_step.new_job [of ascii_tables 0 "[sample_call]" sample_agent o1 job "[]"] by simp
  then have reach: "(agent_step ascii_tables)\<^sup>*\<^sup>* (sample_agent, []) (o1, [(False, job)])" by blast
  with agent_stays_silent [OF reach [unfolded sample_agent_def]] show ?thesis by auto
qed

text \<open>The prefix need not be a whole word: an answer that begins with a word beginning like the name loses the
  beginning of that word.\<close>

lemma prefix_cut_from_a_word: "stripNamePrefix ascii_tables ''Also I agree'' ''Al'' = Some ''so I agree''"
  by code_simp

text \<open>A short earlier answer of its own makes every later one that contains its letters a repetition.\<close>

lemma short_answer_blocks:
  "isDuplicate ascii_tables ''Let me look'' [sample_call\<lparr>cmSenderName := ''Al'', cmIsAI := True, cmContent := ''ok''\<rparr>] ''Al''"
  by code_simp

end
