(* ===== verification/Envelope.thy ===== *)
theory Envelope
  imports Message
begin

text \<open>
  The envelopes of the websocket between the server and its browser page, as \<open>cmd/main.go\<close> declares them: one
  struct for every kind of frame, encoded with \<open>omitempty\<close> and decoded into a fresh variable.

  Go's \<open>int\<close> (64 bits) is a mathematical integer; the decoder refuses what does not fit, as \<open>encoding/json\<close> does.
  The slices of an envelope variable are decoded with their spare capacity, as in \<open>Message.thy\<close>.
\<close>

section \<open>The struct\<close>

record wsEnvelope =
  wsType :: string
  wsID :: string
  wsSenderID :: string
  wsSenderName :: string
  wsContent :: string
  wsMentions :: "string list"
  wsMentionAll :: bool
  wsIsAI :: bool
  wsVectorClock :: "u64 gomap option"
  wsSelf :: bool
  wsCount :: int
  wsPeerID :: string
  wsRoom :: string
  wsAIName :: string
  wsAIStyle :: string
  wsAIModel :: string
  wsMemoryLimit :: int
  wsNumCtx :: int
  wsMessageCount :: int
  wsVerifiedCount :: int
  wsRejectedCount :: int
  wsRepairedCount :: int
  wsDuplicateCount :: int
  wsEquivocationCount :: int
  wsRateLimitedCount :: int
  wsClockBackCount :: int
  wsSyncStatus :: string
  wsQuarantined :: int
  wsLastReject :: string
  wsTimeModel :: string
  wsTraceKind :: string
  wsTraceVerdict :: string
  wsTraceReason :: string
  wsTraceFromPeer :: string
  wsTraceSummary :: string
  wsTraceSteps :: "string list"

definition wsEnvelope_zero :: wsEnvelope where
  "wsEnvelope_zero = \<lparr>wsType = [], wsID = [], wsSenderID = [], wsSenderName = [], wsContent = [], wsMentions = [],
     wsMentionAll = False, wsIsAI = False, wsVectorClock = None, wsSelf = False, wsCount = 0, wsPeerID =
     [], wsRoom = [], wsAIName = [], wsAIStyle = [], wsAIModel = [], wsMemoryLimit = 0, wsNumCtx = 0,
     wsMessageCount = 0, wsVerifiedCount = 0, wsRejectedCount = 0, wsRepairedCount = 0, wsDuplicateCount
     = 0, wsEquivocationCount = 0, wsRateLimitedCount = 0, wsClockBackCount = 0, wsSyncStatus = [],
     wsQuarantined = 0, wsLastReject = [], wsTimeModel = [], wsTraceKind = [], wsTraceVerdict = [],
     wsTraceReason = [], wsTraceFromPeer = [], wsTraceSummary = [], wsTraceSteps = []\<rparr>"

section \<open>Encoding\<close>

definition strings_json :: "string list \<Rightarrow> json" where
  "strings_json xs = JArr (map JStr xs)"

definition int_json :: "int \<Rightarrow> json" where
  "int_json i = JNum (decimal_int i)"

text \<open>A map or slice is left out when it has no entries, nil or not.\<close>

definition wsEnvelope_json :: "wsEnvelope \<Rightarrow> json" where
  "wsEnvelope_json e = JObj
     ([(''type'', JStr (wsType e))] @
      omitempty (wsID e = []) (''id'', JStr (wsID e)) @
      omitempty (wsSenderID e = []) (''sender_id'', JStr (wsSenderID e)) @
      omitempty (wsSenderName e = []) (''sender_name'', JStr (wsSenderName e)) @
      omitempty (wsContent e = []) (''content'', JStr (wsContent e)) @
      omitempty (wsMentions e = []) (''mentions'', strings_json (wsMentions e)) @
      omitempty (\<not> wsMentionAll e) (''mention_all'', JBool (wsMentionAll e)) @
      omitempty (\<not> wsIsAI e) (''is_ai'', JBool (wsIsAI e)) @
      omitempty (wsVectorClock e = None \<or> wsVectorClock e = Some []) (''vector_clock'', clock_json (wsVectorClock e)) @
      omitempty (\<not> wsSelf e) (''self'', JBool (wsSelf e)) @
      omitempty (wsCount e = 0) (''count'', int_json (wsCount e)) @
      omitempty (wsPeerID e = []) (''peer_id'', JStr (wsPeerID e)) @
      omitempty (wsRoom e = []) (''room'', JStr (wsRoom e)) @
      omitempty (wsAIName e = []) (''ai_name'', JStr (wsAIName e)) @
      omitempty (wsAIStyle e = []) (''ai_style'', JStr (wsAIStyle e)) @
      omitempty (wsAIModel e = []) (''ai_model'', JStr (wsAIModel e)) @
      omitempty (wsMemoryLimit e = 0) (''memory_limit'', int_json (wsMemoryLimit e)) @
      omitempty (wsNumCtx e = 0) (''num_ctx'', int_json (wsNumCtx e)) @
      omitempty (wsMessageCount e = 0) (''message_count'', int_json (wsMessageCount e)) @
      omitempty (wsVerifiedCount e = 0) (''verified_count'', int_json (wsVerifiedCount e)) @
      omitempty (wsRejectedCount e = 0) (''rejected_count'', int_json (wsRejectedCount e)) @
      omitempty (wsRepairedCount e = 0) (''repaired_count'', int_json (wsRepairedCount e)) @
      omitempty (wsDuplicateCount e = 0) (''duplicate_count'', int_json (wsDuplicateCount e)) @
      omitempty (wsEquivocationCount e = 0) (''equivocation_count'', int_json (wsEquivocationCount e)) @
      omitempty (wsRateLimitedCount e = 0) (''rate_limited_count'', int_json (wsRateLimitedCount e)) @
      omitempty (wsClockBackCount e = 0) (''clock_back_count'', int_json (wsClockBackCount e)) @
      omitempty (wsSyncStatus e = []) (''sync_status'', JStr (wsSyncStatus e)) @
      omitempty (wsQuarantined e = 0) (''quarantined'', int_json (wsQuarantined e)) @
      omitempty (wsLastReject e = []) (''last_reject'', JStr (wsLastReject e)) @
      omitempty (wsTimeModel e = []) (''time_model'', JStr (wsTimeModel e)) @
      omitempty (wsTraceKind e = []) (''trace_kind'', JStr (wsTraceKind e)) @
      omitempty (wsTraceVerdict e = []) (''trace_verdict'', JStr (wsTraceVerdict e)) @
      omitempty (wsTraceReason e = []) (''trace_reason'', JStr (wsTraceReason e)) @
      omitempty (wsTraceFromPeer e = []) (''trace_from_peer'', JStr (wsTraceFromPeer e)) @
      omitempty (wsTraceSummary e = []) (''trace_summary'', JStr (wsTraceSummary e)) @
      omitempty (wsTraceSteps e = []) (''trace_steps'', strings_json (wsTraceSteps e)))"

definition wsEnvelope_Marshal :: "wsEnvelope \<Rightarrow> string" where
  "wsEnvelope_Marshal e = json_Render (wsEnvelope_json e)"

section \<open>Decoding\<close>

text \<open>\<open>strconv.ParseInt\<close> with 64 bits on a number of the JSON text.\<close>

definition parse_int64 :: "string \<Rightarrow> int option" where
  "parse_int64 s =
     (case s of [] \<Rightarrow> None
      | c # t \<Rightarrow>
        if c = CHR ''-'' then
          (if t \<noteq> [] \<and> list_all is_digit t \<and> decimal_value t \<le> 2 ^ 63 then Some (- int (decimal_value t)) else None)
        else if list_all is_digit s \<and> decimal_value s < 2 ^ 63 then Some (int (decimal_value s)) else None)"

definition decode_int :: "json \<Rightarrow> int \<Rightarrow> int \<times> bool" where
  "decode_int v cur = (case v of
      JNull \<Rightarrow> (cur, False)
    | JNum n \<Rightarrow> (case parse_int64 n of Some i \<Rightarrow> (i, False) | None \<Rightarrow> (cur, True))
    | _ \<Rightarrow> (cur, True))"

text \<open>An envelope variable with the spare capacities of its two slices.\<close>

type_synonym envelope_cell = "wsEnvelope \<times> string list \<times> string list"

definition decode_envelope :: "string \<times> json \<Rightarrow> envelope_cell \<Rightarrow> envelope_cell \<times> bool" where
  "decode_envelope = (\<lambda>(key, v) (e, sp1, sp2).
     if is_field ''type'' key then
       (case decode_string v (wsType e) of (x, bad) \<Rightarrow> ((e\<lparr>wsType := x\<rparr>, sp1, sp2), bad))
     else if is_field ''id'' key then
       (case decode_string v (wsID e) of (x, bad) \<Rightarrow> ((e\<lparr>wsID := x\<rparr>, sp1, sp2), bad))
     else if is_field ''sender_id'' key then
       (case decode_string v (wsSenderID e) of (x, bad) \<Rightarrow> ((e\<lparr>wsSenderID := x\<rparr>, sp1, sp2), bad))
     else if is_field ''sender_name'' key then
       (case decode_string v (wsSenderName e) of (x, bad) \<Rightarrow> ((e\<lparr>wsSenderName := x\<rparr>, sp1, sp2), bad))
     else if is_field ''content'' key then
       (case decode_string v (wsContent e) of (x, bad) \<Rightarrow> ((e\<lparr>wsContent := x\<rparr>, sp1, sp2), bad))
     else if is_field ''mentions'' key then
       (case decode_slice decode_string [] v (wsMentions e, sp1) of ((xs, sp), bad) \<Rightarrow> ((e\<lparr>wsMentions := xs\<rparr>, sp, sp2), bad))
     else if is_field ''mention_all'' key then
       (case decode_bool v (wsMentionAll e) of (x, bad) \<Rightarrow> ((e\<lparr>wsMentionAll := x\<rparr>, sp1, sp2), bad))
     else if is_field ''is_ai'' key then
       (case decode_bool v (wsIsAI e) of (x, bad) \<Rightarrow> ((e\<lparr>wsIsAI := x\<rparr>, sp1, sp2), bad))
     else if is_field ''vector_clock'' key then
       (case decode_clock v (wsVectorClock e) of (x, bad) \<Rightarrow> ((e\<lparr>wsVectorClock := x\<rparr>, sp1, sp2), bad))
     else if is_field ''self'' key then
       (case decode_bool v (wsSelf e) of (x, bad) \<Rightarrow> ((e\<lparr>wsSelf := x\<rparr>, sp1, sp2), bad))
     else if is_field ''count'' key then
       (case decode_int v (wsCount e) of (x, bad) \<Rightarrow> ((e\<lparr>wsCount := x\<rparr>, sp1, sp2), bad))
     else if is_field ''peer_id'' key then
       (case decode_string v (wsPeerID e) of (x, bad) \<Rightarrow> ((e\<lparr>wsPeerID := x\<rparr>, sp1, sp2), bad))
     else if is_field ''room'' key then
       (case decode_string v (wsRoom e) of (x, bad) \<Rightarrow> ((e\<lparr>wsRoom := x\<rparr>, sp1, sp2), bad))
     else if is_field ''ai_name'' key then
       (case decode_string v (wsAIName e) of (x, bad) \<Rightarrow> ((e\<lparr>wsAIName := x\<rparr>, sp1, sp2), bad))
     else if is_field ''ai_style'' key then
       (case decode_string v (wsAIStyle e) of (x, bad) \<Rightarrow> ((e\<lparr>wsAIStyle := x\<rparr>, sp1, sp2), bad))
     else if is_field ''ai_model'' key then
       (case decode_string v (wsAIModel e) of (x, bad) \<Rightarrow> ((e\<lparr>wsAIModel := x\<rparr>, sp1, sp2), bad))
     else if is_field ''memory_limit'' key then
       (case decode_int v (wsMemoryLimit e) of (x, bad) \<Rightarrow> ((e\<lparr>wsMemoryLimit := x\<rparr>, sp1, sp2), bad))
     else if is_field ''num_ctx'' key then
       (case decode_int v (wsNumCtx e) of (x, bad) \<Rightarrow> ((e\<lparr>wsNumCtx := x\<rparr>, sp1, sp2), bad))
     else if is_field ''message_count'' key then
       (case decode_int v (wsMessageCount e) of (x, bad) \<Rightarrow> ((e\<lparr>wsMessageCount := x\<rparr>, sp1, sp2), bad))
     else if is_field ''verified_count'' key then
       (case decode_int v (wsVerifiedCount e) of (x, bad) \<Rightarrow> ((e\<lparr>wsVerifiedCount := x\<rparr>, sp1, sp2), bad))
     else if is_field ''rejected_count'' key then
       (case decode_int v (wsRejectedCount e) of (x, bad) \<Rightarrow> ((e\<lparr>wsRejectedCount := x\<rparr>, sp1, sp2), bad))
     else if is_field ''repaired_count'' key then
       (case decode_int v (wsRepairedCount e) of (x, bad) \<Rightarrow> ((e\<lparr>wsRepairedCount := x\<rparr>, sp1, sp2), bad))
     else if is_field ''duplicate_count'' key then
       (case decode_int v (wsDuplicateCount e) of (x, bad) \<Rightarrow> ((e\<lparr>wsDuplicateCount := x\<rparr>, sp1, sp2), bad))
     else if is_field ''equivocation_count'' key then
       (case decode_int v (wsEquivocationCount e) of (x, bad) \<Rightarrow> ((e\<lparr>wsEquivocationCount := x\<rparr>, sp1, sp2), bad))
     else if is_field ''rate_limited_count'' key then
       (case decode_int v (wsRateLimitedCount e) of (x, bad) \<Rightarrow> ((e\<lparr>wsRateLimitedCount := x\<rparr>, sp1, sp2), bad))
     else if is_field ''clock_back_count'' key then
       (case decode_int v (wsClockBackCount e) of (x, bad) \<Rightarrow> ((e\<lparr>wsClockBackCount := x\<rparr>, sp1, sp2), bad))
     else if is_field ''sync_status'' key then
       (case decode_string v (wsSyncStatus e) of (x, bad) \<Rightarrow> ((e\<lparr>wsSyncStatus := x\<rparr>, sp1, sp2), bad))
     else if is_field ''quarantined'' key then
       (case decode_int v (wsQuarantined e) of (x, bad) \<Rightarrow> ((e\<lparr>wsQuarantined := x\<rparr>, sp1, sp2), bad))
     else if is_field ''last_reject'' key then
       (case decode_string v (wsLastReject e) of (x, bad) \<Rightarrow> ((e\<lparr>wsLastReject := x\<rparr>, sp1, sp2), bad))
     else if is_field ''time_model'' key then
       (case decode_string v (wsTimeModel e) of (x, bad) \<Rightarrow> ((e\<lparr>wsTimeModel := x\<rparr>, sp1, sp2), bad))
     else if is_field ''trace_kind'' key then
       (case decode_string v (wsTraceKind e) of (x, bad) \<Rightarrow> ((e\<lparr>wsTraceKind := x\<rparr>, sp1, sp2), bad))
     else if is_field ''trace_verdict'' key then
       (case decode_string v (wsTraceVerdict e) of (x, bad) \<Rightarrow> ((e\<lparr>wsTraceVerdict := x\<rparr>, sp1, sp2), bad))
     else if is_field ''trace_reason'' key then
       (case decode_string v (wsTraceReason e) of (x, bad) \<Rightarrow> ((e\<lparr>wsTraceReason := x\<rparr>, sp1, sp2), bad))
     else if is_field ''trace_from_peer'' key then
       (case decode_string v (wsTraceFromPeer e) of (x, bad) \<Rightarrow> ((e\<lparr>wsTraceFromPeer := x\<rparr>, sp1, sp2), bad))
     else if is_field ''trace_summary'' key then
       (case decode_string v (wsTraceSummary e) of (x, bad) \<Rightarrow> ((e\<lparr>wsTraceSummary := x\<rparr>, sp1, sp2), bad))
     else if is_field ''trace_steps'' key then
       (case decode_slice decode_string [] v (wsTraceSteps e, sp2) of ((xs, sp), bad) \<Rightarrow> ((e\<lparr>wsTraceSteps := xs\<rparr>, sp1, sp), bad))
     else ((e, sp1, sp2), False))"

definition wsEnvelope_Unmarshal :: "string \<Rightarrow> wsEnvelope \<times> json_error option" where
  "wsEnvelope_Unmarshal raw =
     (case Unmarshal decode_envelope (wsEnvelope_zero, [], []) raw of ((e, _, _), err) \<Rightarrow> (e, err))"

end
