(* ===== verification/Node.thy ===== *)
theory Node
  imports Identity
begin

text \<open>
  \<open>internal/p2p/node.go\<close>: the libp2p host of a peer, with the set of peers it has heard of.

  The host, the discovery service, multiaddresses and dialling are libp2p: functions of the record \<open>p2p_net\<close>.  A peer
  found by discovery is dialled by a goroutine after a random pause; its outcome is only logged, so the operation just
  says whether there is such a goroutine.
\<close>

record 'sk p2p_net =
  net_New :: "'sk \<Rightarrow> string \<Rightarrow> string + (string \<times> string list)"
  net_StartMdns :: "string option"
  net_NewMultiaddr :: "string \<Rightarrow> string + string"
  net_AddrInfo :: "string \<Rightarrow> string + string"
  net_Connect :: "string \<Rightarrow> string option"
  net_Close :: "string \<Rightarrow> string option"

record Node =
  nHostID :: string
  nHostAddrs :: "string list"
  nPeers :: "string set"

definition listenAddr :: "int \<Rightarrow> string" where
  "listenAddr p2pPort = (if p2pPort > 0 then ''/ip4/0.0.0.0/tcp/'' @ decimal_int p2pPort else ''/ip4/0.0.0.0/tcp/0'')"

definition NewNode :: "'sk p2p_net \<Rightarrow> 'sk \<Rightarrow> int \<Rightarrow> string + Node" where
  "NewNode N privKey p2pPort =
     (case net_New N privKey (listenAddr p2pPort) of
        Inl err \<Rightarrow> Inl (''create libp2p host: '' @ err)
      | Inr (hostID, addrs) \<Rightarrow>
        (case net_StartMdns N of
           Some err \<Rightarrow> Inl (''start mDNS: '' @ err)
         | None \<Rightarrow> Inr \<lparr>nHostID = hostID, nHostAddrs = addrs, nPeers = {}\<rparr>))"

definition HandlePeerFound :: "string \<Rightarrow> Node \<Rightarrow> Node \<times> bool" where
  "HandlePeerFound pid n = (if pid = nHostID n then (n, False) else (n\<lparr>nPeers := insert pid (nPeers n)\<rparr>, True))"

definition PeerCount :: "Node \<Rightarrow> nat" where
  "PeerCount n = card (nPeers n)"

definition AddrStrings :: "('sk, 'pk) libp2p \<Rightarrow> Node \<Rightarrow> string list" where
  "AddrStrings P n = map (\<lambda>addr. addr @ ''/p2p/'' @ p_String P (nHostID n)) (nHostAddrs n)"

definition ConnectMultiaddr :: "'sk p2p_net \<Rightarrow> string \<Rightarrow> Node \<Rightarrow> Node \<times> string option" where
  "ConnectMultiaddr N raw n =
     (case net_NewMultiaddr N raw of
        Inl err \<Rightarrow> (n, Some (''parse multiaddr: '' @ err))
      | Inr addr \<Rightarrow>
        (case net_AddrInfo N addr of
           Inl err \<Rightarrow> (n, Some (''parse peer info: '' @ err))
         | Inr pid \<Rightarrow>
           if pid = nHostID n then (n, Some ''cannot connect to self'')
           else (case net_Connect N pid of
                   Some err \<Rightarrow> (n, Some (''connect peer: '' @ err))
                 | None \<Rightarrow> (n\<lparr>nPeers := insert pid (nPeers n)\<rparr>, None))))"

definition Node_Close :: "'sk p2p_net \<Rightarrow> Node \<Rightarrow> string option" where
  "Node_Close N n = net_Close N (nHostID n)"

text \<open>A node never counts itself, and its peers are finitely many, so that they can be counted.\<close>

definition node_ok :: "Node \<Rightarrow> bool" where
  "node_ok n = (nHostID n \<notin> nPeers n \<and> finite (nPeers n))"

lemma node_ok_steps:
  "NewNode N k p = Inr n \<Longrightarrow> node_ok n"
  "node_ok n \<Longrightarrow> node_ok (fst (HandlePeerFound pid n))"
  "node_ok n \<Longrightarrow> node_ok (fst (ConnectMultiaddr N raw n))"
  by (auto simp: node_ok_def NewNode_def HandlePeerFound_def ConnectMultiaddr_def split: sum.splits option.splits)

lemma PeerCount_found: "node_ok n \<Longrightarrow> PeerCount (fst (HandlePeerFound pid n)) =
    PeerCount n + (if pid = nHostID n \<or> pid \<in> nPeers n then 0 else 1)"
  by (simp add: node_ok_def PeerCount_def HandlePeerFound_def insert_absorb)

end
