(* ===== verification/App.thy ===== *)
theory App
  imports PubSub Mention Orchestrator Envelope Node
begin

text \<open>
  The running application of \<open>cmd/main.go\<close>: one room with its clock, ledger and agent, and the browser pages
  connected to it.

  \<open>appState\<close> holds the objects its pointers refer to.  A call copies the pointers under \<open>mu\<close> and then works on the
  objects; here it works on the fields of the current room.  \<open>Room_Life\<close> adds the objects of rooms that were left, for calls
  still under way then.  What may be interleaved is cut into separate functions: the section of \<open>signAndPublish\<close> under \<open>sendMu\<close> and
  what follows it.  \<open>asDone\<close> says that the channel \<open>done\<close> is closed, \<open>asRoomNo\<close> numbers the rooms, to tell the ledger of one
  from that of another.  The batches the batcher has handed over wait in \<open>asBatches\<close> until \<open>onFlush\<close> takes them.
  Contexts and log output are left out; that publishing fails is an argument.
\<close>

section \<open>The hub\<close>

text \<open>The connected pages, each with the frames written to it.\<close>

record hub =
  hubClients :: "(nat \<times> string list) list"

definition safeConn_write :: "string \<Rightarrow> nat \<times> string list \<Rightarrow> nat \<times> string list" where
  "safeConn_write data = (\<lambda>(c, frames). (c, frames @ [data]))"

definition hub_add :: "nat \<Rightarrow> hub \<Rightarrow> hub" where
  "hub_add c h = h\<lparr>hubClients := AList.update c [] (hubClients h)\<rparr>"

definition hub_remove :: "nat \<Rightarrow> hub \<Rightarrow> hub" where
  "hub_remove c h = h\<lparr>hubClients := AList.delete c (hubClients h)\<rparr>"

definition hub_broadcast :: "string \<Rightarrow> hub \<Rightarrow> hub" where
  "hub_broadcast data h = h\<lparr>hubClients := map (safeConn_write data) (hubClients h)\<rparr>"

definition hub_write :: "nat \<Rightarrow> string \<Rightarrow> hub \<Rightarrow> hub" where
  "hub_write c data h = h\<lparr>hubClients := map (\<lambda>x. if fst x = c then safeConn_write data x else x) (hubClients h)\<rparr>"

section \<open>State\<close>

record ('sk, 'pk) appState =
  asReady :: bool
  asDone :: bool
  asRoomNo :: nat
  asHub :: hub
  asIdentity :: "('sk, 'pk) Identity option"
  asPeerID :: string
  asUserName :: string
  asAiName :: string
  asNode :: "Node option"
  asRoom :: "ChatRoom option"
  asVC :: "VectorClock option"
  asPrevHash :: string
  asBatcher :: "ChatMessage Batcher option"
  asBatches :: "ChatMessage list list"
  asOrch :: "Orchestrator option"
  asMemStore :: "MemoryStore option"
  asLedger :: "Ledger option"

text \<open>The state \<open>main\<close> starts with.\<close>

definition appState_start :: "('sk, 'pk) appState" where
  "appState_start = \<lparr>asReady = False, asDone = False, asRoomNo = 0, asHub = \<lparr>hubClients = []\<rparr>, asIdentity = None, asPeerID = [],
     asUserName = [], asAiName = [], asNode = None, asRoom = None, asVC = None, asPrevHash = [], asBatcher = None,
     asBatches = [], asOrch = None, asMemStore = None, asLedger = None\<rparr>"

text \<open>\<open>data, _ := json.Marshal(env); hub.broadcast(data)\<close>\<close>

definition broadcast :: "wsEnvelope \<Rightarrow> ('sk, 'pk) appState \<Rightarrow> ('sk, 'pk) appState" where
  "broadcast env st = st\<lparr>asHub := hub_broadcast (wsEnvelope_Marshal env) (asHub st)\<rparr>"

definition write_to :: "nat \<Rightarrow> wsEnvelope \<Rightarrow> ('sk, 'pk) appState \<Rightarrow> ('sk, 'pk) appState" where
  "write_to c env st = st\<lparr>asHub := hub_write c (wsEnvelope_Marshal env) (asHub st)\<rparr>"

text \<open>A call of a method on the room or the ledger.\<close>

definition on_room :: "(ChatRoom \<Rightarrow> ChatRoom) \<Rightarrow> ('sk, 'pk) appState \<Rightarrow> ('sk, 'pk) appState" where
  "on_room f st = st\<lparr>asRoom := map_option f (asRoom st)\<rparr>"

definition on_ledger :: "(Ledger \<Rightarrow> Ledger) \<Rightarrow> ('sk, 'pk) appState \<Rightarrow> ('sk, 'pk) appState" where
  "on_ledger f st = st\<lparr>asLedger := map_option f (asLedger st)\<rparr>"

section \<open>Small helpers\<close>

definition resolveMentions :: "unicode \<Rightarrow> string \<Rightarrow> string list \<Rightarrow> bool \<Rightarrow> string list \<times> bool" where
  "resolveMentions U content mentions mentionAll =
     (case ParseMentions U content of (parsedMentions, parsedAll) \<Rightarrow>
        (NormalizeMentions U (if mentions = [] then parsedMentions else mentions), if \<not> mentionAll then parsedAll else mentionAll))"

definition cloneVC :: "u64 gomap \<Rightarrow> u64 gomap option" where
  "cloneVC m = (if m = [] then None else Some (go_copy m))"

definition short_id :: "string \<Rightarrow> string" where
  "short_id i = (if length i \<le> 8 then i else take 8 i)"

definition shortHashText :: "string \<Rightarrow> string" where
  "shortHashText h = (if h = [] then ''<empty>'' else if length h \<le> 12 then h else take 12 h)"

definition truncateText :: "string \<Rightarrow> nat \<Rightarrow> string" where
  "truncateText s m = (if length s \<le> m then s else take m s @ ''...'')"

definition envelopeFromMessage :: "Message \<Rightarrow> bool \<Rightarrow> wsEnvelope" where
  "envelopeFromMessage msg self = wsEnvelope_zero\<lparr>wsType := ''chat'', wsID := mID msg, wsSenderID := mSenderID msg,
     wsSenderName := mSenderName msg, wsContent := mContent msg, wsMentions := mMentions msg, wsMentionAll := mMentionAll msg,
     wsIsAI := mIsAI msg, wsVectorClock := cloneVC (clock_of msg), wsSelf := self\<rparr>"

text \<open>A nil clock and an empty one are the same to the agent.\<close>

definition aiMessageFromTypes :: "Message \<Rightarrow> ChatMessage" where
  "aiMessageFromTypes msg = \<lparr>cmID = mID msg, cmSenderID = mSenderID msg, cmSenderName = mSenderName msg, cmContent = mContent msg,
     cmIsAI = mIsAI msg, cmMentions = mMentions msg, cmMentionAll = mMentionAll msg,
     cmVectorClock = (case cloneVC (clock_of msg) of None \<Rightarrow> [] | Some vc \<Rightarrow> vc)\<rparr>"

section \<open>What the pages are told\<close>

definition broadcastSecurityTrace :: "SecurityTraceEvent \<Rightarrow> ('sk, 'pk) appState \<Rightarrow> ('sk, 'pk) appState" where
  "broadcastSecurityTrace tr st =
     (if steSteps tr = [] then st
      else broadcast (wsEnvelope_zero\<lparr>wsType := ''security_trace'', wsTraceKind := steKind tr, wsTraceVerdict := steVerdict tr,
        wsTraceReason := steReason tr, wsTraceFromPeer := steFromPeer tr, wsTraceSummary := stePacketSummary tr,
        wsTraceSteps := steSteps tr\<rparr>) st)"

definition diagnostics :: "Ledger \<Rightarrow> VectorClock option \<Rightarrow> ChatRoom option \<Rightarrow> wsEnvelope" where
  "diagnostics l vc room =
     (let stats = Ledger_Stats l;
          clk = (case vc of None \<Rightarrow> sVectorClock stats | Some v \<Rightarrow> Snapshot v);
          trust = (case room of None \<Rightarrow> \<lparr>tsRejected = 0, tsQuarantinedPeers = 0, tsRateLimited = 0, tsLastRejectReason = []\<rparr>
                   | Some cr \<Rightarrow> room_TrustStats cr)
      in wsEnvelope_zero\<lparr>wsType := ''diagnostics'', wsMessageCount := int (sMessageCount stats), wsVerifiedCount := sVerified stats,
           wsRejectedCount := sRejected stats + tsRejected trust, wsRepairedCount := sRepaired stats,
           wsDuplicateCount := sDuplicate stats, wsEquivocationCount := sEquivocation stats,
           wsRateLimitedCount := tsRateLimited trust, wsClockBackCount := sClockBack stats, wsSyncStatus := sSyncStatus stats,
           wsQuarantined := int (tsQuarantinedPeers trust),
           wsLastReject := (if tsLastRejectReason trust = [] then sLastReject stats else tsLastRejectReason trust),
           wsTimeModel := ''Vector Clock (no physical clock sync)'', wsVectorClock := Some clk\<rparr>)"

definition broadcastDiagnostics :: "('sk, 'pk) appState \<Rightarrow> ('sk, 'pk) appState" where
  "broadcastDiagnostics st =
     (case asLedger st of None \<Rightarrow> st | Some l \<Rightarrow> broadcast (diagnostics l (asVC st) (asRoom st)) st)"

section \<open>Sending\<close>

text \<open>The section of \<open>signAndPublish\<close> under \<open>sendMu\<close>; the errors of signing and hashing are ignored.\<close>

definition sign_section ::
  "('sk, 'pk) libp2p \<Rightarrow> (string \<Rightarrow> string) \<Rightarrow> string \<Rightarrow> string \<Rightarrow> string \<Rightarrow> bool \<Rightarrow> string list \<Rightarrow> bool \<Rightarrow>
    ('sk, 'pk) Identity \<Rightarrow> VectorClock \<Rightarrow> ('sk, 'pk) appState \<Rightarrow> Message \<times> ('sk, 'pk) appState" where
  "sign_section P sha256 uuid senderName content isAI mentions mentionAll identity vc st =
     (let vc1 = Increment (asPeerID st) vc;
          msg0 = NewMessage uuid (asPeerID st) senderName content mentions mentionAll (Snapshot vc1) (asPrevHash st) isAI;
          sig = (case SignableBytes msg0 of Inl _ \<Rightarrow> [] | Inr d \<Rightarrow> (case Sign P identity d of Inl _ \<Rightarrow> [] | Inr s \<Rightarrow> s));
          msg = msg0\<lparr>mSignature := sig\<rparr>
      in (msg, st\<lparr>asVC := Some vc1, asPrevHash := (case Hash sha256 msg of Inl _ \<Rightarrow> [] | Inr h \<Rightarrow> h)\<rparr>))"

text \<open>What follows; \<open>failed\<close> says that \<open>room.Publish\<close> returned an error.\<close>

definition publish_section ::
  "unicode \<Rightarrow> bool \<Rightarrow> Message \<Rightarrow> ('sk, 'pk) appState \<Rightarrow> ('sk, 'pk) appState \<times> Message option" where
  "publish_section U failed msg st =
     (if failed then (st, None)
      else
        (let st1 = on_ledger (\<lambda>l. fst (Add U (Some msg) l)) (on_room (Publish msg) st)
         in (broadcastDiagnostics (broadcast (envelopeFromMessage msg (\<not> mIsAI msg)) st1), Some msg)))"

definition signAndPublish ::
  "('sk, 'pk) libp2p \<Rightarrow> unicode \<Rightarrow> (string \<Rightarrow> string) \<Rightarrow> string \<Rightarrow> bool \<Rightarrow> string \<Rightarrow> string \<Rightarrow> bool \<Rightarrow> string list \<Rightarrow> bool \<Rightarrow>
    ('sk, 'pk) appState \<Rightarrow> ('sk, 'pk) appState \<times> Message option" where
  "signAndPublish P U sha256 uuid failed senderName content isAI mentions mentionAll st =
     (if \<not> asReady st then (st, None)
      else (case (asRoom st, asVC st, asIdentity st) of
              (Some room, Some vc, Some identity) \<Rightarrow>
                (case sign_section P sha256 uuid senderName content isAI mentions mentionAll identity vc st of
                   (msg, st1) \<Rightarrow> publish_section U failed msg st1)
            | _ \<Rightarrow> (st, None)))"

section \<open>Receiving\<close>

definition ledger_drop_trace :: "(string \<Rightarrow> string) \<Rightarrow> Message \<Rightarrow> string \<Rightarrow> SecurityTraceEvent" where
  "ledger_drop_trace quote msg reason =
     \<lparr>steFromPeer = short_id (mSenderID msg), steKind = ''ledger'', steVerdict = ''drop'', steReason = reason,
      stePacketSummary = ''message_id='' @ short_id (mID msg) @ '' sender='' @ short_id (mSenderID msg) @
        '' content='' @ quote (truncateText (mContent msg) 70),
      steSteps = [''[LEDGER] signed packet reached application ledger'',
        ''[CHECK] message_id='' @ short_id (mID msg) @ '' sender_clock='' @
          decimal (unat (go_get 0 (clock_of msg) (mSenderID msg))) @ '' prev_hash='' @ shortHashText (mPrevHash msg),
        ''[DROP] reason = '' @ reason,
        ''[RESULT] not rendered in UI and not added to AI history'']\<rparr>"

definition ledger_accept_trace :: "Message \<Rightarrow> SecurityTraceEvent" where
  "ledger_accept_trace msg =
     \<lparr>steFromPeer = short_id (mSenderID msg), steKind = ''ledger'', steVerdict = ''accept'', steReason = [],
      stePacketSummary = ''message_id='' @ short_id (mID msg) @ '' sender='' @ short_id (mSenderID msg),
      steSteps = [''[LEDGER] message_id is new and sender clock is monotonic'',
        ''[ORDER] vector clock merged into local logical time'',
        ''[RESULT] inserted into ledger / UI / AI history'']\<rparr>"

text \<open>\<open>batcher.Add\<close>, with what it hands over.\<close>

definition batcher_add :: "time \<Rightarrow> ChatMessage \<Rightarrow> ChatMessage Batcher \<Rightarrow> ('sk, 'pk) appState \<Rightarrow> ('sk, 'pk) appState" where
  "batcher_add now cm b st =
     (case Batcher_Add cm now b of (batch, b1) \<Rightarrow> st\<lparr>asBatcher := Some b1, asBatches := hand_over batch (asBatches st)\<rparr>)"

text \<open>The message goes to the agent: collected in a batch if it may answer, else only remembered.\<close>

definition to_agent :: "unicode \<Rightarrow> time \<Rightarrow> bool \<Rightarrow> Message \<Rightarrow> ('sk, 'pk) appState \<Rightarrow> ('sk, 'pk) appState" where
  "to_agent U now triggerAI msg st =
     (case (asBatcher st, asOrch st) of
        (Some b, o1) \<Rightarrow>
          if triggerAI then batcher_add now (aiMessageFromTypes msg) b st
          else (case o1 of None \<Rightarrow> st | Some orch \<Rightarrow> st\<lparr>asOrch := Some (AddToHistory U (aiMessageFromTypes msg) orch)\<rparr>)
      | (None, Some orch) \<Rightarrow> st\<lparr>asOrch := Some (AddToHistory U (aiMessageFromTypes msg) orch)\<rparr>
      | (None, None) \<Rightarrow> st)"

text \<open>\<open>acceptMessage\<close> in two parts, because other goroutines may run between them: the ledger takes the message under its own
  lock, or refuses it; the rest merges the clock, shows the message and hands it to the agent.\<close>

definition accept_ledger ::
  "unicode \<Rightarrow> (string \<Rightarrow> string) \<Rightarrow> Message \<Rightarrow> ('sk, 'pk) appState \<Rightarrow> ('sk, 'pk) appState \<times> bool" where
  "accept_ledger U quote m st =
     (case asLedger st of
        None \<Rightarrow> (st, False)
      | Some ledger \<Rightarrow>
        (case AddWithReason U (Some m) ledger of
           (l1, False, reason) \<Rightarrow>
             (let l2 = (if reason \<noteq> ''duplicate_message'' then MarkRejectedReason reason l1 else l1)
              in (broadcastDiagnostics (broadcastSecurityTrace (ledger_drop_trace quote m reason) (st\<lparr>asLedger := Some l2\<rparr>)), False))
         | (l1, True, _) \<Rightarrow> (st\<lparr>asLedger := Some l1\<rparr>, True)))"

definition accept_rest :: "unicode \<Rightarrow> time \<Rightarrow> Message \<Rightarrow> bool \<Rightarrow> bool \<Rightarrow> ('sk, 'pk) appState \<Rightarrow> ('sk, 'pk) appState" where
  "accept_rest U now m self triggerAI st =
     (let st1 = st\<lparr>asVC := map_option (Merge (clock_of m)) (asVC st)\<rparr>;
          st2 = broadcastSecurityTrace (ledger_accept_trace m) (broadcast (envelopeFromMessage m self) st1)
      in broadcastDiagnostics (to_agent U now triggerAI m st2))"

definition acceptMessage ::
  "unicode \<Rightarrow> (string \<Rightarrow> string) \<Rightarrow> time \<Rightarrow> Message option \<Rightarrow> bool \<Rightarrow> bool \<Rightarrow> ('sk, 'pk) appState \<Rightarrow> ('sk, 'pk) appState \<times> bool" where
  "acceptMessage U quote now msg self triggerAI st =
     (case msg of
        None \<Rightarrow> (st, False)
      | Some m \<Rightarrow>
        (case accept_ledger U quote m st of
           (st1, False) \<Rightarrow> (st1, False)
         | (st1, True) \<Rightarrow> (accept_rest U now m self triggerAI st1, True)))"

text \<open>The two parts without anything in between.\<close>

lemma acceptMessage_eq:
  "acceptMessage U quote now msg self triggerAI st =
     (case (asLedger st, msg) of
        (Some ledger, Some m) \<Rightarrow>
          (case AddWithReason U msg ledger of
             (l1, False, reason) \<Rightarrow>
               (let l2 = (if reason \<noteq> ''duplicate_message'' then MarkRejectedReason reason l1 else l1)
                in (broadcastDiagnostics (broadcastSecurityTrace (ledger_drop_trace quote m reason) (st\<lparr>asLedger := Some l2\<rparr>)), False))
           | (l1, True, _) \<Rightarrow>
               (let st1 = st\<lparr>asLedger := Some l1, asVC := map_option (Merge (clock_of m)) (asVC st)\<rparr>;
                    st2 = broadcastSecurityTrace (ledger_accept_trace m) (broadcast (envelopeFromMessage m self) st1)
                in (broadcastDiagnostics (to_agent U now triggerAI m st2), True)))
      | _ \<Rightarrow> (st, False))"
  by (auto simp: acceptMessage_def accept_ledger_def accept_rest_def Let_def split: option.split prod.split bool.split)

section \<open>Repair\<close>

text \<open>The request, and what its goroutine does three seconds later for the ledger of room number \<open>no\<close>.\<close>

definition requestSync :: "string \<Rightarrow> ('sk, 'pk) appState \<Rightarrow> ('sk, 'pk) appState" where
  "requestSync uuid st =
     (if \<not> asReady st then st
      else (case (asRoom st, asLedger st) of
              (Some room, Some ledger) \<Rightarrow>
                (let l1 = SetSyncStatus ''requesting'' ledger
                 in broadcastDiagnostics (st\<lparr>asLedger := Some l1, asRoom := Some (PublishSyncRequest uuid (asPeerID st) (IDs l1) room)\<rparr>))
            | _ \<Rightarrow> st))"

definition sync_timeout :: "nat \<Rightarrow> ('sk, 'pk) appState \<Rightarrow> ('sk, 'pk) appState" where
  "sync_timeout no st =
     (case asLedger st of
        None \<Rightarrow> st
      | Some l \<Rightarrow>
        if asRoomNo st \<noteq> no then st
        else if sSyncStatus (Ledger_Stats l) = ''requesting''
          then broadcastDiagnostics (st\<lparr>asLedger := Some (SetSyncStatus ''idle'' l)\<rparr>)
        else st)"

text \<open>The loop over \<open>room.Controls\<close>: the messages of a response, then one round.\<close>

fun accept_all ::
  "unicode \<Rightarrow> (string \<Rightarrow> string) \<Rightarrow> time \<Rightarrow> Message option list \<Rightarrow> ('sk, 'pk) appState \<Rightarrow> ('sk, 'pk) appState \<times> int" where
  "accept_all U quote now [] st = (st, 0)"
| "accept_all U quote now (msg # msgs) st =
     (case acceptMessage U quote now msg False False st of
        (st1, ok) \<Rightarrow> (case accept_all U quote now msgs st1 of (st2, n) \<Rightarrow> (st2, if ok then n + 1 else n)))"

definition repair_begin :: "('sk, 'pk) appState \<Rightarrow> ('sk, 'pk) appState" where
  "repair_begin st = on_ledger (SetSyncStatus ''repairing'') st"

definition repair_end :: "int \<Rightarrow> ('sk, 'pk) appState \<Rightarrow> ('sk, 'pk) appState" where
  "repair_end repaired st =
     broadcastDiagnostics
       (on_ledger (SetSyncStatus (if repaired > 0 then ''repaired '' @ decimal_int repaired else ''idle''))
         (on_ledger (AddRepaired repaired) st))"

definition handleControl ::
  "unicode \<Rightarrow> (string \<Rightarrow> string) \<Rightarrow> time \<Rightarrow> Control \<Rightarrow> ('sk, 'pk) appState \<Rightarrow> ('sk, 'pk) appState" where
  "handleControl U quote now ctrl st =
     (case (asLedger st, asRoom st) of
        (Some ledger, Some room) \<Rightarrow>
          if cKind ctrl = ''sync_request'' then
            (let requester = (if cForwardedBy ctrl \<noteq> [] then cForwardedBy ctrl else cFromPeerID ctrl);
                 missing = MissingFrom (cKnownIDs ctrl) 80 ledger
             in if requester = asPeerID st then st
                else if missing \<noteq> [] then
                  st\<lparr>asRoom := Some (PublishSyncResponse (cRequestID ctrl) (asPeerID st) missing room)\<rparr>
                else st)
          else if cKind ctrl = ''sync_response'' then
            (case accept_all U quote now (cMessages ctrl) (repair_begin st) of (st1, repaired) \<Rightarrow> repair_end repaired st1)
          else st
      | _ \<Rightarrow> st)"

section \<open>The other loops over the channels of the room\<close>

definition handleActivity :: "Activity \<Rightarrow> ('sk, 'pk) appState \<Rightarrow> ('sk, 'pk) appState" where
  "handleActivity act st =
     broadcast (wsEnvelope_zero\<lparr>wsType := (if aActive act then ''activity'' else ''activity_stop''),
       wsSenderName := aName act, wsContent := aAction act\<rparr>) st"

definition handleRejected :: "RejectEvent \<Rightarrow> ('sk, 'pk) appState \<Rightarrow> ('sk, 'pk) appState" where
  "handleRejected reject st =
     (case asLedger st of None \<Rightarrow> st | Some l \<Rightarrow> broadcastDiagnostics (st\<lparr>asLedger := Some (MarkRejected l)\<rparr>))"

definition handleTick :: "('sk, 'pk) appState \<Rightarrow> ('sk, 'pk) appState" where
  "handleTick st =
     (case asNode st of
        None \<Rightarrow> st
      | Some node \<Rightarrow>
        (let st1 = broadcastDiagnostics (broadcast (wsEnvelope_zero\<lparr>wsType := ''peers'', wsCount := int (PeerCount node)\<rparr>) st)
         in on_room (PublishActivity (asAiName st1) ''join_ai'' True)
              (on_room (PublishActivity (asUserName st1) ''join'' True) st1)))"

end
