(* ===== verification/Server.thy ===== *)
theory Server
  imports App
begin

text \<open>
  The life of a room in \<open>cmd/main.go\<close> and the requests of the browser page: joining (\<open>init\<close>), leaving (\<open>resetRoom\<close>),
  what the agent calls back, the frames of the websocket, and the handlers for memory and peers.

  \<open>setting\<close> collects what surrounds the program: the libraries, the Unicode tables, the disk.  A step has an \<open>outcome\<close>:
  it can wait for the channel \<open>done\<close>, and it can dereference a nil pointer.
\<close>

datatype 'a outcome = Done 'a | Blocked | Panic

record ('sk, 'pk) setting =
  s_P :: "('sk, 'pk) libp2p"
  s_N :: "'sk p2p_net"
  s_U :: unicode
  s_sha256 :: "string \<Rightarrow> string"
  s_os :: os
  s_disk :: disk
  s_joinErr :: "string option"
  s_p2pPort :: int

section \<open>Callbacks of the agent\<close>

definition ChatMessage_zero :: ChatMessage where
  "ChatMessage_zero = \<lparr>cmID = [], cmSenderID = [], cmSenderName = [], cmContent = [], cmIsAI = False, cmMentions = [],
     cmMentionAll = False, cmVectorClock = []\<rparr>"

definition agent_onReply :: "('sk, 'pk) setting \<Rightarrow> string \<Rightarrow> bool \<Rightarrow> ('sk, 'pk) appState onReply" where
  "agent_onReply W uuid failed name content st =
     (case resolveMentions (s_U W) content [] False of (mentions, mentionAll) \<Rightarrow>
       (case signAndPublish (s_P W) (s_U W) (s_sha256 W) uuid failed name content True mentions mentionAll st of
          (st1, None) \<Rightarrow> (st1, ChatMessage_zero)
        | (st1, Some msg) \<Rightarrow> (st1, aiMessageFromTypes msg)))"

definition agent_stream :: "string \<Rightarrow> string \<Rightarrow> ('sk, 'pk) appState \<Rightarrow> ('sk, 'pk) appState" where
  "agent_stream name token st = broadcast (wsEnvelope_zero\<lparr>wsType := ''ai_token'', wsSenderName := name, wsContent := token\<rparr>) st"

definition agent_thinking :: "string \<Rightarrow> bool \<Rightarrow> ('sk, 'pk) appState \<Rightarrow> ('sk, 'pk) appState" where
  "agent_thinking aiPersonaName active st =
     broadcast (wsEnvelope_zero\<lparr>wsType := (if active then ''activity'' else ''activity_stop''), wsSenderName := aiPersonaName,
       wsContent := ''thinking''\<rparr>) (on_room (PublishActivity aiPersonaName ''thinking'' active) st)"

text \<open>The callbacks \<open>init\<close> gives to the agent.\<close>

definition agent_callbacks :: "('sk, 'pk) setting \<Rightarrow> string \<Rightarrow> bool \<Rightarrow> string \<Rightarrow> ('sk, 'pk) appState callbacks" where
  "agent_callbacks W uuid failed aiPersonaName =
     SetThinkingCallback (agent_thinking aiPersonaName) (SetStreamCallback agent_stream (new_callbacks (agent_onReply W uuid failed)))"

text \<open>\<open>onFlush\<close>: it looks at \<open>s.orch\<close> when it runs, not when the room was joined.\<close>

definition agent_onFlush ::
  "('sk, 'pk) setting \<Rightarrow> ('sk, 'pk) appState ollama \<Rightarrow> string \<Rightarrow> bool \<Rightarrow> string \<Rightarrow> time \<Rightarrow> time \<Rightarrow> ChatMessage list \<Rightarrow>
    ('sk, 'pk) appState \<Rightarrow> ('sk, 'pk) appState outcome" where
  "agent_onFlush W ask uuid failed aiPersonaName now now2 batch st =
     (case asOrch st of
        None \<Rightarrow> Panic
      | Some orch \<Rightarrow>
        let cbs = agent_callbacks W uuid failed aiPersonaName in
        if batch = [] then
          (case ForceReply (s_U W) ask (cbReply cbs) (thinkingCb cbs) now orch st of
             None \<Rightarrow> Panic | Some (o1, st1) \<Rightarrow> Done (st1\<lparr>asOrch := Some o1\<rparr>))
        else
          (case Process (s_U W) ask (cbReply cbs) (thinkingCb cbs) now now2 batch orch st of
             None \<Rightarrow> Panic | Some (o1, st1, _) \<Rightarrow> Done (st1\<lparr>asOrch := Some o1\<rparr>)))"

text \<open>The waiting batch number \<open>i\<close> gets the lock.\<close>

definition flush_next ::
  "('sk, 'pk) setting \<Rightarrow> ('sk, 'pk) appState ollama \<Rightarrow> string \<Rightarrow> bool \<Rightarrow> string \<Rightarrow> time \<Rightarrow> time \<Rightarrow> nat \<Rightarrow>
    ('sk, 'pk) appState \<Rightarrow> ('sk, 'pk) appState outcome" where
  "flush_next W ask uuid failed aiPersonaName now now2 i st =
     (if i < length (asBatches st)
      then agent_onFlush W ask uuid failed aiPersonaName now now2 (asBatches st ! i)
             (st\<lparr>asBatches := take i (asBatches st) @ drop (Suc i) (asBatches st)\<rparr>)
      else Done st)"

section \<open>Joining and leaving\<close>

definition init :: "('sk, 'pk) setting \<Rightarrow> wsEnvelope \<Rightarrow> ('sk, 'pk) appState \<Rightarrow> ('sk, 'pk) appState \<times> string option" where
  "init W env st =
     (if asReady st then (st, None)
      else (case GenerateIdentity (s_P W) of
          Inl err \<Rightarrow> (st, Some (''identity: '' @ err))
        | Inr identity \<Rightarrow>
          (let st1 = st\<lparr>asIdentity := Some identity, asPeerID := p_String (s_P W) (PeerID identity)\<rparr> in
           case NewNode (s_N W) (PrivKey identity) (s_p2pPort W) of
             Inl err \<Rightarrow> (st1, Some (''p2p node: '' @ err))
           | Inr node \<Rightarrow>
             (let st2 = st1\<lparr>asNode := Some node\<rparr>;
                  roomCode = (if wsRoom env = [] then ''default'' else wsRoom env)
              in case s_joinErr W of
                Some err \<Rightarrow> (st2, Some (''join room: '' @ err))
              | None \<Rightarrow>
                (let memLimit = (if wsMemoryLimit env \<le> 0 then 50 else wsMemoryLimit env);
                     aiName = (if wsAIName env = [] then ''AI'' else wsAIName env);
                     memStore = (case NewMemoryStore (s_os W) aiName memLimit (s_disk W) of Inl _ \<Rightarrow> None | Inr ms \<Rightarrow> Some ms);
                     persona = \<lparr>pName = aiName,
                       pStyle = (if wsAIStyle env = [] then ''friendly and casual'' else wsAIStyle env),
                       pModel = (if wsAIModel env = [] then ''deepseek-r1:8b'' else wsAIModel env)\<rparr>
                 in (st2\<lparr>asRoom := Some (JoinChatRoom (s_P W) (nHostID node) roomCode), asVC := Some VectorClock_New,
                      asLedger := Some (NewLedger DefaultMaxMessages), asRoomNo := Suc (asRoomNo st2),
                      asUserName := wsSenderName env, asAiName := aiName, asMemStore := memStore,
                      asOrch := Some (NewOrchestrator persona memStore (wsNumCtx env)), asBatcher := Some NewBatcher,
                      asReady := True, asDone := True\<rparr>, None))))))"

text \<open>The batches of the old batcher still wait for \<open>onFlush\<close>.\<close>

definition resetRoom :: "('sk, 'pk) appState \<Rightarrow> ('sk, 'pk) appState" where
  "resetRoom st = st\<lparr>asReady := False, asDone := False, asIdentity := None, asPeerID := [], asUserName := [], asAiName := [],
     asNode := None, asRoom := None, asVC := None, asPrevHash := [], asBatcher := None, asOrch := None, asMemStore := None,
     asLedger := None\<rparr>"

definition stopAI :: "('sk, 'pk) appState \<Rightarrow> ('sk, 'pk) appState" where
  "stopAI st = st\<lparr>asBatcher := map_option Batcher_Stop (asBatcher st), asOrch := map_option Orchestrator_Stop (asOrch st)\<rparr>"

text \<open>A batch that still waits when the room is left meets no agent: \<open>onFlush\<close> calls a method of a nil pointer.\<close>

lemma waiting_batch_outlives_room:
  "asBatches st \<noteq> [] \<Longrightarrow> flush_next W ask uuid failed aiPersonaName now now2 0 (resetRoom st) = Panic"
  by (simp add: flush_next_def agent_onFlush_def resetRoom_def)

text \<open>While the room is not left, a batch always meets the agent of the room it was collected in.\<close>

lemma joined_room_has_agent:
  "init W env st0 = (st, None) \<Longrightarrow> \<not> asReady st0 \<Longrightarrow> asOrch st \<noteq> None \<and> asBatcher st = Some NewBatcher"
  by (auto simp: init_def Let_def split: sum.splits option.splits)

section \<open>The websocket\<close>

fun write_all :: "nat \<Rightarrow> wsEnvelope list \<Rightarrow> ('sk, 'pk) appState \<Rightarrow> ('sk, 'pk) appState" where
  "write_all c [] st = st"
| "write_all c (e # es) st = write_all c es (write_to c e st)"

definition sendLedgerSnapshot :: "nat \<Rightarrow> ('sk, 'pk) appState \<Rightarrow> ('sk, 'pk) appState" where
  "sendLedgerSnapshot c st =
     (case asLedger st of
        None \<Rightarrow> st
      | Some l \<Rightarrow> broadcastDiagnostics
          (write_all c (map (\<lambda>m. envelopeFromMessage m (mSenderID m = asPeerID st \<and> \<not> mIsAI m)) (Recent DefaultMaxMessages l)) st))"

definition ws_setup :: "('sk, 'pk) setting \<Rightarrow> nat \<Rightarrow> wsEnvelope \<Rightarrow> ('sk, 'pk) appState \<Rightarrow> ('sk, 'pk) appState" where
  "ws_setup W c env st =
     (case init W env st of
        (st1, Some err) \<Rightarrow> write_to c (wsEnvelope_zero\<lparr>wsType := ''error'', wsContent := err\<rparr>) st1
      | (st1, None) \<Rightarrow>
        (let st2 = sendLedgerSnapshot c (write_to c (wsEnvelope_zero\<lparr>wsType := ''ready'', wsPeerID := asPeerID st1\<rparr>) st1)
         in on_room (PublishActivity (if wsAIName env = [] then ''AI'' else wsAIName env) ''join_ai'' True)
              (on_room (PublishActivity (wsSenderName env) ''join'' True) st2)))"

definition ws_chat ::
  "('sk, 'pk) setting \<Rightarrow> time \<Rightarrow> string \<Rightarrow> bool \<Rightarrow> wsEnvelope \<Rightarrow> ('sk, 'pk) appState \<Rightarrow> ('sk, 'pk) appState outcome" where
  "ws_chat W now uuid failed env st =
     (case resolveMentions (s_U W) (wsContent env) (wsMentions env) (wsMentionAll env) of (mentions, mentionAll) \<Rightarrow>
       (case signAndPublish (s_P W) (s_U W) (s_sha256 W) uuid failed (wsSenderName env) (wsContent env) False mentions mentionAll st of
          (st1, msg) \<Rightarrow>
            (let local0 = ChatMessage_zero\<lparr>cmSenderName := wsSenderName env, cmContent := wsContent env, cmMentions := mentions,
                   cmMentionAll := mentionAll\<rparr>;
                 localMsg = (case msg of None \<Rightarrow> local0
                   | Some m \<Rightarrow> local0\<lparr>cmID := mID m, cmSenderID := mSenderID m, cmVectorClock := cmVectorClock (aiMessageFromTypes m)\<rparr>)
             in case asBatcher st1 of None \<Rightarrow> Panic | Some b \<Rightarrow> Done (batcher_add now localMsg b st1))))"

definition ws_force_reply :: "('sk, 'pk) appState \<Rightarrow> ('sk, 'pk) appState outcome" where
  "ws_force_reply st =
     (case asBatcher st of
        None \<Rightarrow> Panic
      | Some b \<Rightarrow> (case drain b of (batch, b1) \<Rightarrow> Done (st\<lparr>asBatcher := Some b1, asBatches := asBatches st @ [batch]\<rparr>)))"

text \<open>One frame from the page of connection \<open>c\<close>.\<close>

definition ws_message ::
  "('sk, 'pk) setting \<Rightarrow> time \<Rightarrow> string \<Rightarrow> bool \<Rightarrow> nat \<Rightarrow> wsEnvelope \<Rightarrow> ('sk, 'pk) appState \<Rightarrow> ('sk, 'pk) appState outcome" where
  "ws_message W now uuid failed c env st =
     (if wsType env = ''setup'' then Done (ws_setup W c env st)
      else if wsType env = ''chat'' then (if \<not> asDone st then Blocked else ws_chat W now uuid failed env st)
      else if wsType env = ''persona'' then
        (if \<not> asDone st then Blocked
         else (case asOrch st of
                 None \<Rightarrow> Panic
               | Some orch \<Rightarrow>
                 Done (st\<lparr>asOrch := Some (SetPersona \<lparr>pName = wsAIName env, pStyle = wsAIStyle env, pModel = wsAIModel env\<rparr> orch)\<rparr>)))
      else if wsType env = ''typing'' then
        (if \<not> asDone st then Blocked
         else if asRoom st = None then Panic
         else Done (on_room (PublishActivity (wsSenderName env) ''typing'' (wsContent env = ''true'')) st))
      else if wsType env = ''force_reply'' then (if \<not> asDone st then Blocked else ws_force_reply st)
      else if wsType env = ''leave'' then Done (resetRoom st)
      else Done st)"

definition ws_frame ::
  "('sk, 'pk) setting \<Rightarrow> time \<Rightarrow> string \<Rightarrow> bool \<Rightarrow> nat \<Rightarrow> string \<Rightarrow> ('sk, 'pk) appState \<Rightarrow> ('sk, 'pk) appState outcome" where
  "ws_frame W now uuid failed c raw st =
     (case wsEnvelope_Unmarshal raw of (env, None) \<Rightarrow> ws_message W now uuid failed c env st | (_, Some _) \<Rightarrow> Done st)"

section \<open>HTTP handlers\<close>

record response =
  hrStatus :: nat
  hrBody :: string

definition http_Error :: "string \<Rightarrow> nat \<Rightarrow> response" where
  "http_Error msg code = \<lparr>hrStatus = code, hrBody = msg @ [CHR 0x0A]\<rparr>"

definition json_response :: "json \<Rightarrow> response" where
  "json_response v = \<lparr>hrStatus = 200, hrBody = json_Render v @ [CHR 0x0A]\<rparr>"

text \<open>\<open>query_id\<close> is the parameter \<open>id\<close> of the URL.  The store of the agent is the same object.\<close>

definition handleMemory ::
  "string \<Rightarrow> string \<Rightarrow> written \<Rightarrow> ('sk, 'pk) appState \<times> disk \<Rightarrow> response \<times> ('sk, 'pk) appState \<times> disk" where
  "handleMemory httpMethod query_id w = (\<lambda>(st, disk).
     case asMemStore st of
       None \<Rightarrow> (json_response (JArr []), st, disk)
     | Some ms \<Rightarrow>
       if httpMethod = ''GET'' then (json_response (JArr (map memory_json (Memory_All ms))), st, disk)
       else if httpMethod = ''DELETE'' then
         (case (if query_id \<noteq> [] then Memory_Delete query_id w (ms, disk) else (ms, disk)) of
            (ms1, disk1) \<Rightarrow>
              (\<lparr>hrStatus = 204, hrBody = []\<rparr>,
               st\<lparr>asMemStore := Some ms1, asOrch := map_option (\<lambda>orch. orch\<lparr>oMemory := Some ms1\<rparr>) (asOrch st)\<rparr>, disk1))
       else (http_Error ''method not allowed'' 405, st, disk))"

definition handlePeerInfo :: "('sk, 'pk) libp2p \<Rightarrow> string \<Rightarrow> ('sk, 'pk) appState \<Rightarrow> response" where
  "handlePeerInfo P httpMethod st =
     (if httpMethod \<noteq> ''GET'' then http_Error ''GET only'' 405
      else (case (asReady st, asNode st) of
              (True, Some node) \<Rightarrow> json_response (JObj [(''addrs'', strings_json (AddrStrings P node)), (''peer_id'', JStr (asPeerID st))])
            | _ \<Rightarrow> http_Error ''room is not ready'' 409))"

text \<open>\<open>body\<close> is the multiaddress in the request, if its body could be decoded.\<close>

definition handlePeerConnect ::
  "'sk p2p_net \<Rightarrow> string \<Rightarrow> string option \<Rightarrow> ('sk, 'pk) appState \<Rightarrow> response \<times> ('sk, 'pk) appState" where
  "handlePeerConnect N httpMethod body st =
     (if httpMethod \<noteq> ''POST'' then (http_Error ''POST only'' 405, st)
      else (case body of
          None \<Rightarrow> (http_Error ''invalid request body'' 400, st)
        | Some multiaddr \<Rightarrow>
          if multiaddr = [] then (http_Error ''multiaddr is required'' 400, st)
          else (case asNode st of
              None \<Rightarrow> (http_Error ''room is not ready'' 409, st)
            | Some node \<Rightarrow>
              (case ConnectMultiaddr N multiaddr node of
                 (node1, Some err) \<Rightarrow> (http_Error err 502, st\<lparr>asNode := Some node1\<rparr>)
               | (node1, None) \<Rightarrow> (json_response (JObj [(''ok'', JBool True)]), broadcastDiagnostics (st\<lparr>asNode := Some node1\<rparr>))))))"

end
