(* ===== verification/Attack_Lab.thy ===== *)
theory Attack_Lab
  imports Server
begin

text \<open>
  The attack laboratory of \<open>cmd/main.go\<close>: the page can ask its server to attack the room, to show the defences.
  Most attacks are published by a throw-away peer, so that their packets arrive from a stranger; what libp2p does for
  that peer is the record \<open>demo_net\<close>.  An attack gives what the page is shown, or an error, and the packets that went out.
\<close>

section \<open>The throw-away peer\<close>

record demo_net =
  dn_Peers :: "string list"
  dn_New :: "string option"
  dn_Addrs :: "string \<Rightarrow> string list"
  dn_Connect :: "string \<Rightarrow> string option"
  dn_GossipSub :: "string option"
  dn_Join :: "string \<Rightarrow> string option"
  dn_Graft :: "string option"
  dn_Publish :: "string \<Rightarrow> string option"
  dn_Wait :: "nat \<Rightarrow> string option"

text \<open>The loop over the payloads; \<open>dn_Wait\<close> is the pause before the last so many payloads, an error if time runs out.\<close>

fun publish_burst :: "demo_net \<Rightarrow> string list \<Rightarrow> string option \<times> string list" where
  "publish_burst D [] = (None, [])"
| "publish_burst D (payload # rest) =
     (if payload = [] then publish_burst D rest
      else (case dn_Publish D payload of
              Some err \<Rightarrow> (Some err, [])
            | None \<Rightarrow>
              if rest = [] then (None, [payload])
              else (case dn_Wait D (length rest) of
                      Some err \<Rightarrow> (Some err, [payload])
                    | None \<Rightarrow> (case publish_burst D rest of (err, sent) \<Rightarrow> (err, payload # sent)))))"

definition PublishRawBurstForDemo :: "demo_net \<Rightarrow> string list \<Rightarrow> ChatRoom \<Rightarrow> string option \<times> string list" where
  "PublishRawBurstForDemo D payloads cr =
     (if payloads = [] then (Some ''empty demo payload'', [])
      else if dn_Peers D = [] then
        (Some ''no connected peers; open another node in the same room before running remote attack demos'', [])
      else (case dn_New D of
          Some err \<Rightarrow> (Some (''create demo attacker peer: '' @ err), [])
        | None \<Rightarrow>
          if filter (\<lambda>pid. dn_Addrs D pid \<noteq> [] \<and> dn_Connect D pid = None) (dn_Peers D) = [] then
            (Some ''demo attacker could not connect to any peers'', [])
          else (case dn_GossipSub D of
              Some err \<Rightarrow> (Some (''create demo attacker gossipsub: '' @ err), [])
            | None \<Rightarrow>
              (case dn_Join D (crTopicName cr) of
                 Some err \<Rightarrow> (Some (''join demo attacker topic: '' @ err), [])
               | None \<Rightarrow>
                 (case dn_Graft D of Some err \<Rightarrow> (Some err, []) | None \<Rightarrow> publish_burst D payloads)))))"

definition PublishRawForDemo :: "demo_net \<Rightarrow> string \<Rightarrow> ChatRoom \<Rightarrow> string option \<times> string list" where
  "PublishRawForDemo D data cr = PublishRawBurstForDemo D [data] cr"

section \<open>Results\<close>

record attackResult =
  arOK :: bool
  arAttackType :: string
  arDefenseLayer :: string
  arExpected :: string
  arPublished :: bool
  arNote :: string
  arPacketSummary :: string
  arPacketBefore :: string
  arPacketAfter :: string
  arExplanation :: string

definition attackResult_json :: "attackResult \<Rightarrow> json" where
  "attackResult_json r = JObj
     ([(''ok'', JBool (arOK r)), (''attack_type'', JStr (arAttackType r)), (''defense_layer'', JStr (arDefenseLayer r)),
       (''expected'', JStr (arExpected r)), (''published'', JBool (arPublished r)), (''note'', JStr (arNote r))] @
      omitempty (arPacketSummary r = []) (''packet_summary'', JStr (arPacketSummary r)) @
      omitempty (arPacketBefore r = []) (''packet_before'', JStr (arPacketBefore r)) @
      omitempty (arPacketAfter r = []) (''packet_after'', JStr (arPacketAfter r)) @
      omitempty (arExplanation r = []) (''explanation'', JStr (arExplanation r)))"

definition demo_result ::
  "string \<Rightarrow> string \<Rightarrow> string \<Rightarrow> string \<Rightarrow> string \<Rightarrow> string \<Rightarrow> string \<Rightarrow> string \<Rightarrow> attackResult" where
  "demo_result attackType defenseLayer expected note packetSummary before after explanation =
     \<lparr>arOK = True, arAttackType = attackType, arDefenseLayer = defenseLayer, arExpected = expected, arPublished = True,
      arNote = note, arPacketSummary = packetSummary, arPacketBefore = before, arPacketAfter = after,
      arExplanation = explanation\<rparr>"

definition compactDemoJSON :: "Message \<Rightarrow> string" where
  "compactDemoJSON msg = truncateText (json_Indent (message_json msg)) 900"

section \<open>Material\<close>

text \<open>A signed message of the peer itself: it uses up a clock value but does not move \<open>prevHash\<close>.\<close>

definition sign_message :: "('sk, 'pk) libp2p \<Rightarrow> ('sk, 'pk) Identity \<Rightarrow> Message \<Rightarrow> string + Message" where
  "sign_message P identity msg =
     (case SignableBytes msg of
        Inl err \<Rightarrow> Inl err
      | Inr sigData \<Rightarrow> map_sum id (\<lambda>sig. msg\<lparr>mSignature := sig\<rparr>) (Sign P identity sigData))"

definition signedDemoMessage ::
  "('sk, 'pk) libp2p \<Rightarrow> string \<Rightarrow> string \<Rightarrow> string \<Rightarrow> u64 gomap option \<Rightarrow> ('sk, 'pk) appState \<Rightarrow>
    ('sk, 'pk) appState \<times> (string + Message)" where
  "signedDemoMessage P uuid senderName content vcOverride st =
     (case (asVC st, asIdentity st) of
        (Some vc, Some identity) \<Rightarrow>
          if \<not> asReady st then (st, Inl ''room is not ready'')
          else
            (let vc1 = Increment (asPeerID st) vc;
                 snap = (case vcOverride of None \<Rightarrow> Snapshot vc1 | Some m \<Rightarrow> (case cloneVC m of None \<Rightarrow> [] | Some c \<Rightarrow> c));
                 msg = NewMessage uuid (asPeerID st) senderName content [] False snap (asPrevHash st) False
             in (st\<lparr>asVC := Some vc1\<rparr>, sign_message P identity msg))
      | _ \<Rightarrow> (st, Inl ''room is not ready''))"

text \<open>The loop of \<open>buildFloodDemoPayloads\<close> from message number \<open>i\<close> on, \<open>k\<close> more to make.\<close>

fun flood_payloads ::
  "('sk, 'pk) libp2p \<Rightarrow> (string \<Rightarrow> string) \<Rightarrow> (nat \<Rightarrow> string) \<Rightarrow> ('sk, 'pk) Identity \<Rightarrow> string \<Rightarrow> nat \<Rightarrow> nat \<Rightarrow> string \<Rightarrow>
    string + string list" where
  "flood_payloads P sha256 uuids identity peerID i 0 prevHash = Inr []"
| "flood_payloads P sha256 uuids identity peerID i (Suc k) prevHash =
     (case sign_message P identity
        (NewMessage (uuids i) peerID ''FloodDemo'' (''signed flood probe '' @ decimal (i + 1)) [] False
           [(peerID, of_nat (i + 1))] prevHash False) of
        Inl err \<Rightarrow> Inl err
      | Inr msg \<Rightarrow>
        map_sum id (\<lambda>rest. Message_Marshal (msg\<lparr>mContent := ''tampered flood probe '' @ decimal (i + 1)\<rparr>) # rest)
          (flood_payloads P sha256 uuids identity peerID (Suc i) k (case Hash sha256 msg of Inl _ \<Rightarrow> [] | Inr h \<Rightarrow> h)))"

definition buildFloodDemoPayloads ::
  "('sk, 'pk) libp2p \<Rightarrow> (string \<Rightarrow> string) \<Rightarrow> (nat \<Rightarrow> string) \<Rightarrow> int \<Rightarrow> ('sk, 'pk) appState \<Rightarrow> string + string list" where
  "buildFloodDemoPayloads P sha256 uuids n st =
     (if n \<le> 0 then Inl ''invalid flood count''
      else (case asIdentity st of
          None \<Rightarrow> Inl ''room is not ready''
        | Some identity \<Rightarrow>
          if \<not> asReady st then Inl ''room is not ready''
          else flood_payloads P sha256 uuids identity (asPeerID st) 0 (nat n) []))"

section \<open>The attacks\<close>

text \<open>An attack: the new state, what is sent by the stranger (in one burst), and what the page is shown.\<close>

type_synonym ('sk, 'pk) attack = "('sk, 'pk) appState \<times> (string + (string list \<times> attackResult))"

definition with_demo_message ::
  "('sk, 'pk) appState \<times> (string + Message) \<Rightarrow> (Message \<Rightarrow> string list \<times> attackResult) \<Rightarrow> ('sk, 'pk) attack" where
  "with_demo_message made f = (case made of (st, r) \<Rightarrow> (st, map_sum id f r))"

definition tamper_content :: "('sk, 'pk) libp2p \<Rightarrow> string \<Rightarrow> ('sk, 'pk) appState \<Rightarrow> ('sk, 'pk) attack" where
  "tamper_content P uuid st =
     with_demo_message (signedDemoMessage P uuid ''TamperDemo'' ''legitimate text'' None st) (\<lambda>msg.
       let forged = msg\<lparr>mContent := ''FORGED: content changed after signing''\<rparr>
       in ([Message_Marshal forged],
         demo_result ''tamper_content'' ''GossipSub Validator + Ed25519 Signature''
           ''Rejected +1, no forged chat message displayed''
           ''Published once through an isolated demo attacker peer; receivers should reject bad_signature.''
           ''A signed chat message keeps the original signature but changes content after signing.''
           (compactDemoJSON msg) (compactDemoJSON forged)
           ''The receiver recomputes the signable payload hash from the modified content, so Ed25519 verification fails.''))"

definition spoof_sync :: "string \<Rightarrow> ('sk, 'pk) appState \<Rightarrow> ('sk, 'pk) attack" where
  "spoof_sync uuid st =
     (st, Inr ([json_Render (control_json (Control_zero\<lparr>cKind := ''sync_request'', cRequestID := uuid,
                 cFromPeerID := ''spoofed-peer-id''\<rparr>))],
         demo_result ''spoof_sync'' ''GossipSub Validator + Sync FromPeerID binding''
           ''Rejected +1, Last Reject shows from_peer_mismatch''
           ''Published once through an isolated demo attacker peer; receivers should reject from_peer_mismatch.''
           ''A sync request claims from_peer_id=spoofed-peer-id while the forwarding peer is different.''
           [] []
           ''Honest peers bind sync controls to the actual libp2p forwarding peer, so identity spoofing is rejected.''))"

definition malformed_payload :: "('sk, 'pk) appState \<Rightarrow> ('sk, 'pk) attack" where
  "malformed_payload st =
     (st, Inr ([''{not valid json''],
         demo_result ''malformed_payload'' ''GossipSub Validator JSON / payload checks''
           ''Rejected +1, Last Reject shows invalid_json''
           ''Published once through an isolated demo attacker peer; receivers should reject invalid_json.''
           ''A non-JSON payload is injected into the GossipSub topic.''
           [] ''{not valid json''
           ''The topic validator rejects it before it can be decoded as a chat or sync message.''))"

definition forged_sync :: "('sk, 'pk) libp2p \<Rightarrow> string \<Rightarrow> string \<Rightarrow> ('sk, 'pk) appState \<Rightarrow> ('sk, 'pk) attack" where
  "forged_sync P uuid request_id st =
     with_demo_message (signedDemoMessage P uuid ''ForgedSyncDemo'' ''legitimate sync message'' None st) (\<lambda>msg.
       let forged = msg\<lparr>mContent := ''FORGED SYNC: modified after signing''\<rparr>
       in ([json_Render (control_json (Control_zero\<lparr>cKind := ''sync_response'', cRequestID := request_id,
              cFromPeerID := asPeerID st, cMessages := [Some forged]\<rparr>))],
         demo_result ''forged_sync'' ''Sync Response Message Revalidation''
           ''Rejected +1, forged sync message does not enter ledger''
           ''Published once through an isolated demo attacker peer; receivers should reject the forged sync message.''
           ''A sync response carries a tampered signed message inside its history repair payload.''
           (compactDemoJSON msg) (compactDemoJSON forged)
           ''Sync responses are not blindly trusted; every embedded message is re-validated before ledger repair.''))"

definition missing_sender_clock :: "('sk, 'pk) libp2p \<Rightarrow> string \<Rightarrow> ('sk, 'pk) appState \<Rightarrow> ('sk, 'pk) attack" where
  "missing_sender_clock P uuid st =
     with_demo_message (signedDemoMessage P uuid ''ClockDemo'' ''signed but missing sender clock'' (Some [(''other-peer'', 1)]) st) (\<lambda>msg.
       ([Message_Marshal msg],
         demo_result ''missing_sender_clock'' ''Vector Clock Sanity Check''
           ''Rejected +1, Last Reject shows missing_sender_clock''
           ''Published once through an isolated demo attacker peer; receivers should reject missing_sender_clock.''
           (''A signed message omits the sender'' @ [CHR 0x27] @ ''s own vector-clock entry.'')
           [] (compactDemoJSON msg)
           ''The message may be signed, but it has invalid logical-time metadata, so causal ordering cannot trust it.''))"

text \<open>Two signed messages one after the other; the second is not made when the first failed.\<close>

definition with_two_messages ::
  "('sk, 'pk) appState \<times> (string + Message) \<Rightarrow> (('sk, 'pk) appState \<Rightarrow> ('sk, 'pk) appState \<times> (string + Message)) \<Rightarrow>
    (Message \<Rightarrow> Message \<Rightarrow> string list \<times> attackResult) \<Rightarrow> ('sk, 'pk) attack" where
  "with_two_messages first second f =
     (case first of
        (st1, Inl err) \<Rightarrow> (st1, Inl err)
      | (st1, Inr a) \<Rightarrow> with_demo_message (second st1) (f a))"

definition clock_regression :: "('sk, 'pk) libp2p \<Rightarrow> string \<Rightarrow> string \<Rightarrow> ('sk, 'pk) appState \<Rightarrow> ('sk, 'pk) attack" where
  "clock_regression P uuid1 uuid2 st =
     with_two_messages
       (signedDemoMessage P uuid1 ''ClockDemo'' ''prime sender clock high watermark'' (Some [(asPeerID st, 900)]) st)
       (signedDemoMessage P uuid2 ''ClockDemo'' ''signed but sender clock regressed'' (Some [(asPeerID st, 100)]))
       (\<lambda>msgPrime msgLow. ([Message_Marshal msgPrime, Message_Marshal msgLow],
         demo_result ''clock_regression'' ''Ledger monotonic sender clock guard''
           ''No chat insert; ClockBack +1 and Last Reject shows clock_regression''
           ''Published high counter then lower counter from same sender; second should be rejected as clock_regression.''
           ''Two signed messages from the same sender: first clock=900, then clock=100.''
           (compactDemoJSON msgPrime) (compactDemoJSON msgLow)
           ''Both signatures are valid, but the ledger enforces monotonic sender counters to prevent logical-time rollback.''))"

text \<open>A demo message moved onto the invented predecessor and signed again; an error of that leaves no signature.\<close>

definition fork_message :: "('sk, 'pk) libp2p \<Rightarrow> ('sk, 'pk) Identity \<Rightarrow> Message \<Rightarrow> Message" where
  "fork_message P identity msg =
     (let msg1 = msg\<lparr>mPrevHash := ''attack-fork-prev-hash''\<rparr>
      in msg1\<lparr>mSignature := (case SignableBytes msg1 of Inl _ \<Rightarrow> []
           | Inr d \<Rightarrow> (case Sign P identity d of Inl _ \<Rightarrow> [] | Inr s \<Rightarrow> s))\<rparr>)"

definition equivocation_fork ::
  "('sk, 'pk) libp2p \<Rightarrow> string \<Rightarrow> string \<Rightarrow> ('sk, 'pk) Identity \<Rightarrow> ('sk, 'pk) appState \<Rightarrow> ('sk, 'pk) attack" where
  "equivocation_fork P uuid1 uuid2 identity st =
     with_two_messages
       (signedDemoMessage P uuid1 ''ForkDemo'' ''branch A'' (Some [(asPeerID st, 777001)]) st)
       (signedDemoMessage P uuid2 ''ForkDemo'' ''branch B'' (Some [(asPeerID st, 777002)]))
       (\<lambda>a b. let msgA = fork_message P identity a; msgB = fork_message P identity b in
         ([Message_Marshal msgA, Message_Marshal msgB],
         demo_result ''equivocation_fork'' ''Ledger hash-chain fork detection''
           ''Second forked message blocked; Equivocation +1 and Last Reject shows equivocation_fork''
           ''Published two signed messages from the same sender using the same prev_hash; second should be blocked as equivocation.''
           ''Two signed branches reuse the same prev_hash with different content.''
           (compactDemoJSON msgA) (compactDemoJSON msgB)
           ''The hash chain detects a Byzantine sender forking its local history from the same previous hash.''))"

definition flood_spam ::
  "('sk, 'pk) libp2p \<Rightarrow> (string \<Rightarrow> string) \<Rightarrow> (nat \<Rightarrow> string) \<Rightarrow> ('sk, 'pk) appState \<Rightarrow> ('sk, 'pk) attack" where
  "flood_spam P sha256 uuids st =
     (st, if asNode st = None then Inl ''p2p node is not ready''
       else map_sum id (\<lambda>payloads. (payloads,
         demo_result ''flood_spam'' ''Per-peer token-bucket rate limit + quarantine''
           ''Burst is throttled; RateLimited increases and no spam chat is rendered''
           ''Published 24 tampered probe packets rapidly from one attacker peer; receivers should throttle with rate_limited without rendering chat spam.''
           ''A burst of 24 packets is sent faster than the per-peer token bucket allows; probes are also tampered so early allowed packets still fail signature checks.''
           [] []
           ''Flood defense is about volume control. The demo uses non-renderable probes so the UI stays clean while Security Trace shows bad_signature first, then rate_limited/quarantine.''))
       (buildFloodDemoPayloads P sha256 uuids 24 st))"

text \<open>The latest message of the ledger, published again through the room itself; \<open>failed\<close> is the error of that.\<close>

definition replay_message :: "string option \<Rightarrow> ('sk, 'pk) appState \<Rightarrow> ('sk, 'pk) appState \<times> (string + attackResult)" where
  "replay_message failed st =
     (case asLedger st of
        None \<Rightarrow> (st, Inl ''ledger is not ready'')
      | Some ledger \<Rightarrow>
        (case Recent 1 ledger of
           [] \<Rightarrow> (st, Inl ''send a normal chat message before replay demo'')
         | msg # _ \<Rightarrow>
           (case failed of
              Some err \<Rightarrow> (st, Inl err)
            | None \<Rightarrow> (on_room (Publish msg) st, Inr (
         demo_result ''replay_message'' ''Ledger Dedupe''
           ''No duplicate chat render; Duplicate counter increases on peers that already saw it''
           ''Replayed the latest valid signed message.''
           (''Replayed message_id='' @ short_id (mID msg) @ '' with a valid original signature.'')
           [] []
           ''The signature is valid, but the ledger already has this message_id, so it is deduplicated before UI/AI insertion.'')))))"

text \<open>What most attacks end with: the node must be there, and the stranger publishes.\<close>

definition launch ::
  "demo_net \<Rightarrow> ChatRoom \<Rightarrow> ('sk, 'pk) attack \<Rightarrow> ('sk, 'pk) appState \<times> string list \<times> (string + attackResult)" where
  "launch D room attack =
     (case attack of
        (st, Inl err) \<Rightarrow> (st, [], Inl err)
      | (st, Inr (payloads, result)) \<Rightarrow>
        if asNode st = None then (st, [], Inl ''p2p node is not ready'')
        else (case PublishRawBurstForDemo D payloads room of
                (Some err, sent) \<Rightarrow> (st, sent, Inl err)
              | (None, sent) \<Rightarrow> (st, sent, Inr result)))"

text \<open>\<open>runDemoAttack\<close>: the new state, the stranger's packets, the result.  \<open>uuids\<close> supplies the fresh identifiers.\<close>

definition runDemoAttack ::
  "('sk, 'pk) setting \<Rightarrow> (string \<Rightarrow> string) \<Rightarrow> demo_net \<Rightarrow> (nat \<Rightarrow> string) \<Rightarrow> string option \<Rightarrow> string \<Rightarrow> ('sk, 'pk) appState \<Rightarrow>
    ('sk, 'pk) appState \<times> string list \<times> (string + attackResult)" where
  "runDemoAttack W quote D uuids failed attackType st =
     (case (asRoom st, asIdentity st) of
        (Some room, Some identity) \<Rightarrow>
          if \<not> asReady st then (st, [], Inl ''room is not ready'')
          else if attackType = ''tamper_content'' then launch D room (tamper_content (s_P W) (uuids 0) st)
          else if attackType = ''spoof_sync'' then launch D room (spoof_sync (uuids 0) st)
          else if attackType = ''replay_message'' then (case replay_message failed st of (st1, r) \<Rightarrow> (st1, [], r))
          else if attackType = ''malformed_payload'' then launch D room (malformed_payload st)
          else if attackType = ''forged_sync'' then launch D room (forged_sync (s_P W) (uuids 0) (uuids 1) st)
          else if attackType = ''missing_sender_clock'' then launch D room (missing_sender_clock (s_P W) (uuids 0) st)
          else if attackType = ''clock_regression'' then launch D room (clock_regression (s_P W) (uuids 0) (uuids 1) st)
          else if attackType = ''equivocation_fork'' then launch D room (equivocation_fork (s_P W) (uuids 0) (uuids 1) identity st)
          else if attackType = ''flood_spam'' then launch D room (flood_spam (s_P W) (s_sha256 W) uuids st)
          else (st, [], Inl (''unknown attack type '' @ quote attackType))
      | _ \<Rightarrow> (st, [], Inl ''room is not ready''))"

section \<open>The handlers\<close>

text \<open>\<open>body\<close> is the attack type in the request: none if its body could not be decoded, empty if it had none.\<close>

definition attack_response :: "string + attackResult \<Rightarrow> response" where
  "attack_response r = (case r of Inl err \<Rightarrow> http_Error err 409 | Inr result \<Rightarrow> json_response (attackResult_json result))"

definition handleAttackDemo ::
  "('sk, 'pk) setting \<Rightarrow> (string \<Rightarrow> string) \<Rightarrow> demo_net \<Rightarrow> (nat \<Rightarrow> string) \<Rightarrow> string option \<Rightarrow> string \<Rightarrow> string option \<Rightarrow>
    ('sk, 'pk) appState \<Rightarrow> response \<times> ('sk, 'pk) appState \<times> string list" where
  "handleAttackDemo W quote D uuids failed httpMethod body st =
     (if httpMethod \<noteq> ''POST'' then (http_Error ''POST only'' 405, st, [])
      else (case body of
          None \<Rightarrow> (http_Error ''invalid request body'' 400, st, [])
        | Some t \<Rightarrow>
          (case runDemoAttack W quote D uuids failed (if t = [] then ''tamper_content'' else t) st of
             (st1, sent, r) \<Rightarrow> (attack_response r, st1, sent))))"

definition handleForgeDemo ::
  "('sk, 'pk) setting \<Rightarrow> (string \<Rightarrow> string) \<Rightarrow> demo_net \<Rightarrow> (nat \<Rightarrow> string) \<Rightarrow> string option \<Rightarrow> string \<Rightarrow>
    ('sk, 'pk) appState \<Rightarrow> response \<times> ('sk, 'pk) appState \<times> string list" where
  "handleForgeDemo W quote D uuids failed httpMethod st =
     (if httpMethod \<noteq> ''POST'' then (http_Error ''POST only'' 405, st, [])
      else (case runDemoAttack W quote D uuids failed ''tamper_content'' st of
              (st1, sent, r) \<Rightarrow> (attack_response r, st1, sent)))"

end
