(* ===== verification/Causality.thy ===== *)
theory Causality
  imports Attack_Lab
begin

text \<open>
  What happens to clocks in a running room: every operation of the application, in any order.  The two sections of
  \<open>signAndPublish\<close> are separate steps, so that calls of the websocket handlers and of the agent overlap, and so are the two
  parts of \<open>acceptMessage\<close>, because a call may sign after the ledger took a message and before its clock is merged.
\<close>

section \<open>A room in operation\<close>

text \<open>The application; the messages signed but not yet published; the messages the ledger took whose clock is not merged yet,
  with the other arguments of their call.  Two things are only noted: every message \<open>signAndPublish\<close> signed (those of the attack
  laboratory are not among them), and whether the own counter ever wrapped around.\<close>

record ('sk, 'pk) run =
  rApp :: "('sk, 'pk) appState"
  rFlight :: "Message list"
  rPending :: "(Message \<times> bool \<times> bool) list"
  rSigned :: "Message list"
  rWrapped :: bool

text \<open>\<open>Others\<close> replaces what the room, the agent, the batcher and the pages do among themselves.\<close>

datatype app_op =
    Sign_op string string string bool "string list" bool
  | Publish_op nat bool
  | Demo_op string string string "u64 gomap option"
  | Accept_add Message bool bool
  | Accept_rest nat time
  | Repair_begin
  | Repair_end int
  | Answer_op time Control
  | Request_op string
  | Timeout_op nat
  | Activity_op Activity
  | Reject_op RejectEvent
  | Trace_op SecurityTraceEvent
  | Tick_op
  | Others ChatRoom hub "Orchestrator option" "ChatMessage Batcher option" "ChatMessage list list"

definition wraps :: "('sk, 'pk) appState \<Rightarrow> bool" where
  "wraps st = (case asVC st of None \<Rightarrow> False | Some vc \<Rightarrow> counters (clock vc) (asPeerID st) = - 1)"

definition on_app :: "(('sk, 'pk) appState \<Rightarrow> ('sk, 'pk) appState) \<Rightarrow> ('sk, 'pk) run \<Rightarrow> ('sk, 'pk) run" where
  "on_app f r = r\<lparr>rApp := f (rApp r)\<rparr>"

definition run_sign ::
  "('sk, 'pk) setting \<Rightarrow> string \<Rightarrow> string \<Rightarrow> string \<Rightarrow> bool \<Rightarrow> string list \<Rightarrow> bool \<Rightarrow> ('sk, 'pk) run \<Rightarrow> ('sk, 'pk) run" where
  "run_sign W uuid senderName content isAI mentions mentionAll r =
     (case (asRoom (rApp r), asVC (rApp r), asIdentity (rApp r)) of
        (Some room, Some vc, Some identity) \<Rightarrow>
          if \<not> asReady (rApp r) then r
          else (case sign_section (s_P W) (s_sha256 W) uuid senderName content isAI mentions mentionAll identity vc (rApp r) of
                  (msg, st1) \<Rightarrow>
                    r\<lparr>rApp := st1, rFlight := rFlight r @ [msg], rSigned := rSigned r @ [msg], rWrapped := (rWrapped r \<or> wraps (rApp r))\<rparr>)
      | _ \<Rightarrow> r)"

definition run_publish :: "unicode \<Rightarrow> nat \<Rightarrow> bool \<Rightarrow> ('sk, 'pk) run \<Rightarrow> ('sk, 'pk) run" where
  "run_publish U i failed r =
     (if i < length (rFlight r)
      then r\<lparr>rApp := fst (publish_section U failed (rFlight r ! i) (rApp r)),
             rFlight := take i (rFlight r) @ drop (Suc i) (rFlight r)\<rparr>
      else r)"

definition run_accept_add :: "unicode \<Rightarrow> (string \<Rightarrow> string) \<Rightarrow> Message \<Rightarrow> bool \<Rightarrow> bool \<Rightarrow> ('sk, 'pk) run \<Rightarrow> ('sk, 'pk) run" where
  "run_accept_add U quote m self triggerAI r =
     (case accept_ledger U quote m (rApp r) of
        (st1, ok) \<Rightarrow> r\<lparr>rApp := st1, rPending := (if ok then rPending r @ [(m, self, triggerAI)] else rPending r)\<rparr>)"

definition run_accept_rest :: "unicode \<Rightarrow> nat \<Rightarrow> time \<Rightarrow> ('sk, 'pk) run \<Rightarrow> ('sk, 'pk) run" where
  "run_accept_rest U i now r =
     (if i < length (rPending r)
      then (case rPending r ! i of
              (m, self, triggerAI) \<Rightarrow>
                r\<lparr>rApp := accept_rest U now m self triggerAI (rApp r), rPending := take i (rPending r) @ drop (Suc i) (rPending r)\<rparr>)
      else r)"

text \<open>A repair is its beginning, one \<open>acceptMessage\<close> for each message, and its end, each a step of its own.\<close>

fun perform_app :: "('sk, 'pk) setting \<Rightarrow> (string \<Rightarrow> string) \<Rightarrow> app_op \<Rightarrow> ('sk, 'pk) run \<Rightarrow> ('sk, 'pk) run" where
  "perform_app W quote (Sign_op uuid senderName content isAI mentions mentionAll) r =
     run_sign W uuid senderName content isAI mentions mentionAll r"
| "perform_app W quote (Publish_op i failed) r = run_publish (s_U W) i failed r"
| "perform_app W quote (Demo_op uuid senderName content vcOverride) r =
     r\<lparr>rApp := fst (signedDemoMessage (s_P W) uuid senderName content vcOverride (rApp r)), rWrapped := (rWrapped r \<or> wraps (rApp r))\<rparr>"
| "perform_app W quote (Accept_add m self triggerAI) r = run_accept_add (s_U W) quote m self triggerAI r"
| "perform_app W quote (Accept_rest i now) r = run_accept_rest (s_U W) i now r"
| "perform_app W quote Repair_begin r = on_app repair_begin r"
| "perform_app W quote (Repair_end repaired) r = on_app (repair_end repaired) r"
| "perform_app W quote (Answer_op now ctrl) r =
     (if cKind ctrl = ''sync_response'' then r else on_app (handleControl (s_U W) quote now ctrl) r)"
| "perform_app W quote (Request_op uuid) r = on_app (requestSync uuid) r"
| "perform_app W quote (Timeout_op no) r = on_app (sync_timeout no) r"
| "perform_app W quote (Activity_op act) r = on_app (handleActivity act) r"
| "perform_app W quote (Reject_op reject) r = on_app (handleRejected reject) r"
| "perform_app W quote (Trace_op tr) r = on_app (broadcastSecurityTrace tr) r"
| "perform_app W quote Tick_op r = on_app handleTick r"
| "perform_app W quote (Others room h orch b batches) r =
     on_app (\<lambda>st. st\<lparr>asRoom := Some room, asHub := h, asOrch := orch, asBatcher := b, asBatches := batches\<rparr>) r"

text \<open>Messages come from the decoder, so their clocks are maps.\<close>

fun app_op_ok :: "app_op \<Rightarrow> bool" where
  "app_op_ok (Accept_add m self triggerAI) = clock_wf (mVectorClock m)"
| "app_op_ok _ = True"

section \<open>What the operations leave alone\<close>

text \<open>The part of the state clocks are about.\<close>

definition core :: "('sk, 'pk) appState \<Rightarrow> bool \<times> ('sk, 'pk) Identity option \<times> string \<times> VectorClock option \<times> Ledger option \<times> bool" where
  "core st = (asReady st, asIdentity st, asPeerID st, asVC st, asLedger st, asRoom st = None)"

lemma core_fields:
  "core st = core st' \<longleftrightarrow> asReady st = asReady st' \<and> asIdentity st = asIdentity st' \<and> asPeerID st = asPeerID st' \<and>
     asVC st = asVC st' \<and> asLedger st = asLedger st' \<and> (asRoom st = None \<longleftrightarrow> asRoom st' = None)"
  by (auto simp: core_def)

named_theorems core_simps "operations that leave the core alone"

lemma core_broadcast [core_simps]: "core (broadcast env st) = core st"
  by (simp add: core_def broadcast_def)

lemma core_diagnostics [core_simps]: "core (broadcastDiagnostics st) = core st"
  by (simp add: broadcastDiagnostics_def core_simps split: option.split)

lemma core_trace [core_simps]: "core (broadcastSecurityTrace tr st) = core st"
  by (simp add: broadcastSecurityTrace_def core_simps)

lemma core_on_room [core_simps]: "core (on_room f st) = core st"
  by (simp add: core_def on_room_def)

lemma core_batcher_add [core_simps]: "core (batcher_add now cm b st) = core st"
  by (simp add: core_def batcher_add_def split: prod.split)

lemma core_to_agent [core_simps]: "core (to_agent U now trig msg st) = core st"
  unfolding to_agent_def prod.case
  by (cases "asBatcher st"; cases "asOrch st") (simp_all add: core_simps, simp_all add: core_def)

lemma core_activity [core_simps]: "core (handleActivity act st) = core st"
  by (simp add: handleActivity_def core_simps)

lemma core_tick [core_simps]: "core (handleTick st) = core st"
  by (simp add: handleTick_def Let_def core_simps split: option.split)

lemma core_on_ledger: "core (on_ledger f st) = core (st\<lparr>asLedger := map_option f (asLedger st)\<rparr>)"
  by (simp add: on_ledger_def)

section \<open>Nobody is ahead of the own clock\<close>

text \<open>The invariant for the messages \<open>A\<close> signed and the messages \<open>Q\<close> the ledger took whose clocks are not merged yet: no other
  known message is ahead of the clock, unless it wrapped around.\<close>

definition known :: "bool \<Rightarrow> VectorClock \<Rightarrow> Message set \<Rightarrow> bool" where
  "known w vc A = (\<forall>m \<in> A. clock_wf (mVectorClock m) \<and> (\<not> w \<longrightarrow> counters (clock_of m) \<le> counters (clock vc)))"

definition app_inv :: "bool \<Rightarrow> Message set \<Rightarrow> Message set \<Rightarrow> ('sk, 'pk) appState \<Rightarrow> bool" where
  "app_inv w A Q st =
     (asReady st \<and> asIdentity st \<noteq> None \<and> asRoom st \<noteq> None \<and>
      (\<exists>vc l. asVC st = Some vc \<and> asLedger st = Some l \<and> go_wf (clock vc) \<and> known w vc (A \<union> (set (lMessages l) - Q))))"

lemma app_inv_cong: "core st = core st' \<Longrightarrow> app_inv w A Q st = app_inv w A Q st'"
  by (simp add: app_inv_def core_fields)

lemma app_inv_core [core_simps]:
  "app_inv w A Q (broadcast env st) = app_inv w A Q st"
  "app_inv w A Q (broadcastDiagnostics st) = app_inv w A Q st"
  "app_inv w A Q (broadcastSecurityTrace tr st) = app_inv w A Q st"
  "app_inv w A Q (on_room f st) = app_inv w A Q st"
  "app_inv w A Q (to_agent U now trig msg st) = app_inv w A Q st"
  "app_inv w A Q (handleActivity act st) = app_inv w A Q st"
  "app_inv w A Q (handleTick st) = app_inv w A Q st"
  by (rule app_inv_cong; simp add: core_simps)+

lemma known_mono: "known w vc A \<Longrightarrow> B \<subseteq> A \<Longrightarrow> known w vc B"
  by (auto simp: known_def)

lemma app_inv_mono: "app_inv w A Q st \<Longrightarrow> Q \<subseteq> Q' \<Longrightarrow> app_inv w A Q' st"
  unfolding app_inv_def by (elim conjE exE, intro conjI exI) (auto elim: known_mono)

lemma app_inv_ledger:
  assumes "app_inv w A Q st" and "\<And>l. asLedger st = Some l \<Longrightarrow> set (lMessages (f l)) \<subseteq> set (lMessages l)"
  shows "app_inv w A Q (on_ledger f st)"
  using assms unfolding app_inv_def on_ledger_def known_def by fastforce

lemma clone_clock:
  assumes "clock_wf (mVectorClock m)"
  shows "clock_wf (mVectorClock (clone m))" and "counters (clock_of (clone m)) = counters (clock_of m)"
  using assms go_wf_clock_of [OF assms] by (simp_all add: clock_wf_def)

lemma inserted_messages: "set (lMessages (insert_message U m l)) \<subseteq> insert (clone m) (set (lMessages l))"
  using set_drop_subset [of "overflow l" "all_messages U m l"] by (simp add: insert_message_simps set_all_messages)

lemma known_insert: "known w vc (insert m A) \<Longrightarrow> known w vc (insert (clone m) A)"
  using clone_clock [of m] by (simp add: known_def)

text \<open>The ledger after \<open>AddWithReason\<close>: the message inserted, or the same messages as before.\<close>

lemma AddWithReason_messages:
  "lMessages (fst (AddWithReason U msg l)) = (if accepts msg l then lMessages (insert_message U (the msg) l) else lMessages l)"
proof (cases "accepts msg l")
  case True
  then show ?thesis by (cases msg) (simp_all add: AddWithReason_accept, simp add: accepts_def)
next
  case False
  then show ?thesis using AddWithReason_reject(1) [OF False, of U] by (simp add: prod_eq_iff)
qed

lemma Add_messages: "lMessages (fst (Add U msg l)) = (if accepts msg l then lMessages (insert_message U (the msg) l) else lMessages l)"
  using AddWithReason_messages [of U msg l] by (simp add: Add_def split_beta)

lemma publish_section_inv:
  assumes "app_inv w A Q st" and "m \<in> A"
  shows "app_inv w A Q (fst (publish_section U failed m st))"
proof -
  obtain vc l where st: "asVC st = Some vc" "asLedger st = Some l" "go_wf (clock vc)" "known w vc (A \<union> (set (lMessages l) - Q))"
    using assms(1) by (auto simp: app_inv_def)
  from assms(2) have "insert m (A \<union> (set (lMessages l) - Q)) = A \<union> (set (lMessages l) - Q)" by auto
  with st(4) have "known w vc (insert (clone m) (A \<union> (set (lMessages l) - Q)))" using known_insert [of w vc m] by simp
  then have "known w vc (A \<union> (set (lMessages (fst (Add U (Some m) l))) - Q))"
    by (rule known_mono) (use inserted_messages [of U m l] in \<open>auto simp: Add_messages\<close>)
  with assms(1) st have "app_inv w A Q (on_ledger (\<lambda>l. fst (Add U (Some m) l)) (on_room (Publish m) st))"
    by (simp add: app_inv_def on_ledger_def on_room_def)
  with assms(1) show ?thesis by (simp add: publish_section_def Let_def core_simps)
qed

lemma known_merge:
  assumes "known w vc A" and "clock_wf (mVectorClock m)"
  shows "known w (Merge (clock_of m) vc) (insert m A)"
  using assms unfolding known_def
  by (auto simp: counters_Merge go_wf_clock_of le_fun_def intro: max.coboundedI1)

lemma acceptMessage_cases:
  assumes "asLedger st = Some l" and "msg = Some m"
  shows "accepts msg l \<Longrightarrow> core (fst (acceptMessage U quote now msg self trig st)) =
      core (st\<lparr>asLedger := Some (insert_message U m l), asVC := map_option (Merge (clock_of m)) (asVC st)\<rparr>)"
    and "\<not> accepts msg l \<Longrightarrow> \<exists>l'. core (fst (acceptMessage U quote now msg self trig st)) = core (st\<lparr>asLedger := Some l'\<rparr>) \<and>
      lMessages l' = lMessages l"
    and "snd (acceptMessage U quote now msg self trig st) = accepts msg l"
proof -
  obtain l1 ok reason where add: "AddWithReason U msg l = (l1, ok, reason)" by (metis surj_pair)
  then have ok: "ok = accepts msg l" using AddWithReason_ok [of U msg l] by simp
  show "snd (acceptMessage U quote now msg self trig st) = accepts msg l"
    by (cases ok) (use ok in \<open>simp_all add: acceptMessage_eq assms add [unfolded assms] Let_def\<close>)
  { assume "accepts msg l"
    with add assms(2) show "core (fst (acceptMessage U quote now msg self trig st)) =
        core (st\<lparr>asLedger := Some (insert_message U m l), asVC := map_option (Merge (clock_of m)) (asVC st)\<rparr>)"
      by (simp add: acceptMessage_eq assms AddWithReason_accept Let_def core_simps) }
  { assume no: "\<not> accepts msg l"
    let ?l = "if reason \<noteq> ''duplicate_message'' then MarkRejectedReason reason l1 else l1"
    have "lMessages ?l = lMessages l" using AddWithReason_reject(1) [OF no add] by (simp add: MarkRejectedReason_def)
    moreover have "core (fst (acceptMessage U quote now msg self trig st)) = core (st\<lparr>asLedger := Some ?l\<rparr>)"
      using no add ok assms(2) by (simp add: acceptMessage_eq assms Let_def core_simps)
    ultimately show "\<exists>l'. core (fst (acceptMessage U quote now msg self trig st)) = core (st\<lparr>asLedger := Some l'\<rparr>) \<and>
      lMessages l' = lMessages l" by blast }
qed

text \<open>The two parts: the first one lets the message be ahead, the second one catches up.\<close>

lemma accept_ledger_cases:
  assumes "asLedger st = Some l" and "accept_ledger U quote m st = (st1, ok)"
  shows "ok = accepts (Some m) l" and "ok \<Longrightarrow> st1 = st\<lparr>asLedger := Some (insert_message U m l)\<rparr>"
    and "\<not> ok \<Longrightarrow> \<exists>l'. core st1 = core (st\<lparr>asLedger := Some l'\<rparr>) \<and> lMessages l' = lMessages l"
proof -
  obtain l1 added reason where add: "AddWithReason U (Some m) l = (l1, added, reason)" by (metis surj_pair)
  then have acc: "added = accepts (Some m) l" using AddWithReason_ok [of U "Some m" l] by simp
  with assms add show ok: "ok = accepts (Some m) l" by (cases added) (simp_all add: accept_ledger_def Let_def)
  show "ok \<Longrightarrow> st1 = st\<lparr>asLedger := Some (insert_message U m l)\<rparr>"
    using assms add ok by (simp add: accept_ledger_def AddWithReason_accept)
  { assume no: "\<not> ok"
    let ?l = "if reason \<noteq> ''duplicate_message'' then MarkRejectedReason reason l1 else l1"
    have "lMessages ?l = lMessages l" using AddWithReason_reject(1) [OF _ add] no ok by (simp add: MarkRejectedReason_def)
    moreover have "core st1 = core (st\<lparr>asLedger := Some ?l\<rparr>)"
      using no assms add ok acc by (auto simp: accept_ledger_def Let_def core_simps)
    ultimately show "\<exists>l'. core st1 = core (st\<lparr>asLedger := Some l'\<rparr>) \<and> lMessages l' = lMessages l" by blast }
qed

lemma accept_ledger_inv:
  assumes inv: "app_inv w A Q st" and step: "accept_ledger U quote m st = (st1, ok)"
  shows "app_inv w A (if ok then insert (clone m) Q else Q) st1"
proof -
  obtain vc l where st: "asVC st = Some vc" "asLedger st = Some l" "go_wf (clock vc)" "known w vc (A \<union> (set (lMessages l) - Q))"
    using inv by (auto simp: app_inv_def)
  note cases = accept_ledger_cases [OF st(2) step]
  show ?thesis
  proof (cases ok)
    case True
    have "known w vc (A \<union> (set (lMessages (insert_message U m l)) - insert (clone m) Q))"
      by (rule known_mono [OF st(4)]) (use inserted_messages [of U m l] in auto)
    with True cases(2) inv st show ?thesis by (simp add: app_inv_def)
  next
    case False
    then obtain l' where l': "core st1 = core (st\<lparr>asLedger := Some l'\<rparr>)" "lMessages l' = lMessages l" using cases(3) by blast
    with inv st have "app_inv w A Q (st\<lparr>asLedger := Some l'\<rparr>)" by (simp add: app_inv_def)
    with False show ?thesis using app_inv_cong [OF l'(1)] by simp
  qed
qed

lemma accept_rest_inv:
  assumes inv: "app_inv w A Q st" and wf: "clock_wf (mVectorClock m)" and Q: "Q \<subseteq> insert (clone m) Q'"
  shows "app_inv w A Q' (accept_rest U now m self trig st)"
proof -
  obtain vc l where st: "asVC st = Some vc" "asLedger st = Some l" "go_wf (clock vc)" "known w vc (A \<union> (set (lMessages l) - Q))"
    using inv by (auto simp: app_inv_def)
  have "known w (Merge (clock_of m) vc) (A \<union> (set (lMessages l) - Q'))"
    by (rule known_mono [OF known_insert [OF known_merge [OF st(4) wf]]]) (use Q in auto)
  with inv st have "app_inv w A Q' (st\<lparr>asVC := map_option (Merge (clock_of m)) (asVC st)\<rparr>)" by (simp add: app_inv_def)
  then show ?thesis by (simp add: accept_rest_def Let_def core_simps)
qed

lemma acceptMessage_inv:
  assumes inv: "app_inv w A Q st" and wf: "\<And>m. msg = Some m \<Longrightarrow> clock_wf (mVectorClock m)"
  shows "app_inv w A Q (fst (acceptMessage U quote now msg self trig st))"
proof (cases msg)
  case (Some m)
  obtain st1 ok where step: "accept_ledger U quote m st = (st1, ok)" by (metis surj_pair)
  with Some show ?thesis
    using accept_ledger_inv [OF inv step] accept_rest_inv [of w A "insert (clone m) Q" st1 m Q] wf
    by (auto simp: acceptMessage_def split: bool.split)
qed (use inv in \<open>simp add: acceptMessage_def\<close>)

lemma accept_all_inv:
  "app_inv w A Q st \<Longrightarrow> \<forall>m. Some m \<in> set msgs \<longrightarrow> clock_wf (mVectorClock m) \<Longrightarrow> app_inv w A Q (fst (accept_all U quote now msgs st))"
proof (induction msgs arbitrary: st)
  case (Cons msg msgs)
  have "app_inv w A Q (fst (acceptMessage U quote now msg False False st))" using Cons.prems by (intro acceptMessage_inv) auto
  then show ?case using Cons by (simp add: split_beta)
qed simp

lemma repair_inv:
  "app_inv w A Q st \<Longrightarrow> app_inv w A Q (repair_begin st)" "app_inv w A Q st \<Longrightarrow> app_inv w A Q (repair_end repaired st)"
  by (auto intro!: app_inv_ledger simp: repair_begin_def repair_end_def SetSyncStatus_def AddRepaired_def core_simps split: if_splits)

lemma handleControl_inv:
  assumes inv: "app_inv w A Q st" and "cKind ctrl = ''sync_response'' \<Longrightarrow> \<forall>m. Some m \<in> set (cMessages ctrl) \<longrightarrow> clock_wf (mVectorClock m)"
  shows "app_inv w A Q (handleControl U quote now ctrl st)"
proof -
  have request: "app_inv w A Q (st\<lparr>asRoom := Some room\<rparr>)" for room using inv by (simp add: app_inv_def)
  have "app_inv w A Q (fst (accept_all U quote now (cMessages ctrl) (repair_begin st)))" if "cKind ctrl = ''sync_response''"
    by (rule accept_all_inv [OF repair_inv(1) [OF inv] assms(2) [OF that]])
  with inv request show ?thesis
    by (auto simp: handleControl_def Let_def split_beta intro!: repair_inv split: option.split)
qed

lemma requestSync_inv: "app_inv w A Q st \<Longrightarrow> app_inv w A Q (requestSync uuid st)"
  by (auto simp: requestSync_def Let_def core_simps split: option.split) (auto simp: app_inv_def SetSyncStatus_def)

lemma sync_timeout_inv: "app_inv w A Q st \<Longrightarrow> app_inv w A Q (sync_timeout no st)"
  by (auto simp: sync_timeout_def core_simps split: option.split) (auto simp: app_inv_def SetSyncStatus_def)

lemma handleRejected_inv: "app_inv w A Q st \<Longrightarrow> app_inv w A Q (handleRejected reject st)"
  by (auto simp: handleRejected_def core_simps split: option.split) (auto simp: app_inv_def MarkRejected_def)

text \<open>Ticking the own clock leaves every known message strictly behind.\<close>

lemma Increment_ahead:
  assumes "counters (clock vc) p \<noteq> - 1" and "counters c \<le> counters (clock vc)"
  shows "counters c < counters (clock (Increment p vc))"
proof -
  have "counters (clock vc) < counters (clock (Increment p vc))"
    using assms(1) vc.tick_after [of "clock vc" p] by (simp add: Compare_iff)
  with assms(2) show ?thesis by (rule le_less_trans)
qed

lemma known_tick:
  assumes "known w vc A" and "w' = (w \<or> counters (clock vc) p = - 1)"
  shows "known w' (Increment p vc) A"
  using assms Increment_ahead [of vc p] unfolding known_def by (auto simp: less_le)

lemma sign_section_result:
  assumes "sign_section P sha256 uuid name content isAI mentions all identity vc st = (msg, st')" and "go_wf (clock vc)"
  shows "mVectorClock msg = Some (clock (Increment (asPeerID st) vc))" "asVC st' = Some (Increment (asPeerID st) vc)"
    "mSenderID msg = asPeerID st" "mID msg = uuid" "mSenderName msg = name" "mContent msg = content" "mPrevHash msg = asPrevHash st"
    "mIsAI msg = isAI" "mMentions msg = mentions" "mMentionAll msg = all"
    "core st' = core (st\<lparr>asVC := Some (Increment (asPeerID st) vc)\<rparr>)" "asHub st' = asHub st" "asRoom st' = asRoom st"
  using assms by (auto simp: sign_section_def Let_def NewMessage_def core_def)

lemma sign_section_inv:
  assumes inv: "app_inv w A Q st" and vc: "asVC st = Some vc"
    and sign: "sign_section P sha256 uuid name content isAI mentions all identity vc st = (msg, st')"
  shows "app_inv (w \<or> wraps st) (insert msg A) Q st'"
proof -
  obtain l where st: "asLedger st = Some l" "go_wf (clock vc)" "known w vc (A \<union> (set (lMessages l) - Q))"
    using inv vc by (auto simp: app_inv_def)
  note r = sign_section_result [OF sign st(2)]
  let ?vc = "Increment (asPeerID st) vc"
  have "known (w \<or> wraps st) ?vc (A \<union> (set (lMessages l) - Q))"
    using known_tick [OF st(3)] vc by (simp add: wraps_def)
  moreover have "known (w \<or> wraps st) ?vc {msg}"
    using st(2) by (simp add: known_def r(1) clock_of_def clock_wf_def)
  ultimately have "known (w \<or> wraps st) ?vc (insert msg A \<union> (set (lMessages l) - Q))" by (auto simp: known_def)
  with inv st vc have "app_inv (w \<or> wraps st) (insert msg A) Q (st\<lparr>asVC := Some ?vc\<rparr>)" by (simp add: app_inv_def)
  with app_inv_cong [OF r(11)] show ?thesis by blast
qed

lemma signedDemoMessage_inv:
  assumes inv: "app_inv w A Q st"
  shows "app_inv (w \<or> wraps st) A Q (fst (signedDemoMessage P uuid name content vcOverride st))"
proof -
  obtain vc l where st: "asVC st = Some vc" "asLedger st = Some l" "go_wf (clock vc)" "known w vc (A \<union> (set (lMessages l) - Q))"
    using inv by (auto simp: app_inv_def)
  have "known (w \<or> wraps st) (Increment (asPeerID st) vc) (A \<union> (set (lMessages l) - Q))"
    using known_tick [OF st(4)] st(1) by (simp add: wraps_def)
  with inv st show ?thesis by (auto simp: app_inv_def signedDemoMessage_def Let_def)
qed

text \<open>A demo message that is not tampered with -- the laboratory publishes such ones -- takes the place of the next real message
  in the hash chain: \<open>signedDemoMessage\<close> leaves \<open>prevHash\<close> alone, and a ledger that has the demo message refuses the real one.\<close>

lemma demo_message_takes_the_place:
  assumes demo: "signedDemoMessage P uuid1 name1 content1 vcOverride st = (st1, Inr a)" and vc: "asVC st = Some vc" "go_wf (clock vc)"
    and sign: "sign_section P sha256 uuid2 name2 content2 isAI mentions all identity vc2 st2 = (msg, st3)" "go_wf (clock vc2)"
    and same: "asPrevHash st2 = asPrevHash st1" "asPeerID st2 = asPeerID st1" "asPrevHash st \<noteq> []" "uuid1 \<noteq> uuid2"
  shows "\<not> accepts (Some msg) (insert_message U a L)"
proof -
  have a: "mPrevHash a = asPrevHash st" "mSenderID a = asPeerID st" "mID a = uuid1" "asPrevHash st1 = asPrevHash st" "asPeerID st1 = asPeerID st"
    using demo vc by (auto simp: signedDemoMessage_def Let_def sign_message_def NewMessage_def SignableBytes_def
        split: if_splits option.splits sum.splits dest!: map_sum_InrD)
  note r = sign_section_result [OF sign]
  have "prev_key msg = prev_key a" using a same r by (simp add: prev_key_def)
  then show ?thesis using a same r by (simp add: accepts_def insert_message_simps go_map_simps)
qed

section \<open>Every run\<close>

text \<open>What the ledger holds of the messages that are not merged yet.\<close>

definition unmerged :: "('sk, 'pk) run \<Rightarrow> Message set" where
  "unmerged r = (\<lambda>(m, _). clone m) ` set (rPending r)"

definition run_inv :: "('sk, 'pk) run \<Rightarrow> bool" where
  "run_inv r \<longleftrightarrow> app_inv (rWrapped r) (set (rSigned r)) (unmerged r) (rApp r) \<and> set (rFlight r) \<subseteq> set (rSigned r) \<and>
     (\<forall>(m, _) \<in> set (rPending r). clock_wf (mVectorClock m))"

lemma run_inv_app: "run_inv r \<Longrightarrow> (\<And>w A Q. app_inv w A Q (rApp r) \<Longrightarrow> app_inv w A Q (f (rApp r))) \<Longrightarrow> run_inv (on_app f r)"
  by (simp add: run_inv_def on_app_def unmerged_def)

lemma run_sign_inv: "run_inv r \<Longrightarrow> run_inv (run_sign W uuid name content isAI mentions all r)"
  using sign_section_inv [of "rWrapped r" "set (rSigned r)" "unmerged r" "rApp r"]
  by (auto simp: run_sign_def run_inv_def unmerged_def split: option.split prod.split)

lemma run_publish_inv:
  assumes "run_inv r"
  shows "run_inv (run_publish U i failed r)"
proof (cases "i < length (rFlight r)")
  case True
  then have "rFlight r ! i \<in> set (rSigned r)" using assms by (auto simp: run_inv_def)
  with assms have "app_inv (rWrapped r) (set (rSigned r)) (unmerged r) (fst (publish_section U failed (rFlight r ! i) (rApp r)))"
    by (intro publish_section_inv) (simp_all add: run_inv_def)
  with True assms show ?thesis
    by (auto simp: run_publish_def run_inv_def unmerged_def dest: in_set_takeD in_set_dropD)
qed (use assms in \<open>simp add: run_publish_def\<close>)

lemma run_accept_add_inv:
  assumes "run_inv r" and "clock_wf (mVectorClock m)"
  shows "run_inv (run_accept_add U quote m self trig r)"
proof -
  obtain st1 ok where step: "accept_ledger U quote m (rApp r) = (st1, ok)" by (metis surj_pair)
  from accept_ledger_inv [OF _ step] assms show ?thesis
    by (fastforce simp: run_accept_add_def step run_inv_def unmerged_def)
qed

lemma run_accept_rest_inv:
  assumes "run_inv r"
  shows "run_inv (run_accept_rest U i now r)"
proof (cases "i < length (rPending r)")
  case True
  obtain m self trig where m: "rPending r ! i = (m, self, trig)" by (metis surj_pair)
  let ?rest = "take i (rPending r) @ drop (Suc i) (rPending r)"
  have split: "set (rPending r) = insert (m, self, trig) (set ?rest)"
    using id_take_nth_drop [OF True] m by (metis list.set(2) set_append Un_insert_right)
  have "app_inv (rWrapped r) (set (rSigned r)) ((\<lambda>(m, _). clone m) ` set ?rest) (accept_rest U now m self trig (rApp r))"
    by (rule accept_rest_inv [of _ _ "unmerged r"]) (use assms split in \<open>auto simp: run_inv_def unmerged_def\<close>)
  with True m assms split show ?thesis by (auto simp: run_accept_rest_def run_inv_def unmerged_def)
qed (use assms in \<open>simp add: run_accept_rest_def\<close>)

lemma perform_app_inv: "app_op_ok op \<Longrightarrow> run_inv r \<Longrightarrow> run_inv (perform_app W quote op r)"
proof (cases op)
  case (Demo_op uuid name content vcOverride)
  then show "run_inv r \<Longrightarrow> ?thesis" using signedDemoMessage_inv by (auto simp: run_inv_def unmerged_def)
next
  case (Others room h orch b batches)
  then show "run_inv r \<Longrightarrow> ?thesis" by (auto intro!: run_inv_app simp: app_inv_def)
qed (auto intro!: run_inv_app run_sign_inv run_publish_inv run_accept_add_inv run_accept_rest_inv repair_inv handleControl_inv
    requestSync_inv sync_timeout_inv handleRejected_inv simp: core_simps)

interpretation app: invariant_machine "perform_app W quote" app_op_ok run_inv for W quote
  by unfold_locales (rule perform_app_inv)

text \<open>A room that was just joined.\<close>

definition run_start :: "('sk, 'pk) appState \<Rightarrow> ('sk, 'pk) run" where
  "run_start st = \<lparr>rApp = st, rFlight = [], rPending = [], rSigned = [], rWrapped = False\<rparr>"

lemma init_joined:
  assumes "init W env st0 = (st, None)" and "\<not> asReady st0"
  shows "asReady st" "asIdentity st \<noteq> None" "asRoom st \<noteq> None" "asVC st = Some VectorClock_New"
    "asLedger st = Some (NewLedger DefaultMaxMessages)" "asBatcher st = Some NewBatcher" "asOrch st \<noteq> None" "asNode st \<noteq> None"
  using assms by (auto simp: init_def Let_def split: sum.splits option.splits)

lemma init_inv: "init W env st0 = (st, None) \<Longrightarrow> \<not> asReady st0 \<Longrightarrow> run_inv (run_start st)"
  using init_joined [of W env st0 st]
  by (auto simp: run_inv_def run_start_def unmerged_def app_inv_def known_def NewLedger_def VectorClock_New_def)

section \<open>Properties\<close>

lemma refused_after:
  assumes "accepts (Some m2) L" and "mSenderID m1 = mSenderID m2" and "own_clock m1 \<le> own_clock m2" and "0 < own_clock m1"
    and "mID m1 \<notin> lIds (insert_message U m2 L)" and "mID m1 \<noteq> []"
  shows "AddWithReason U' (Some m1) (insert_message U m2 L) =
    ((insert_message U m2 L)\<lparr>lClockBack := lClockBack L + 1, lLastReject := ''clock_regression''\<rparr>, False, ''clock_regression'')"
proof -
  let ?L = "insert_message U m2 L"
  have pos: "0 < own_clock m2" using assms(3,4) by (rule less_le_trans [rotated])
  have "highest_clock L (mSenderID m2) < own_clock m2" using accepted_clock [OF assms(1) pos] .
  then have high: "highest_clock ?L (mSenderID m2) = own_clock m2" "go_has (lSenderClock ?L) (mSenderID m2)"
    by (simp_all add: insert_message_simps go_map_simps)
  have "lClockBack ?L = lClockBack L" by (simp add: insert_message_def Let_def)
  with assms high show ?thesis by (simp add: AddWithReason_def Let_def)
qed

subsection \<open>Samples for the witnesses\<close>

definition sample_net :: "string p2p_net" where
  "sample_net = \<lparr>net_New = (\<lambda>k addr. Inr (k, [addr])), net_StartMdns = None, net_NewMultiaddr = Inr, net_AddrInfo = Inr,
     net_Connect = (\<lambda>_. None), net_Close = (\<lambda>_. None)\<rparr>"

definition sample_setting :: "(string, string) setting" where
  "sample_setting = \<lparr>s_P = toy, s_N = sample_net, s_U = ascii_tables, s_sha256 = take 8,
     s_os = \<lparr>os_UserHomeDir = Inr ''/home/k'', os_Join = concat, os_MkdirAll = (\<lambda>_. None)\<rparr>, s_disk = (\<lambda>_. None),
     s_joinErr = None, s_p2pPort = 0\<rparr>"

definition sample_state :: "(string, string) appState" where
  "sample_state = fst (init sample_setting wsEnvelope_zero appState_start)"

lemma sample_init: "init sample_setting wsEnvelope_zero appState_start = (sample_state, None)"
  and sample_peer: "asPeerID sample_state = ''k''" "asIdentity sample_state = Some (toy_id ''k'')" "asHub sample_state = \<lparr>hubClients = []\<rparr>"
  by (simp_all add: sample_state_def init_def Let_def GenerateIdentity_def sample_setting_def toy_def NewNode_def sample_net_def
      appState_start_def toy_id_def)

lemma sample_joined:
  "asReady sample_state" "asVC sample_state = Some VectorClock_New" "asLedger sample_state = Some (NewLedger DefaultMaxMessages)"
  "asRoom sample_state \<noteq> None"
  using init_joined [OF sample_init] by (simp_all add: appState_start_def)

text \<open>Messages signed in the toy library.\<close>

lemma toy_signed:
  assumes "mID m \<noteq> []" "mSenderID m \<noteq> []" "mSenderName m \<noteq> []" "length (mContent m) \<le> 8192" "mVectorClock m \<noteq> None"
    "own_clock m \<noteq> 0"
  shows "signed_by_sender toy (m\<lparr>mSignature := hex_EncodeToString (mSenderID m @ '':'' @ projr (SignableBytes m))\<rparr>)"
proof -
  let ?m = "m\<lparr>mSignature := hex_EncodeToString (mSenderID m @ '':'' @ projr (SignableBytes m))\<rparr>"
  have "SignableBytes ?m = SignableBytes m" by (simp add: SignableBytes_def signable_json_def)
  then have "SignableBytes ?m = Inr (projr (SignableBytes m))" by (simp add: SignableBytes_def)
  moreover have "VerifySignature toy k d (hex_EncodeToString (k @ '':'' @ d)) = Inr True" "p_Decode toy k = Inr k" for k d
    unfolding VerifySignature_def hex_Decode_Encode by (simp_all add: toy_def)
  ultimately show ?thesis using assms by (simp add: signed_by_sender_def clock_of_def)
qed

definition remote_message :: Message where
  "remote_message = sample_message\<lparr>mVectorClock := Some [(''alice'', 1), (''k'', - 1)]\<rparr>"

lemma sample_accepts:
  "accepts (Some sample_message) (NewLedger n)" "accepts (Some remote_message) (NewLedger n)"
  "clock_wf (mVectorClock sample_message)" "clock_wf (mVectorClock remote_message)"
  by (simp_all add: accepts_def NewLedger_def sample_message_def remote_message_def clock_wf_def go_wf_def)

text \<open>C3. A room was joined and anything happened in it since: messages received and repaired, other calls of \<open>signAndPublish\<close> and
  of \<open>acceptMessage\<close> under way, attacks launched.  Then the next message \<open>signAndPublish\<close> signs is causally after every message
  in the ledger whose \<open>acceptMessage\<close> has merged its clock -- the ledger takes a message before that, so those in between
  are excepted -- and after every message \<open>signAndPublish\<close> signed in the room before, published or not, as long as the own
  counter never wrapped around.  The messages the attack laboratory signs with clocks of its choice are not counted as signed.\<close>

theorem own_messages_follow_what_was_seen:
  assumes "init W env st0 = (st, None)" and "\<not> asReady st0" and "list_all app_op_ok ops"
    and "r = fold (perform_app W quote) ops (run_start st)"
    and "r' = perform_app W quote (Sign_op uuid name content isAI mentions mentionAll) r" and "\<not> rWrapped r'"
  shows "\<exists>msg l. rSigned r' = rSigned r @ [msg] \<and> mSenderID msg = asPeerID (rApp r) \<and> asLedger (rApp r) = Some l \<and>
    (\<forall>m \<in> (set (lMessages l) - unmerged r) \<union> set (rSigned r). Compare (clock_of msg) (clock_of m) = After)"
proof -
  have "run_inv r" unfolding assms(4) by (rule app.run_inv [OF assms(3) init_inv [OF assms(1,2)]])
  then obtain room vc identity l where st: "asReady (rApp r)" "asRoom (rApp r) = Some room" "asVC (rApp r) = Some vc"
      "asIdentity (rApp r) = Some identity" "asLedger (rApp r) = Some l" "go_wf (clock vc)"
      "known (rWrapped r) vc (set (rSigned r) \<union> (set (lMessages l) - unmerged r))"
    by (auto simp: run_inv_def app_inv_def)
  obtain msg st' where sign: "sign_section (s_P W) (s_sha256 W) uuid name content isAI mentions mentionAll identity vc (rApp r) = (msg, st')"
    by (metis surj_pair)
  have r': "rSigned r' = rSigned r @ [msg]" "rWrapped r' = (rWrapped r \<or> wraps (rApp r))"
    by (simp_all add: assms(5) run_sign_def st sign)
  with assms(6) st(3) have nowrap: "\<not> rWrapped r" "counters (clock vc) (asPeerID (rApp r)) \<noteq> - 1" by (auto simp: wraps_def)
  note signed = sign_section_result [OF sign st(6)]
  have "Compare (clock_of msg) (clock_of m) = After" if "m \<in> (set (lMessages l) - unmerged r) \<union> set (rSigned r)" for m
    using Increment_ahead [OF nowrap(2)] st(7) nowrap(1) that
    by (auto simp: Compare_iff known_def clock_of_def [of msg] signed(1))
  with r' st(5) signed(3) show ?thesis by auto
qed

text \<open>The witness accepts a message in its two steps and then signs.\<close>

lemma sample_accept:
  defines "r \<equiv> fold (perform_app sample_setting id) [Accept_add sample_message False False, Accept_rest 0 0] (run_start sample_state)"
  shows "core (rApp r) = core (sample_state\<lparr>asLedger := Some (insert_message ascii_tables sample_message (NewLedger DefaultMaxMessages)),
      asVC := Some (Merge (clock_of sample_message) VectorClock_New)\<rparr>)"
    and "rPending r = []" and "rSigned r = []" and "\<not> rWrapped r"
proof -
  obtain st1 ok where step: "accept_ledger ascii_tables id sample_message sample_state = (st1, ok)" by (metis surj_pair)
  note st1 = accept_ledger_cases(1,2) [OF sample_joined(3) step]
  have ok: "ok" using st1(1) sample_accepts(1) by simp
  have r: "r = \<lparr>rApp = accept_rest ascii_tables 0 sample_message False False st1, rFlight = [], rPending = [], rSigned = [], rWrapped = False\<rparr>"
    by (simp add: r_def run_start_def run_accept_add_def run_accept_rest_def step ok sample_setting_def)
  have "core (rApp r) = core (st1\<lparr>asVC := map_option (Merge (clock_of sample_message)) (asVC st1)\<rparr>)"
    by (simp add: r accept_rest_def Let_def core_simps)
  then show "core (rApp r) = core (sample_state\<lparr>asLedger := Some (insert_message ascii_tables sample_message (NewLedger DefaultMaxMessages)),
      asVC := Some (Merge (clock_of sample_message) VectorClock_New)\<rparr>)"
    using st1(2) [OF ok] sample_joined(2) by (simp add: core_fields)
  show "rPending r = []" "rSigned r = []" "\<not> rWrapped r" by (simp_all add: r)
qed

theorem own_messages_follow_what_was_seen_witness:
  "\<exists>msg. rSigned (fold (perform_app sample_setting id) [Accept_add sample_message False False, Accept_rest 0 0,
      Sign_op ''m2'' ''Kay'' ''hello'' False [] False] (run_start sample_state)) = [msg] \<and>
    Compare (clock_of msg) (clock_of sample_message) = After"
proof -
  let ?ops = "[Accept_add sample_message False False, Accept_rest 0 0]"
  let ?r = "fold (perform_app sample_setting id) ?ops (run_start sample_state)"
  let ?sign = "perform_app sample_setting id (Sign_op ''m2'' ''Kay'' ''hello'' False [] False)"
  have ops: "list_all app_op_ok ?ops" by (simp add: sample_accepts)
  have "wraps (rApp ?r) = (counters (clock (Merge (clock_of sample_message) VectorClock_New)) ''k'' = - 1)"
    using sample_accept(1) sample_peer(1) by (auto simp: wraps_def core_fields simp del: fold_simps)
  also have "\<dots> = False"
    by (simp add: counters_Merge go_wf_clock_of sample_accepts) (simp add: counters_def sample_message_def clock_of_def go_get_def VectorClock_New_def)
  finally have "\<not> rWrapped (?sign ?r)"
    using sample_accept(4) by (simp add: run_sign_def del: fold_simps split: option.split prod.split)
  from own_messages_follow_what_was_seen [OF sample_init _ ops refl refl this] obtain msg l where
    "rSigned (?sign ?r) = rSigned ?r @ [msg]" "asLedger (rApp ?r) = Some l"
    "\<forall>m \<in> (set (lMessages l) - unmerged ?r) \<union> set (rSigned ?r). Compare (clock_of msg) (clock_of m) = After"
    by (auto simp: appState_start_def simp del: fold_simps)
  moreover have "l = insert_message ascii_tables sample_message (NewLedger DefaultMaxMessages)"
    using sample_accept(1) calculation(2) by (simp add: core_fields del: fold_simps)
  then have "clone sample_message \<in> set (lMessages l)"
    by (simp add: insert_message_simps overflow_def NewLedger_def DefaultMaxMessages_def all_messages_def)
  moreover have "unmerged ?r = {}" "rSigned ?r = []" using sample_accept(2,3) by (simp_all add: unmerged_def del: fold_simps)
  moreover have "fold (perform_app sample_setting id) (?ops @ [Sign_op ''m2'' ''Kay'' ''hello'' False [] False]) (run_start sample_state) = ?sign ?r"
    by (simp only: fold_append fold_simps comp_def id_def)
  ultimately show ?thesis using clock_of_clone [OF sample_accepts(3)] by fastforce
qed

text \<open>C19. One message can silence a peer.  Nothing binds the entries of other peers in a message's clock, and \<open>acceptMessage\<close>
  merges all of them; after accepting a message whose clock has the largest value for the peer itself, its own counter
  wraps around: its next message has counter 0 and every validator refuses it, and the one after that has counter 1 and
  every ledger that knows a message of the peer refuses it as going back in time.\<close>

theorem a_clock_can_be_poisoned:
  assumes "asVC st = Some vc" and "go_wf (clock vc)" and "asLedger st = Some l"
    and "accepts (Some m) l" and "clock_wf (mVectorClock m)" and "go_get 0 (clock_of m) (asPeerID st) = - 1"
    and "st1 = fst (acceptMessage U quote now (Some m) self trig st)" and "asVC st1 = Some vc1"
    and "sign_section P sha256 uuid1 name1 content1 isAI1 mentions1 all1 identity vc1 st1 = (msg1, st2)" and "asVC st2 = Some vc2"
    and "sign_section P sha256 uuid2 name2 content2 isAI2 mentions2 all2 identity vc2 st2 = (msg2, st3)" and "uuid2 \<noteq> []"
  shows "own_clock msg1 = 0 \<and> (\<forall>fwd trust. snd (ValidateSignedMessage P (Some msg1) fwd trust) \<noteq> None) \<and>
    own_clock msg2 = 1 \<and> (\<forall>U' L. 1 \<le> highest_clock L (asPeerID st) \<longrightarrow> uuid2 \<notin> lIds L \<longrightarrow>
      snd (AddWithReason U' (Some msg2) L) = (False, ''clock_regression''))"
proof -
  have core1: "core st1 = core (st\<lparr>asLedger := Some (insert_message U m l), asVC := map_option (Merge (clock_of m)) (asVC st)\<rparr>)"
    unfolding assms(7) by (rule acceptMessage_cases(1) [OF assms(3) refl assms(4)])
  with assms(1,8) have vc1: "vc1 = Merge (clock_of m) vc" and peer1: "asPeerID st1 = asPeerID st" by (auto simp: core_fields)
  have "counters (clock vc1) (asPeerID st) = - 1"
    using assms(5,6) by (simp add: vc1 counters_Merge go_wf_clock_of) (simp add: counters_def max_word_max max_def)
  moreover have wf1: "go_wf (clock vc1)" using assms(2) by (simp add: vc1)
  note sign1 = sign_section_result [OF assms(9) wf1]
  have peer2: "asPeerID st2 = asPeerID st" using sign1(11) peer1 by (auto simp: core_fields)
  have vc2: "vc2 = Increment (asPeerID st) vc1" using sign1(2) assms(10) peer1 by simp
  ultimately have own1: "counters (clock vc2) (asPeerID st) = 0" by (simp add: counters_Increment)
  then have zero: "own_clock msg1 = 0" using sign1(1,3) vc2 peer1 by (simp add: clock_of_def counters_def)
  have "\<not> signed_by_sender P msg1" using zero by (simp add: signed_by_sender_def)
  then have refused: "snd (ValidateSignedMessage P (Some msg1) fwd trust) \<noteq> None" for fwd trust by (simp add: Validate_accept)
  have wf2: "go_wf (clock vc2)" using wf1 by (simp add: vc2)
  note sign2 = sign_section_result [OF assms(11) wf2]
  have "counters (clock (Increment (asPeerID st) vc2)) (asPeerID st) = 1" using own1 by (simp add: counters_Increment)
  then have one: "own_clock msg2 = 1" using sign2(1,3) peer2 by (simp add: clock_of_def counters_def)
  have "go_has (lSenderClock L) s" if "1 \<le> highest_clock L s" for L s
    using that by (cases "go_has (lSenderClock L) s") (auto simp: go_has_def go_get_def)
  with one refused zero sign2(3,4) peer2 assms(12) show ?thesis by (simp add: AddWithReason_def Let_def)
qed

theorem a_clock_can_be_poisoned_witness:
  "\<exists>st1 msg1 st2 vc1. signed_by_sender toy (remote_message\<lparr>mSignature := hex_EncodeToString (mSenderID remote_message @ '':'' @ projr (SignableBytes remote_message))\<rparr>) \<and>
    st1 = fst (acceptMessage ascii_tables id 0 (Some remote_message) False False sample_state) \<and> asVC st1 = Some vc1 \<and>
    sign_section toy (take 8) ''m2'' ''Kay'' ''hello'' False [] False (toy_id ''k'') vc1 st1 = (msg1, st2) \<and>
    snd (ValidateSignedMessage toy (Some msg1) ''alice'' None) \<noteq> None"
proof -
  let ?st1 = "fst (acceptMessage ascii_tables id 0 (Some remote_message) False False sample_state)"
  let ?vc1 = "Merge (clock_of remote_message) VectorClock_New"
  have vc1: "asVC ?st1 = Some ?vc1"
    using acceptMessage_cases(1) [OF sample_joined(3) refl sample_accepts(2), of ascii_tables id 0 False False] sample_joined(2)
    by (simp add: core_fields)
  obtain msg1 st2 where s1: "sign_section toy (take 8) ''m2'' ''Kay'' ''hello'' False [] False (toy_id ''k'') ?vc1 ?st1 = (msg1, st2)"
    by (metis surj_pair)
  have wf1: "go_wf (clock ?vc1)" by simp
  obtain msg2 st3 where s2: "sign_section toy (take 8) ''m3'' ''Kay'' ''hello'' False [] False (toy_id ''k'')
      (Increment (asPeerID ?st1) ?vc1) st2 = (msg2, st3)" by (metis surj_pair)
  have max: "go_get 0 (clock_of remote_message) (asPeerID sample_state) = - 1"
    by (simp add: sample_peer remote_message_def clock_of_def go_get_def)
  have "snd (ValidateSignedMessage toy (Some msg1) ''alice'' None) \<noteq> None"
    using a_clock_can_be_poisoned [OF sample_joined(2) New_wf sample_joined(3) sample_accepts(2,4) max refl vc1 s1
        sign_section_result(2) [OF s1 wf1] s2] by simp
  moreover have "signed_by_sender toy (remote_message\<lparr>mSignature := hex_EncodeToString (mSenderID remote_message @ '':'' @ projr (SignableBytes remote_message))\<rparr>)"
    by (rule toy_signed) (simp_all add: remote_message_def sample_message_def clock_of_def go_get_def)
  ultimately show ?thesis using vc1 s1 by blast
qed

text \<open>C18. A message that is overtaken is lost.  Two calls of \<open>signAndPublish\<close> overlap -- a user's message and a reply of the
  agent, say -- and the second to be signed is published first.  Then the older one is shown on the own page and published,
  but the own ledger refuses it as going back in time, and so does every ledger that accepted the newer one before.\<close>

theorem overtaken_message_is_lost:
  assumes "asRoom st = Some room" and "asVC st = Some vc" and "go_wf (clock vc)" and "asLedger st = Some l"
    and "unat (counters (clock vc) (asPeerID st)) + 2 < 2 ^ 64"
    and "sign_section P sha256 uuid1 name1 content1 isAI1 mentions1 all1 identity vc st = (m1, st1)" and "asVC st1 = Some vc1"
    and "sign_section P sha256 uuid2 name2 content2 isAI2 mentions2 all2 identity vc1 st1 = (m2, st2)"
    and "uuid1 \<noteq> []" and "uuid1 \<noteq> uuid2" and "uuid1 \<notin> lIds l" and "accepts (Some m2) l"
    and "publish_section U False m2 st2 = (st3, r2)" and "publish_section U False m1 st3 = (st4, r1)"
  shows "r1 = Some m1 \<and>
    (\<forall>(c, frames) \<in> set (hubClients (asHub st4)). wsEnvelope_Marshal (envelopeFromMessage m1 (\<not> isAI1)) \<in> set frames) \<and>
    (\<exists>room4. asRoom st4 = Some room4 \<and> crPublished room4 = crPublished room @ [Message_Marshal m2, Message_Marshal m1]) \<and>
    (\<exists>l4. asLedger st4 = Some l4 \<and> uuid1 \<notin> lIds l4 \<and> lClockBack l4 = lClockBack l + 1) \<and>
    (\<forall>U' L. accepts (Some m2) L \<longrightarrow> \<not> fst (snd (AddWithReason U' (Some m1) (fst (AddWithReason U' (Some m2) L)))))"
proof -
  let ?p = "asPeerID st"
  note sign1 = sign_section_result [OF assms(6,3)]
  have vc1: "vc1 = Increment ?p vc" "go_wf (clock vc1)" "asPeerID st1 = ?p"
    using sign1(2,11) assms(3,7) by (auto simp: core_fields)
  note sign2 = sign_section_result [OF assms(8) vc1(2)]
  define k where "k = counters (clock vc) ?p"
  have own: "own_clock m1 = k + 1" "own_clock m2 = k + 1 + 1"
    using sign1(1,3) sign2(1,3) vc1 counters_Increment [of ?p vc] counters_Increment [of ?p vc1]
    by (simp_all add: clock_of_def k_def counters_def fun_eq_iff)
  have "unat (k + 1) = unat k + 1" "unat (k + 1 + 1) = unat k + 2"
    using assms(5) by (simp_all add: k_def unat_word_ariths)
  then have less: "own_clock m1 < own_clock m2" "0 < own_clock m1"
    by (simp_all add: own word_less_nat_alt)
  have ids: "mID m1 = uuid1" "mID m2 = uuid2" "mSenderID m1 = mSenderID m2" "mID m1 \<noteq> []"
    using sign1(3,4) sign2(3,4) vc1(3) assms(9) by simp_all
  have fresh: "mID m1 \<notin> lIds (insert_message U m2 L)" if "mID m1 \<notin> lIds L" for U L
    using that assms(10) by (simp add: insert_message_simps ids)
  note late = refused_after [OF _ ids(3) less_imp_le [OF less(1)] less(2) _ ids(4)]
  have core2: "core st2 = core (st\<lparr>asVC := Some (Increment ?p vc1)\<rparr>)"
    using sign1(11) sign2(11) vc1(3) by (simp add: core_fields)
  have led2: "asLedger st2 = Some l" "asRoom st2 = Some room" using core2 assms(1,4) sign1(13) sign2(13) by (auto simp: core_fields)
  let ?l4 = "(insert_message U m2 l)\<lparr>lClockBack := lClockBack l + 1, lLastReject := ''clock_regression''\<rparr>"
  have led3: "asLedger st3 = Some (insert_message U m2 l)" "asRoom st3 = Some (Publish m2 room)"
    using assms(12,13) led2
    by (auto simp: publish_section_def Let_def broadcast_def broadcastDiagnostics_def on_ledger_def on_room_def Add_def AddWithReason_accept)
  have "AddWithReason U (Some m1) (insert_message U m2 l) = (?l4, False, ''clock_regression'')"
    using late [OF assms(12) fresh] assms(11) ids(1) by simp
  then have led4: "asLedger st4 = Some ?l4" "asRoom st4 = Some (Publish m1 (Publish m2 room))" "r1 = Some m1"
    using assms(14) led3
    by (auto simp: publish_section_def Let_def broadcast_def broadcastDiagnostics_def on_ledger_def on_room_def Add_def)
  have "\<forall>(c, frames) \<in> set (hubClients (asHub st4)). wsEnvelope_Marshal (envelopeFromMessage m1 (\<not> isAI1)) \<in> set frames"
    using assms(14) led3 sign1(8)
    by (auto simp: publish_section_def Let_def broadcast_def broadcastDiagnostics_def on_ledger_def on_room_def hub_broadcast_def
        safeConn_write_def split: prod.splits)
  moreover have "\<not> fst (snd (AddWithReason U' (Some m1) (fst (AddWithReason U' (Some m2) L))))" if acc: "accepts (Some m2) L" for U' L
  proof (cases "mID m1 \<in> lIds (insert_message U' m2 L)")
    case True
    then show ?thesis using acc by (simp add: AddWithReason_accept) (simp add: AddWithReason_def ids(4))
  next
    case False
    then show ?thesis using acc late [OF acc False] by (simp add: AddWithReason_accept)
  qed
  moreover have "uuid1 \<notin> lIds ?l4" using fresh [of l U] assms(11) ids(1) by simp
  ultimately show ?thesis using led4 by (simp add: Publish_def)
qed

theorem overtaken_message_is_lost_witness:
  "\<exists>m1 m2 st1 st2 st3 st4. fst (snd (AddWithReason ascii_tables (Some m2) (NewLedger 10))) \<and>
    sign_section toy (take 8) ''m1'' ''Kay'' ''first'' False [] False (toy_id ''k'') VectorClock_New sample_state = (m1, st1) \<and>
    sign_section toy (take 8) ''m2'' ''AI'' ''second'' True [] False (toy_id ''k'') (Increment ''k'' VectorClock_New) st1 = (m2, st2) \<and>
    publish_section ascii_tables False m2 st2 = (st3, Some m2) \<and> publish_section ascii_tables False m1 st3 = (st4, Some m1) \<and>
    (\<exists>l4. asLedger st4 = Some l4 \<and> ''m1'' \<notin> lIds l4) \<and>
    \<not> fst (snd (AddWithReason ascii_tables (Some m1) (fst (AddWithReason ascii_tables (Some m2) (NewLedger 10)))))"
proof -
  obtain m1 st1 where s1: "sign_section toy (take 8) ''m1'' ''Kay'' ''first'' False [] False (toy_id ''k'') VectorClock_New sample_state = (m1, st1)"
    by (metis surj_pair)
  note r1 = sign_section_result [OF s1 New_wf]
  obtain m2 st2 where s2: "sign_section toy (take 8) ''m2'' ''AI'' ''second'' True [] False (toy_id ''k'') (Increment ''k'' VectorClock_New) st1 = (m2, st2)"
    by (metis surj_pair)
  have "go_wf (clock (Increment ''k'' VectorClock_New))" by simp
  note r2 = sign_section_result [OF s2 this]
  obtain st3 where p2: "publish_section ascii_tables False m2 st2 = (st3, Some m2)" by (simp add: publish_section_def Let_def)
  obtain st4 where p1: "publish_section ascii_tables False m1 st3 = (st4, Some m1)" by (simp add: publish_section_def Let_def)
  have acc: "accepts (Some m2) (NewLedger n)" for n using r2(4) by (simp add: accepts_def NewLedger_def)
  obtain room where room: "asRoom sample_state = Some room" using sample_joined(4) by auto
  have vc: "asVC st1 = Some (Increment ''k'' VectorClock_New)" using r1(2) by (simp add: sample_peer)
  have small: "unat (counters (clock VectorClock_New) (asPeerID sample_state)) + 2 < 2 ^ 64"
    by (simp add: VectorClock_New_def)
  have free: "''m1'' \<notin> lIds (NewLedger DefaultMaxMessages)" by (simp add: NewLedger_def)
  note lost = overtaken_message_is_lost [OF room sample_joined(2) New_wf sample_joined(3) small s1 vc s2 _ _ free acc p2 p1]
  have "\<not> fst (snd (AddWithReason ascii_tables (Some m1) (fst (AddWithReason ascii_tables (Some m2) (NewLedger 10)))))"
    "\<exists>l4. asLedger st4 = Some l4 \<and> ''m1'' \<notin> lIds l4" using lost acc by auto
  moreover have "fst (snd (AddWithReason ascii_tables (Some m2) (NewLedger 10)))" by (simp add: AddWithReason_ok acc)
  ultimately show ?thesis using s1 s2 p1 p2 by blast
qed

end
