(* ===== verification/Attack_Defence.thy ===== *)
theory Attack_Defence
  imports Causality
begin

text \<open>
  What the attacks of the laboratory meet at another peer: the packets of \<open>Attack_Lab\<close> through the validator of
  \<open>Validate\<close>, and the ledger for the attacks that pass it.
\<close>

section \<open>Refusals\<close>

lemma last_reason: "p \<noteq> [] \<Longrightarrow> r \<noteq> [] \<Longrightarrow> tLastReason (RecordReject p r t) = shortPeerID p @ '': '' @ r"
  by (simp add: RecordReject_def Let_def)

lemma chat_rejected:
  assumes "message_wf m" and "length (Message_Marshal m) \<le> 65536" and "src \<noteq> []"
    and "AllowRate (p_String P src) now now t = (t1, True)" and "verdict P (Some (as_received m)) (Some t1) = Some (reason, err)"
  shows "validateEnvelopeData P J (Message_Marshal m) src now (Some t) = (Some (RecordReject (p_String P src) reason t1), Some err)"
  using assms
  by (simp add: validateEnvelopeData_def Let_def Peek_message [OF assms(1)] Message_Unmarshal_Marshal [OF assms(1)] Message_Marshal_nonempty
      maxAppPayloadBytes_def rate_check_def peerIDString_def Validate_verdict recordValidationReject_forwarder)

lemma control_mismatch:
  assumes "control_ok c" and "cKind c = ''sync_request'' \<or> cKind c = ''sync_response''" and "cRequestID c \<noteq> []"
    and "cFromPeerID c \<noteq> []" and "cFromPeerID c \<noteq> p_String P src" and "src \<noteq> []" and "length (json_Render (control_json c)) \<le> 65536"
  shows "\<exists>err. validateEnvelopeData P J (json_Render (control_json c)) src now (Some t) =
    (Some (RecordReject (p_String P src) ''from_peer_mismatch'' t), Some err)"
proof -
  have "json_Render (control_json c) \<noteq> []" by (simp add: control_json_def)
  with assms show ?thesis
    by (auto simp: validateEnvelopeData_def Let_def Peek_control [OF assms(1)] Control_roundtrip [OF assms(1)] maxAppPayloadBytes_def
        check_control_def peerIDString_def recordValidationReject_forwarder)
qed

lemma malformed_rejected:
  assumes "src \<noteq> []"
  shows "\<exists>err. validateEnvelopeData P J ''{not valid json'' src now (Some t) = (Some (RecordReject (p_String P src) ''invalid_json'' t), Some err)"
proof -
  have "isl (json_Parse ''{not valid json'')" by code_simp
  then obtain f where "Peek_Unmarshal ''{not valid json'' = ([], Some (SyntaxError f))"
    by (auto simp: Peek_Unmarshal_def Unmarshal_def isl_def)
  with assms show ?thesis
    by (simp add: validateEnvelopeData_def Let_def maxAppPayloadBytes_def recordValidationReject_forwarder)
qed

section \<open>The material of the attacks\<close>

text \<open>A joined room whose key pair works and whose own counter is not exhausted.\<close>

definition lab_ready :: "('sk, 'pk) libp2p \<Rightarrow> ('sk, 'pk) Identity \<Rightarrow> ('sk, 'pk) appState \<Rightarrow> bool" where
  "lab_ready P identity st =
     (asReady st \<and> asNode st \<noteq> None \<and> asRoom st \<noteq> None \<and> asIdentity st = Some identity \<and> key_pair P identity \<and>
      asPeerID st = p_String P (PeerID identity) \<and> asPeerID st \<noteq> [] \<and> asPeerID st \<noteq> ''other-peer'' \<and>
      valid_utf8 (asPeerID st) \<and> valid_utf8 (asPrevHash st) \<and>
      (\<exists>vc. asVC st = Some vc \<and> go_wf (clock vc) \<and> clock_utf8 (Some (clock vc)) \<and> counters (clock vc) (asPeerID st) \<noteq> - 1))"

lemma lab_readyD:
  assumes "lab_ready P identity st"
  shows "asReady st" "asNode st \<noteq> None" "asRoom st \<noteq> None" "asIdentity st = Some identity" "key_pair P identity"
    "asPeerID st \<noteq> []" "asPeerID st \<noteq> ''other-peer''" "valid_utf8 (asPeerID st)" "valid_utf8 (asPrevHash st)"
    "p_Decode P (asPeerID st) = Inr (PeerID identity)"
  using assms by (auto simp: lab_ready_def key_pair_def)

text \<open>Among the byte strings tried, a signature verifies on nothing but what was signed.\<close>

definition unforgeable :: "('sk, 'pk) libp2p \<Rightarrow> ('sk, 'pk) Identity \<Rightarrow> string set \<Rightarrow> bool" where
  "unforgeable P identity tried =
     (\<forall>d \<in> tried. \<forall>d' \<in> tried. \<forall>s. Sign P identity d = Inr s \<longrightarrow> d' \<noteq> d \<longrightarrow> VerifySignature P (PeerID identity) d' s = Inr False)"

text \<open>What \<open>tamper_content\<close> tries: the bytes it signs and the bytes it sends.\<close>

definition tampered_bytes :: "('sk, 'pk) libp2p \<Rightarrow> string \<Rightarrow> ('sk, 'pk) appState \<Rightarrow> string set" where
  "tampered_bytes P uuid st =
     (case snd (signedDemoMessage P uuid ''TamperDemo'' ''legitimate text'' None st) of
        Inl _ \<Rightarrow> {}
      | Inr msg \<Rightarrow> {projr (SignableBytes msg), projr (SignableBytes (msg\<lparr>mContent := ''FORGED: content changed after signing''\<rparr>))})"

lemma hex_utf8: "valid_utf8 (hex_EncodeToString s)"
proof -
  have "byte (hex_digit n) < 128" if "n < 16" for n
    using that by (simp add: hex_digit_def)
  then have "is_ascii (hex_byte c)" for c
    by (simp add: hex_byte_def div_less_iff_less_mult)
  then have "is_ascii (hex_EncodeToString s)"
    by (auto simp: hex_EncodeToString_def is_ascii_def list_all_iff)
  then show ?thesis by simp
qed

lemma Sign_utf8: "Sign P identity d = Inr s \<Longrightarrow> valid_utf8 s"
  using hex_utf8 by (auto simp: Sign_def split: sum.splits)

lemma signedDemoMessage_made:
  assumes lab: "lab_ready P identity st" and utf8: "valid_utf8 uuid" "valid_utf8 name" "valid_utf8 content"
    and over: "vcOverride = None \<or> (\<exists>c. vcOverride = Some c \<and> c \<noteq> [] \<and> go_wf c \<and> clock_utf8 (Some c))"
  obtains msg st' d where "signedDemoMessage P uuid name content vcOverride st = (st', Inr msg)" "message_wf msg"
    "SignableBytes msg = Inr d" "Sign P identity d = Inr (mSignature msg)"
    "mID msg = uuid" "mSenderID msg = asPeerID st" "mSenderName msg = name" "mContent msg = content"
    "asNode st' = asNode st" "mVectorClock msg \<noteq> None"
    "vcOverride = None \<Longrightarrow> own_clock msg \<noteq> 0" "\<And>c. vcOverride = Some c \<Longrightarrow> clock_of msg = c"
proof -
  obtain vc where vc: "asVC st = Some vc" "go_wf (clock vc)" "clock_utf8 (Some (clock vc))" "counters (clock vc) (asPeerID st) \<noteq> - 1"
    using lab by (auto simp: lab_ready_def)
  let ?vc = "Increment (asPeerID st) vc"
  define snap where "snap = (case vcOverride of None \<Rightarrow> clock ?vc | Some c \<Rightarrow> c)"
  have "clock_utf8 (Some (clock ?vc))"
    using vc(3) lab_readyD(8) [OF lab] by (simp add: clock_utf8_def Increment_def set_go_put_keys)
  then have snap: "go_wf snap" "clock_utf8 (Some snap)"
    using vc(2) over by (auto simp: snap_def)
  have copy: "(case vcOverride of None \<Rightarrow> Snapshot ?vc | Some m \<Rightarrow> (case cloneVC m of None \<Rightarrow> [] | Some c \<Rightarrow> c)) = snap"
    using vc(2) over by (auto simp: snap_def cloneVC_def split: option.split)
  define msg0 where "msg0 = NewMessage uuid (asPeerID st) name content [] False snap (asPrevHash st) False"
  obtain d where d: "SignableBytes msg0 = Inr d" by (simp add: SignableBytes_def)
  obtain sig where sig: "Sign P identity d = Inr sig" using lab Sign_Verify by (metis lab_ready_def)
  let ?msg = "msg0\<lparr>mSignature := sig\<rparr>"
  have bytes: "SignableBytes ?msg = Inr d" using d by (simp add: SignableBytes_def signable_json_def)
  have fields: "mID ?msg = uuid" "mSenderID ?msg = asPeerID st" "mSenderName ?msg = name" "mContent ?msg = content"
    "mVectorClock ?msg = Some snap" "mPrevHash ?msg = asPrevHash st" "mMentions ?msg = []"
    using snap(1) by (simp_all add: msg0_def NewMessage_def)
  have "message_wf ?msg"
    using fields utf8 snap lab_readyD(8,9) [OF lab] Sign_utf8 [OF sig]
    by (simp add: message_wf_def message_utf8_def clock_wf_def clock_of_def clock_utf8_def)
  moreover have "signedDemoMessage P uuid name content vcOverride st = (st\<lparr>asVC := Some ?vc\<rparr>, Inr ?msg)"
    using lab_readyD [OF lab] vc(1) d sig by (simp add: signedDemoMessage_def Let_def copy sign_message_def msg0_def [symmetric])
  moreover have "own_clock ?msg \<noteq> 0" if "vcOverride = None"
  proof -
    have "own_clock ?msg = counters (clock ?vc) (asPeerID st)"
      using that fields by (simp add: clock_of_def snap_def counters_def)
    then show ?thesis using vc(4) by (simp add: counters_Increment) (metis add.commute add_eq_0_iff)
  qed
  moreover have "clock_of ?msg = c" if "vcOverride = Some c" for c
    using that fields by (simp add: clock_of_def snap_def)
  ultimately show thesis using that [of "st\<lparr>asVC := Some ?vc\<rparr>" ?msg d] bytes sig fields by simp
qed

lemma launch_one:
  assumes "launch D room (st, Inr ([data], res)) = (st', sent, Inr r)" and "data \<noteq> []"
  shows "sent = [data]"
  using assms by (auto simp: launch_def PublishRawBurstForDemo_def split: if_splits option.splits)

text \<open>A forgery: signed as one message, sent as another.\<close>

lemma forgery_verdict:
  assumes lab: "lab_ready P identity st"
    and unf: "unforgeable P identity {projr (SignableBytes msg), projr (SignableBytes (msg\<lparr>mContent := content\<rparr>))}" and wf: "message_wf msg"
    and bytes: "SignableBytes msg = Inr d" "Sign P identity d = Inr (mSignature msg)"
    and who: "mSenderID msg = asPeerID st" "mID msg \<noteq> []" "mSenderName msg \<noteq> []" "mVectorClock msg \<noteq> None" "own_clock msg \<noteq> 0"
    and content: "content \<noteq> mContent msg" "valid_utf8 content" "length content \<le> 8192"
    and good: "\<not> IsQuarantined (asPeerID st) t"
  shows "message_wf (msg\<lparr>mContent := content\<rparr>)"
    and "verdict P (Some (as_received (msg\<lparr>mContent := content\<rparr>))) (Some t) = Some (''bad_signature'', ''bad signature'')"
proof -
  let ?f = "msg\<lparr>mContent := content\<rparr>"
  show wff: "message_wf ?f" using wf content(2) by (rule message_wf_update)
  have "SignableBytes ?f \<noteq> SignableBytes msg"
    using SignableBytes_eq [OF wff wf] content(1) by (simp add: same_signed_part_def)
  then have "json_Render (signable_json ?f) \<noteq> d" using bytes(1) by (simp add: SignableBytes_def)
  then have "VerifySignature P (PeerID identity) (json_Render (signable_json ?f)) (mSignature msg) = Inr False"
    using unf bytes by (auto simp: unforgeable_def SignableBytes_def)
  moreover have peer: "p_Decode P (asPeerID st) = Inr (PeerID identity)" "asPeerID st \<noteq> []"
    using lab_readyD [OF lab] by simp_all
  moreover have "go_get 0 (clock_of (as_received ?f)) = go_get 0 (clock_of ?f)" by (rule own_clock_sorted) (use wff in \<open>simp add: message_wf_def\<close>)
  then have "own_clock (as_received ?f) \<noteq> 0" using who(5) by (simp add: clock_of_def)
  ultimately show "verdict P (Some (as_received ?f)) (Some t) = Some (''bad_signature'', ''bad signature'')"
    using who content(3) good peer signable_sorted [of ?f]
    by (simp add: verdict_def quarantined_by_def sorted_clock_def)
qed

section \<open>One lemma per attack\<close>

text \<open>A stranger \<open>src\<close> in good standing at a peer with the tracker \<open>t\<close>.\<close>

definition stranger :: "('sk, 'pk) libp2p \<Rightarrow> ('sk, 'pk) appState \<Rightarrow> string \<Rightarrow> time \<Rightarrow> TrustTracker \<Rightarrow> bool" where
  "stranger P st src now t =
     (src \<noteq> [] \<and> p_String P src \<noteq> [] \<and> p_String P src \<noteq> asPeerID st \<and> p_String P src \<noteq> ''spoofed-peer-id'' \<and>
      snd (AllowRate (p_String P src) now now t) \<and> \<not> IsQuarantined (asPeerID st) t)"

definition refused_as ::
  "('sk, 'pk) libp2p \<Rightarrow> json_text \<Rightarrow> string \<Rightarrow> time \<Rightarrow> TrustTracker \<Rightarrow> string \<Rightarrow> string \<Rightarrow> bool" where
  "refused_as P J src now t data reason =
     (\<exists>tr err. validateEnvelopeData P J data src now (Some t) = (Some tr, Some err) \<and>
        tLastReason tr = shortPeerID (p_String P src) @ '': '' @ reason)"

lemma stranger_rate:
  assumes "stranger P st src now t"
  obtains t1 where "AllowRate (p_String P src) now now t = (t1, True)" "\<not> IsQuarantined (asPeerID st) t1"
proof -
  obtain t1 where "AllowRate (p_String P src) now now t = (t1, True)"
    using assms by (auto simp: stranger_def prod_eq_iff)
  moreover from AllowRate_quarantine [OF this] have "\<not> IsQuarantined (asPeerID st) t1" using assms by (simp add: stranger_def)
  ultimately show thesis by (rule that)
qed

lemma chat_refused:
  assumes "stranger P st src now t" and "message_wf m" and "length (Message_Marshal m) \<le> 65536" and "reason \<noteq> []"
    and "\<And>t1. \<not> IsQuarantined (asPeerID st) t1 \<Longrightarrow> \<exists>err. verdict P (Some (as_received m)) (Some t1) = Some (reason, err)"
  shows "refused_as P J src now t (Message_Marshal m) reason"
proof -
  obtain t1 where t1: "AllowRate (p_String P src) now now t = (t1, True)" "\<not> IsQuarantined (asPeerID st) t1"
    using stranger_rate [OF assms(1)] .
  obtain err where "verdict P (Some (as_received m)) (Some t1) = Some (reason, err)" using assms(5) [OF t1(2)] ..
  with chat_rejected [OF assms(2,3) _ t1(1)] assms(1,4) show ?thesis
    by (auto simp: refused_as_def stranger_def last_reason)
qed

lemma control_refused:
  assumes "stranger P st src now t" and "control_ok c" and "cKind c = ''sync_request'' \<or> cKind c = ''sync_response''"
    and "cRequestID c \<noteq> []" and "cFromPeerID c \<noteq> []" and "cFromPeerID c \<noteq> p_String P src"
    and "length (json_Render (control_json c)) \<le> 65536"
  shows "refused_as P J src now t (json_Render (control_json c)) ''from_peer_mismatch''"
  using control_mismatch [OF assms(2-6) _ assms(7)] assms(1) by (fastforce simp: refused_as_def stranger_def last_reason)

lemma tamper_refused:
  assumes lab: "lab_ready P identity st" and unf: "unforgeable P identity (tampered_bytes P uuid st)" and uuid: "uuid \<noteq> []" "valid_utf8 uuid"
    and who: "stranger P st src now t"
  obtains st' data res where "tamper_content P uuid st = (st', Inr ([data], res))" "data \<noteq> []"
    "length data \<le> 65536 \<Longrightarrow> refused_as P J src now t data ''bad_signature''"
proof (rule signedDemoMessage_made [OF lab uuid(2), of "''TamperDemo''" "''legitimate text''" None])
  fix msg :: Message and st' d
  let ?f = "msg\<lparr>mContent := ''FORGED: content changed after signing''\<rparr>"
  assume made: "signedDemoMessage P uuid ''TamperDemo'' ''legitimate text'' None st = (st', Inr msg)" and wf: "message_wf msg"
    and sig: "SignableBytes msg = Inr d" "Sign P identity d = Inr (mSignature msg)"
    and m: "mID msg = uuid" "mSenderID msg = asPeerID st" "mSenderName msg = ''TamperDemo''" "mContent msg = ''legitimate text''"
      "mVectorClock msg \<noteq> None" "None = None \<Longrightarrow> own_clock msg \<noteq> 0"
  have wff: "message_wf ?f" using wf by (rule message_wf_update) simp
  have tried: "unforgeable P identity {projr (SignableBytes msg), projr (SignableBytes ?f)}"
    using unf by (simp add: tampered_bytes_def made)
  have forged: "\<not> IsQuarantined (asPeerID st) t1 \<Longrightarrow>
      verdict P (Some (as_received ?f)) (Some t1) = Some (''bad_signature'', ''bad signature'')" for t1
    using forgery_verdict [OF lab tried wf sig m(2) _ _ m(5), where t = t1] m uuid(1) by simp
  obtain res where "tamper_content P uuid st = (st', Inr ([Message_Marshal ?f], res))"
    by (simp add: tamper_content_def made with_demo_message_def Let_def)
  moreover have "length (Message_Marshal ?f) \<le> 65536 \<Longrightarrow> refused_as P J src now t (Message_Marshal ?f) ''bad_signature''"
    using forged by (intro chat_refused [OF who wff]) simp_all
  ultimately show thesis using that Message_Marshal_nonempty by blast
qed simp_all

lemma missing_clock_refused:
  assumes lab: "lab_ready P identity st" and uuid: "uuid \<noteq> []" "valid_utf8 uuid" and who: "stranger P st src now t"
  obtains st' data res where "missing_sender_clock P uuid st = (st', Inr ([data], res))" "data \<noteq> []"
    "length data \<le> 65536 \<Longrightarrow> refused_as P J src now t data ''missing_sender_clock''"
proof (rule signedDemoMessage_made [OF lab uuid(2), of "''ClockDemo''" "''signed but missing sender clock''" "Some [(''other-peer'', 1)]"])
  fix msg :: Message and st' d
  assume made: "signedDemoMessage P uuid ''ClockDemo'' ''signed but missing sender clock'' (Some [(''other-peer'', 1)]) st = (st', Inr msg)"
    and wf: "message_wf msg" and m: "mID msg = uuid" "mSenderID msg = asPeerID st" "mSenderName msg = ''ClockDemo''"
      "mContent msg = ''signed but missing sender clock''" "\<And>c. Some [(''other-peer'', 1)] = Some c \<Longrightarrow> clock_of msg = c"
  have "go_get 0 (clock_of (as_received msg)) = go_get 0 (clock_of msg)" by (rule own_clock_sorted) (use wf in \<open>simp add: message_wf_def\<close>)
  then have "own_clock (as_received msg) = 0"
    using m(2) m(5) [OF refl] lab_readyD(7) [OF lab] by (simp add: go_get_def)
  then have v: "\<not> IsQuarantined (asPeerID st) t1 \<Longrightarrow>
      verdict P (Some (as_received msg)) (Some t1) = Some (''missing_sender_clock'', ''missing sender vector clock'')" for t1
    using m uuid(1) lab_readyD(6) [OF lab] by (simp add: verdict_def quarantined_by_def)
  obtain res where "missing_sender_clock P uuid st = (st', Inr ([Message_Marshal msg], res))"
    by (simp add: missing_sender_clock_def made with_demo_message_def)
  moreover have "length (Message_Marshal msg) \<le> 65536 \<Longrightarrow> refused_as P J src now t (Message_Marshal msg) ''missing_sender_clock''"
    using v by (intro chat_refused [OF who wf]) simp_all
  ultimately show thesis using that Message_Marshal_nonempty by blast
qed (simp_all add: go_wf_def clock_utf8_def)

lemma forged_sync_refused:
  assumes lab: "lab_ready P identity st" and uuid: "valid_utf8 uuid" "rid \<noteq> []" "valid_utf8 rid" and who: "stranger P st src now t"
  obtains st' data res where "forged_sync P uuid rid st = (st', Inr ([data], res))" "data \<noteq> []"
    "length data \<le> 65536 \<Longrightarrow> refused_as P J src now t data ''from_peer_mismatch''"
proof (rule signedDemoMessage_made [OF lab uuid(1), of "''ForgedSyncDemo''" "''legitimate sync message''" None])
  fix msg :: Message and st' d
  assume made: "signedDemoMessage P uuid ''ForgedSyncDemo'' ''legitimate sync message'' None st = (st', Inr msg)" and wf: "message_wf msg"
  let ?c = "Control_zero\<lparr>cKind := ''sync_response'', cRequestID := rid, cFromPeerID := asPeerID st,
    cMessages := [Some (msg\<lparr>mContent := ''FORGED SYNC: modified after signing''\<rparr>)]\<rparr>"
  have "message_wf (msg\<lparr>mContent := ''FORGED SYNC: modified after signing''\<rparr>)" using wf by (rule message_wf_update) simp
  then have ok: "control_ok ?c" using uuid lab_readyD(8) [OF lab] by (simp add: control_ok_def Control_zero_def)
  obtain res where "forged_sync P uuid rid st = (st', Inr ([json_Render (control_json ?c)], res))"
    by (simp add: forged_sync_def made with_demo_message_def Let_def)
  moreover have "length (json_Render (control_json ?c)) \<le> 65536 \<Longrightarrow>
      refused_as P J src now t (json_Render (control_json ?c)) ''from_peer_mismatch''"
    using who ok uuid lab_readyD(6) [OF lab] by (intro control_refused) (auto simp: stranger_def)
  moreover have "json_Render (control_json ?c) \<noteq> []" by (simp add: control_json_def)
  ultimately show thesis using that by blast
qed simp_all

lemma spoof_sync_refused:
  assumes "uuid \<noteq> []" "valid_utf8 uuid" and who: "stranger P st src now t"
  obtains data res where "spoof_sync uuid st = (st, Inr ([data], res))" "data \<noteq> []"
    "length data \<le> 65536 \<Longrightarrow> refused_as P J src now t data ''from_peer_mismatch''"
proof -
  let ?c = "Control_zero\<lparr>cKind := ''sync_request'', cRequestID := uuid, cFromPeerID := ''spoofed-peer-id''\<rparr>"
  have ok: "control_ok ?c" using assms by (simp add: control_ok_def Control_zero_def)
  obtain res where "spoof_sync uuid st = (st, Inr ([json_Render (control_json ?c)], res))" by (simp add: spoof_sync_def)
  moreover have "length (json_Render (control_json ?c)) \<le> 65536 \<Longrightarrow>
      refused_as P J src now t (json_Render (control_json ?c)) ''from_peer_mismatch''"
    using who ok assms by (intro control_refused) (auto simp: stranger_def)
  moreover have "json_Render (control_json ?c) \<noteq> []" by (simp add: control_json_def)
  ultimately show thesis using that by blast
qed

lemma malformed_refused:
  assumes "stranger P st src now t"
  obtains data res where "malformed_payload st = (st, Inr ([data], res))" "data \<noteq> []"
    "length data \<le> 65536 \<Longrightarrow> refused_as P J src now t data ''invalid_json''"
  using malformed_rejected [of src P J now t] assms that [of "''{not valid json''"]
  by (fastforce simp: malformed_payload_def refused_as_def stranger_def last_reason)

section \<open>Properties\<close>

text \<open>The reason another peer records for an attack of one packet.\<close>

definition stopped_as :: "string \<Rightarrow> string" where
  "stopped_as a =
     (if a = ''spoof_sync'' \<or> a = ''forged_sync'' then ''from_peer_mismatch''
      else if a = ''malformed_payload'' then ''invalid_json''
      else if a = ''missing_sender_clock'' then ''missing_sender_clock'' else ''bad_signature'')"

definition sample_demo :: demo_net where
  "sample_demo = \<lparr>dn_Peers = [''b''], dn_New = None, dn_Addrs = (\<lambda>_. [''addr'']), dn_Connect = (\<lambda>_. None), dn_GossipSub = None,
     dn_Join = (\<lambda>_. None), dn_Graft = None, dn_Publish = (\<lambda>_. None), dn_Wait = (\<lambda>_. None)\<rparr>"

lemma sample_unforgeable: "unforgeable toy (toy_id n) tried"
proof -
  have "VerifySignature toy n d' (hex_EncodeToString (n @ '':'' @ d)) = Inr (d = d')" for d d'
    unfolding VerifySignature_def hex_Decode_Encode by (simp add: toy_def)
  moreover have "Sign toy (toy_id n) d = Inr s \<longleftrightarrow> s = hex_EncodeToString (n @ '':'' @ d)" for d s
    by (auto simp: Sign_def toy_def toy_id_def)
  moreover have "PeerID (toy_id n) = n" by (simp add: toy_id_def)
  ultimately show ?thesis by (simp add: unforgeable_def)
qed

lemma sample_lab: "lab_ready toy (toy_id ''k'') sample_state"
proof -
  have "asPrevHash sample_state = []" "asNode sample_state \<noteq> None"
    using init_joined(8) [OF sample_init]
    by (simp_all add: sample_state_def init_def Let_def GenerateIdentity_def sample_setting_def toy_def NewNode_def sample_net_def appState_start_def)
  then show ?thesis
    using sample_joined sample_peer toy_key_pair [of "''k''"]
    by (simp add: lab_ready_def VectorClock_New_def clock_utf8_def) (simp add: toy_def toy_id_def)
qed

lemma sample_stranger: "stranger toy sample_state ''mallory'' 5 NewTrustTracker"
proof -
  have "snd (AllowRate ''mallory'' 5 5 NewTrustTracker)"
    using AllowRate_bucket(1) [of 5 "''mallory''" "''mallory''" 5 NewTrustTracker]
    by (simp add: NewTrustTracker_def refill_def RateLimitBurst_def)
  then show ?thesis
    by (simp add: stranger_def sample_peer) (simp add: toy_def IsQuarantined_def NewTrustTracker_def)
qed

lemma runDemoAttack_launch:
  assumes "lab_ready (s_P W) identity st"
  obtains room where
    "runDemoAttack W quote D uuids failed ''tamper_content'' st = launch D room (tamper_content (s_P W) (uuids 0) st)"
    "runDemoAttack W quote D uuids failed ''spoof_sync'' st = launch D room (spoof_sync (uuids 0) st)"
    "runDemoAttack W quote D uuids failed ''malformed_payload'' st = launch D room (malformed_payload st)"
    "runDemoAttack W quote D uuids failed ''forged_sync'' st = launch D room (forged_sync (s_P W) (uuids 0) (uuids 1) st)"
    "runDemoAttack W quote D uuids failed ''missing_sender_clock'' st = launch D room (missing_sender_clock (s_P W) (uuids 0) st)"
proof -
  obtain room where room: "asRoom st = Some room" using lab_readyD(3) [OF assms] by auto
  note ready = room lab_readyD(1,4) [OF assms]
  show thesis by (rule that [of room]; simp add: runDemoAttack_def ready)
qed

lemma sample_launch: "asNode st \<noteq> None \<Longrightarrow> data \<noteq> [] \<Longrightarrow> launch sample_demo room (st, Inr ([data], res)) = (st, [data], Inr res)"
  by (simp add: launch_def PublishRawBurstForDemo_def sample_demo_def)

lemma sample_attack:
  "\<exists>st' data result. runDemoAttack sample_setting id sample_demo (\<lambda>_. ''u'') None ''spoof_sync'' sample_state = (st', [data], Inr result) \<and>
     length data \<le> 65536"
proof -
  let ?data = "json_Render (control_json (Control_zero\<lparr>cKind := ''sync_request'', cRequestID := ''u'', cFromPeerID := ''spoofed-peer-id''\<rparr>))"
  have P: "s_P sample_setting = toy" by (simp add: sample_setting_def)
  obtain room where run: "runDemoAttack sample_setting id sample_demo (\<lambda>_. ''u'') None ''spoof_sync'' sample_state =
      launch sample_demo room (spoof_sync ''u'' sample_state)"
    by (rule runDemoAttack_launch [of sample_setting "toy_id ''k''" sample_state id sample_demo "\<lambda>_. ''u''" None, unfolded P, OF sample_lab])
  have "length ?data \<le> 100" by code_simp
  moreover have "?data \<noteq> []" by (simp add: control_json_def)
  ultimately show ?thesis
    using lab_readyD(2) [OF sample_lab]
    by (simp add: run spoof_sync_def sample_launch)
qed

text \<open>A sixth attack of one packet, \<open>replay_message\<close>, sends a valid message and is left to the ledgers: every ledger that has the
  message refuses it as a duplicate.\<close>

lemma replayed_message_is_a_duplicate:
  assumes "replay_message failed st = (st', Inr result)" and "asLedger st = Some l" and "ledger_inv l"
  obtains m where "m \<in> set (lMessages l)" "st' = on_room (Publish m) st"
    "\<And>U L. mID m \<noteq> [] \<Longrightarrow> mID m \<in> lIds L \<Longrightarrow> snd (AddWithReason U (Some (as_received m)) L) = (False, ''duplicate_message'')"
proof -
  obtain m ms where m: "Recent 1 l = m # ms" "st' = on_room (Publish m) st"
    using assms(1,2) by (auto simp: replay_message_def split: list.splits option.splits)
  have "set (Recent 1 l) \<subseteq> set (lMessages l)"
    using recent_clone [OF assms(3)] by (auto simp: Recent_def Let_def dest: in_set_dropD)
  then have "m \<in> set (lMessages l)" using m(1) by auto
  moreover have "snd (AddWithReason U (Some (as_received m)) L) = (False, ''duplicate_message'')" if "mID m \<noteq> []" "mID m \<in> lIds L" for U L
    using that by (simp add: AddWithReason_def)
  ultimately show thesis using that m(2) by blast
qed

text \<open>C11. The five attacks of one packet that the validator is to stop -- \<open>tamper_content\<close>, \<open>spoof_sync\<close>, \<open>malformed_payload\<close>,
  \<open>forged_sync\<close> and \<open>missing_sender_clock\<close> -- are stopped.  In any room in operation whose own key signs verifiably and whose own
  counter does not stand at its maximum, the attack publishes one packet from a throw-away peer; when the packet has at most 64 KiB,
  the validator of every peer that has not quarantined the attacked one and whose rate limit lets the stranger's packet pass
  refuses it, and the reason recorded is the one the laboratory announces -- except that a forged sync response is not refused
  because of the forged message in it, as the page says, but because it names the attacked peer and comes from the
  stranger.  Fresh identifiers, peer identifiers, the clock's keys and \<open>prevHash\<close> are valid UTF-8, no peer has one of the laboratory's made-up names,
  and for the tampered message it is assumed that the signature made on the original does not verify on the forgery.\<close>

theorem lab_attacks_are_stopped:
  assumes lab: "lab_ready (s_P W) identity st" and unf: "unforgeable (s_P W) identity (tampered_bytes (s_P W) (uuids 0) st)"
    and uuids: "\<And>i. uuids i \<noteq> [] \<and> valid_utf8 (uuids i)"
    and a: "a \<in> {''tamper_content'', ''spoof_sync'', ''malformed_payload'', ''forged_sync'', ''missing_sender_clock''}"
    and run: "runDemoAttack W quote D uuids failed a st = (st', sent, Inr result)"
    and small: "\<forall>data \<in> set sent. length data \<le> 65536" and who: "stranger (s_P W) st src now t"
  shows "\<exists>data. sent = [data] \<and> refused_as (s_P W) J src now t data (stopped_as a)"
proof -
  obtain room where launched:
    "runDemoAttack W quote D uuids failed ''tamper_content'' st = launch D room (tamper_content (s_P W) (uuids 0) st)"
    "runDemoAttack W quote D uuids failed ''spoof_sync'' st = launch D room (spoof_sync (uuids 0) st)"
    "runDemoAttack W quote D uuids failed ''malformed_payload'' st = launch D room (malformed_payload st)"
    "runDemoAttack W quote D uuids failed ''forged_sync'' st = launch D room (forged_sync (s_P W) (uuids 0) (uuids 1) st)"
    "runDemoAttack W quote D uuids failed ''missing_sender_clock'' st = launch D room (missing_sender_clock (s_P W) (uuids 0) st)"
    by (rule runDemoAttack_launch [OF lab])
  have "\<exists>st1 data res. launch D room (st1, Inr ([data], res)) = (st', sent, Inr result) \<and> data \<noteq> [] \<and>
      (length data \<le> 65536 \<longrightarrow> refused_as (s_P W) J src now t data (stopped_as a))"
  proof -
    from a show ?thesis
    proof (elim insertE emptyE)
      assume tamper: "a = ''tamper_content''"
      obtain st1 data res where "tamper_content (s_P W) (uuids 0) st = (st1, Inr ([data], res))" "data \<noteq> []"
        "length data \<le> 65536 \<Longrightarrow> refused_as (s_P W) J src now t data ''bad_signature''"
        using uuids tamper_refused [OF lab unf _ _ who] by metis
      moreover have "stopped_as a = ''bad_signature''" by (simp add: tamper stopped_as_def)
      ultimately show ?thesis using run launched(1) unfolding tamper by metis
    next
      assume spoof: "a = ''spoof_sync''"
      obtain data res where "spoof_sync (uuids 0) st = (st, Inr ([data], res))" "data \<noteq> []"
        "length data \<le> 65536 \<Longrightarrow> refused_as (s_P W) J src now t data ''from_peer_mismatch''"
        using uuids spoof_sync_refused [OF _ _ who] by metis
      moreover have "stopped_as a = ''from_peer_mismatch''" by (simp add: spoof stopped_as_def)
      ultimately show ?thesis using run launched(2) unfolding spoof by metis
    next
      assume malformed: "a = ''malformed_payload''"
      obtain data res where "malformed_payload st = (st, Inr ([data], res))" "data \<noteq> []"
        "length data \<le> 65536 \<Longrightarrow> refused_as (s_P W) J src now t data ''invalid_json''"
        using malformed_refused [OF who] by metis
      moreover have "stopped_as a = ''invalid_json''" by (simp add: malformed stopped_as_def)
      ultimately show ?thesis using run launched(3) unfolding malformed by metis
    next
      assume forged: "a = ''forged_sync''"
      obtain st1 data res where "forged_sync (s_P W) (uuids 0) (uuids 1) st = (st1, Inr ([data], res))" "data \<noteq> []"
        "length data \<le> 65536 \<Longrightarrow> refused_as (s_P W) J src now t data ''from_peer_mismatch''"
        using uuids forged_sync_refused [OF lab _ _ _ who] by metis
      moreover have "stopped_as a = ''from_peer_mismatch''" by (simp add: forged stopped_as_def)
      ultimately show ?thesis using run launched(4) unfolding forged by metis
    next
      assume missing: "a = ''missing_sender_clock''"
      obtain st1 data res where "missing_sender_clock (s_P W) (uuids 0) st = (st1, Inr ([data], res))" "data \<noteq> []"
        "length data \<le> 65536 \<Longrightarrow> refused_as (s_P W) J src now t data ''missing_sender_clock''"
        using uuids missing_clock_refused [OF lab _ _ who] by metis
      moreover have "stopped_as a = ''missing_sender_clock''" by (simp add: missing stopped_as_def)
      ultimately show ?thesis using run launched(5) unfolding missing by metis
    qed
  qed
  then show ?thesis using launch_one small by fastforce
qed

theorem lab_attacks_are_stopped_witness:
  "\<exists>st' data result. runDemoAttack sample_setting id sample_demo (\<lambda>_. ''u'') None ''spoof_sync'' sample_state = (st', [data], Inr result) \<and>
    refused_as toy (\<lambda>_ _ _. []) ''mallory'' 5 NewTrustTracker data ''from_peer_mismatch''"
proof -
  obtain st' data result where run: "runDemoAttack sample_setting id sample_demo (\<lambda>_. ''u'') None ''spoof_sync'' sample_state = (st', [data], Inr result)"
    and small: "length data \<le> 65536" using sample_attack by blast
  have P: "s_P sample_setting = toy" by (simp add: sample_setting_def)
  have "stopped_as ''spoof_sync'' = ''from_peer_mismatch''" by (simp add: stopped_as_def)
  then show ?thesis
    using lab_attacks_are_stopped [of sample_setting "toy_id ''k''" sample_state "\<lambda>_. ''u''", unfolded P, OF sample_lab sample_unforgeable _ _ run _ sample_stranger]
      run small by force
qed

end
