(* ===== verification/Ollama_Setup.thy ===== *)
theory Ollama_Setup
  imports Server
begin

text \<open>
  Finding, starting and installing Ollama (\<open>cmd/main.go\<close>, the handlers under \<open>/api/ollama\<close> and \<open>/api/models\<close>).

  Everything outside the process is the record \<open>system\<close>: functions on the state \<open>'w\<close> of the machine for running
  programs, asking Ollama whether it is up, files and HTTP.  A response body is the list of its reads, each with its
  bytes and whether it ended the body; a loop over a body that never ends is \<open>None\<close>.  What a handler writes is a list of lines,
  framed as server-sent events.  Sizes are mathematical integers.
\<close>

section \<open>The machine\<close>

record http_response =
  resStatus :: int
  resLength :: int
  resReads :: "(string \<times> bool) list"

record command_run =
  runStart :: "string option"
  runOutput :: "(string \<times> bool) list"
  runWait :: "string option"

record 'w system =
  sy_GOOS :: string
  sy_GOARCH :: string
  sy_Getenv :: "string \<Rightarrow> string"
  sy_TempDir :: string
  sy_LookPath :: "string \<Rightarrow> 'w \<Rightarrow> string option"
  sy_Stat :: "string \<Rightarrow> 'w \<Rightarrow> bool"
  sy_Probe :: "'w \<Rightarrow> 'w \<times> string option"
  sy_Sleep :: "'w \<Rightarrow> 'w"
  sy_Start :: "string list \<Rightarrow> 'w \<Rightarrow> 'w \<times> string option"
  sy_Run :: "string list \<Rightarrow> 'w \<Rightarrow> 'w \<times> command_run"
  sy_MkdirAll :: "string \<Rightarrow> 'w \<Rightarrow> 'w \<times> string option"
  sy_Create :: "string \<Rightarrow> 'w \<Rightarrow> 'w \<times> string option"
  sy_Write :: "string \<Rightarrow> string \<Rightarrow> 'w \<Rightarrow> 'w"
  sy_Chmod :: "string \<Rightarrow> 'w \<Rightarrow> 'w"
  sy_Get :: "string \<Rightarrow> 'w \<Rightarrow> 'w \<times> (string + http_response)"
  sy_Request :: "string \<Rightarrow> string \<Rightarrow> string \<Rightarrow> 'w \<Rightarrow> 'w \<times> (string + http_response)"

section \<open>Finding the program\<close>

definition bs :: string where
  "bs = [CHR 0x5C]"

definition envOrDefault :: "'w system \<Rightarrow> string \<Rightarrow> string \<Rightarrow> string" where
  "envOrDefault S key def = (if sy_Getenv S key \<noteq> [] then sy_Getenv S key else def)"

definition ollama_candidates :: "'w system \<Rightarrow> string list" where
  "ollama_candidates S =
     [''/usr/local/bin/ollama'', ''/opt/homebrew/bin/ollama''] @
     (if sy_GOOS S = ''windows''
      then [''C:'' @ bs @ ''Program Files'' @ bs @ ''Ollama'' @ bs @ ''ollama.exe'',
        ''C:'' @ bs @ ''Users'' @ bs @ envOrDefault S ''USERNAME'' [] @ bs @ ''AppData'' @ bs @ ''Local'' @ bs @ ''Programs'' @ bs @
          ''Ollama'' @ bs @ ''ollama.exe'']
      else [])"

definition ollamaBin :: "'w system \<Rightarrow> 'w \<Rightarrow> string" where
  "ollamaBin S w =
     (case sy_LookPath S ''ollama'' w of
        Some p \<Rightarrow> p
      | None \<Rightarrow> (case find (\<lambda>p. sy_LookPath S p w \<noteq> None) (ollama_candidates S) of Some p \<Rightarrow> p | None \<Rightarrow> []))"

definition ollamaInstalled :: "'w system \<Rightarrow> 'w \<Rightarrow> bool" where
  "ollamaInstalled S w = (ollamaBin S w \<noteq> [])"

section \<open>Starting it\<close>

text \<open>The polling loops: up to \<open>n\<close> times sleep half a second and ask.\<close>

fun poll :: "'w system \<Rightarrow> nat \<Rightarrow> 'w \<Rightarrow> 'w \<times> bool" where
  "poll S 0 w = (w, False)"
| "poll S (Suc n) w =
     (case sy_Probe S (sy_Sleep S w) of (w1, None) \<Rightarrow> (w1, True) | (w1, Some _) \<Rightarrow> poll S n w1)"

definition waitForOllama :: "'w system \<Rightarrow> 'w \<Rightarrow> 'w \<times> bool" where
  "waitForOllama S w = poll S 30 w"

definition serve :: "string \<Rightarrow> string list" where
  "serve bin = [bin, ''serve'']"

text \<open>What \<open>main\<close> does first; only the machine changes.\<close>

definition ensureOllama :: "'w system \<Rightarrow> 'w \<Rightarrow> 'w" where
  "ensureOllama S w =
     (case sy_Probe S w of
        (w1, None) \<Rightarrow> w1
      | (w1, Some _) \<Rightarrow>
        if ollamaBin S w1 = [] then w1
        else (case sy_Start S (serve (ollamaBin S w1)) w1 of
                (w2, Some _) \<Rightarrow> w2
              | (w2, None) \<Rightarrow> fst (poll S 20 w2)))"

text \<open>With the lines written; the only caller passes a writer.\<close>

definition startOllamaBg :: "'w system \<Rightarrow> 'w \<Rightarrow> 'w \<times> string list" where
  "startOllamaBg S w =
     (case sy_Start S (serve (if ollamaBin S w = [] then ''ollama'' else ollamaBin S w)) w of
        (w1, Some err) \<Rightarrow> (w1, [''Could not auto-start: '' @ err])
      | (w1, None) \<Rightarrow> (case poll S 20 w1 of (w2, up) \<Rightarrow> (w2, if up then [''Ollama is running!''] else [])))"

definition started :: "string \<Rightarrow> response" where
  "started how = json_response (JObj [(''method'', JStr how), (''ok'', JBool True)])"

definition not_started :: response where
  "not_started = json_response (JObj [(''error'', JStr ''Could not start Ollama. Please start it manually or reinstall.''), (''ok'', JBool False)])"

text \<open>Starting a program and waiting: whether Ollama is up then.\<close>

definition start_and_wait :: "'w system \<Rightarrow> string list \<Rightarrow> 'w \<Rightarrow> 'w \<times> bool" where
  "start_and_wait S cmd w = (case sy_Start S cmd w of (w1, Some _) \<Rightarrow> (w1, False) | (w1, None) \<Rightarrow> waitForOllama S w1)"

fun scan_paths :: "'w system \<Rightarrow> string list \<Rightarrow> 'w \<Rightarrow> 'w \<times> bool" where
  "scan_paths S [] w = (w, False)"
| "scan_paths S (p # ps) w =
     (if sy_Stat S p w
      then (case start_and_wait S (serve p) w of (w1, True) \<Rightarrow> (w1, True) | (w1, False) \<Rightarrow> scan_paths S ps w1)
      else scan_paths S ps w)"

definition windows_paths :: "'w system \<Rightarrow> string list" where
  "windows_paths S =
     [''C:'' @ bs @ ''Program Files'' @ bs @ ''Ollama'' @ bs @ ''ollama.exe'',
      sy_Getenv S ''LOCALAPPDATA'' @ bs @ ''Programs'' @ bs @ ''Ollama'' @ bs @ ''ollama.exe'']"

text \<open>\<open>open -a Ollama\<close> is run to its end.\<close>

definition open_app :: "'w system \<Rightarrow> 'w \<Rightarrow> 'w \<times> bool" where
  "open_app S w =
     (case sy_Run S [''open'', ''-a'', ''Ollama''] w of
        (w1, r) \<Rightarrow> if runStart r = None \<and> runWait r = None then waitForOllama S w1 else (w1, False))"

definition handleOllamaStart :: "'w system \<Rightarrow> string \<Rightarrow> 'w \<Rightarrow> 'w \<times> response" where
  "handleOllamaStart S httpMethod w =
     (if httpMethod \<noteq> ''POST'' then (w, http_Error ''POST only'' 405)
      else (case sy_Probe S w of
          (w1, None) \<Rightarrow> (w1, started ''already_running'')
        | (w1, Some _) \<Rightarrow>
          (case (if ollamaBin S w1 \<noteq> [] then start_and_wait S (serve (ollamaBin S w1)) w1 else (w1, False)) of
             (w2, True) \<Rightarrow> (w2, started ''cli'')
           | (w2, False) \<Rightarrow>
             (case (if sy_GOOS S = ''darwin'' then open_app S w2 else (w2, False)) of
                (w3, True) \<Rightarrow> (w3, started ''app'')
              | (w3, False) \<Rightarrow>
                (case (if sy_GOOS S = ''windows'' then scan_paths S (windows_paths S) w3 else (w3, False)) of
                   (w4, True) \<Rightarrow> (w4, started ''path_scan'')
                 | (w4, False) \<Rightarrow> (w4, not_started))))))"

definition handleOllamaStatus :: "'w system \<Rightarrow> 'w \<Rightarrow> 'w \<times> response" where
  "handleOllamaStatus S w =
     (case sy_Probe S w of
        (w1, Some err) \<Rightarrow> (w1, json_response (JObj [(''error'', JStr err), (''installed'', JBool (ollamaInstalled S w)),
           (''os'', JStr (sy_GOOS S)), (''running'', JBool False)]))
      | (w1, None) \<Rightarrow> (w1, json_response (JObj [(''installed'', JBool True), (''os'', JStr (sy_GOOS S)), (''running'', JBool True)])))"

section \<open>Installing it\<close>

text \<open>The copying loop of \<open>downloadFile\<close>: reads, bytes so far, last percentage shown.\<close>

fun copy_body :: "'w system \<Rightarrow> string \<Rightarrow> int \<Rightarrow> (string \<times> bool) list \<Rightarrow> int \<Rightarrow> int \<Rightarrow> 'w \<Rightarrow> ('w \<times> string list) option" where
  "copy_body S dest whole [] downloaded lastPct w = None"
| "copy_body S dest whole ((chunk, ended) # later) downloaded lastPct w =
     (let w1 = (if chunk \<noteq> [] then sy_Write S dest chunk w else w);
          downloaded1 = downloaded + int (length chunk);
          pct = downloaded1 * 100 div whole;
          shown = (chunk \<noteq> [] \<and> whole > 0 \<and> pct \<noteq> lastPct \<and> pct mod 10 = 0);
          out = (if shown then [''Downloading... '' @ decimal_int pct @ ''% ('' @ decimal_int (downloaded1 div 1000000) @ '' MB / '' @
                     decimal_int (whole div 1000000) @ '' MB)''] else [])
      in if ended then Some (w1, out)
         else map_option (\<lambda>(w2, later_out). (w2, out @ later_out))
                (copy_body S dest whole later downloaded1 (if shown then pct else lastPct) w1))"

definition downloadFile :: "'w system \<Rightarrow> string \<Rightarrow> string \<Rightarrow> 'w \<Rightarrow> ('w \<times> string list \<times> string option) option" where
  "downloadFile S url dest w =
     (case sy_Get S url w of
        (w1, Inl err) \<Rightarrow> Some (w1, [], Some (''HTTP request failed: '' @ err))
      | (w1, Inr resp) \<Rightarrow>
        if resStatus resp \<noteq> 200 then Some (w1, [], Some (''server returned '' @ decimal_int (resStatus resp)))
        else (case sy_Create S dest w1 of
                (w2, Some err) \<Rightarrow> Some (w2, [], Some (''cannot create file: '' @ err))
              | (w2, None) \<Rightarrow>
                map_option (\<lambda>(w3, out). (w3, out @ [''Download complete!''], None))
                  (copy_body S dest (resLength resp) (resReads resp) 0 (- 1) w2)))"

fun output_lines :: "(string \<times> bool) list \<Rightarrow> string list option" where
  "output_lines [] = None"
| "output_lines ((chunk, ended) # later) =
     (let line = (if chunk \<noteq> [] then [chunk] else [])
      in if ended then Some line else map_option (\<lambda>later_out. line @ later_out) (output_lines later))"

definition runCmdStreaming :: "'w system \<Rightarrow> string list \<Rightarrow> 'w \<Rightarrow> ('w \<times> string list) option" where
  "runCmdStreaming S cmd w =
     (case sy_Run S cmd w of (w1, r) \<Rightarrow>
        (case runStart r of
           Some err \<Rightarrow> Some (w1, [''Command error: '' @ err])
         | None \<Rightarrow>
           map_option (\<lambda>out. (w1, out @ (case runWait r of Some err \<Rightarrow> [''Command failed: '' @ err] | None \<Rightarrow> [])))
             (output_lines (runOutput r))))"

text \<open>The part the installers for macOS and Linux share: choose a directory, download, make executable.\<close>

definition install_binary :: "'w system \<Rightarrow> string \<Rightarrow> string \<Rightarrow> 'w \<Rightarrow> ('w \<times> string list) option" where
  "install_binary S no_access url w =
     (case (case sy_MkdirAll S ''/usr/local/bin'' w of
              (w1, None) \<Rightarrow> (w1, ''/usr/local/bin/ollama'', [])
            | (w1, Some _) \<Rightarrow>
              (let dest = sy_Getenv S ''HOME'' @ ''/.local/bin/ollama''
               in (fst (sy_MkdirAll S (sy_Getenv S ''HOME'' @ ''/.local/bin'') w1), dest, [no_access @ dest]))) of
        (w2, dest, out1) \<Rightarrow>
          map_option (\<lambda>(w3, out2, err).
            case err of
              Some e \<Rightarrow> (w3, out1 @ out2 @ [''Download failed: '' @ e, ''[DONE] error''])
            | None \<Rightarrow> (sy_Chmod S dest w3, out1 @ out2 @ [''Ollama installed to '' @ dest]))
          (downloadFile S url dest w2))"

text \<open>First the command, and if Ollama is not there after it, the rest.\<close>

definition try_command ::
  "'w system \<Rightarrow> string list \<Rightarrow> string list \<Rightarrow> ('w \<Rightarrow> ('w \<times> string list) option) \<Rightarrow> 'w \<Rightarrow> ('w \<times> string list) option" where
  "try_command S announce cmd rest w =
     (case runCmdStreaming S cmd w of
        None \<Rightarrow> None
      | Some (w1, out) \<Rightarrow>
        if ollamaInstalled S w1 then Some (w1, announce @ out)
        else map_option (\<lambda>(w2, later_out). (w2, announce @ out @ later_out)) (rest w1))"

definition with_lines :: "string list \<Rightarrow> ('w \<times> string list) option \<Rightarrow> ('w \<times> string list) option" where
  "with_lines first r = map_option (\<lambda>(w, later_out). (w, first @ later_out)) r"

definition installDarwin :: "'w system \<Rightarrow> 'w \<Rightarrow> ('w \<times> string list) option" where
  "installDarwin S w =
     (let direct = (\<lambda>v. with_lines [''Downloading Ollama binary for macOS...'']
            (install_binary S ''No write access to /usr/local/bin, installing to '' ''https://ollama.com/download/ollama-darwin'' v))
      in if sy_LookPath S ''brew'' w \<noteq> None
         then try_command S [''Installing via Homebrew...''] [''brew'', ''install'', ''ollama'']
                (\<lambda>v. with_lines [''Homebrew install did not produce binary, trying direct download...''] (direct v)) w
         else direct w)"

definition installLinux :: "'w system \<Rightarrow> 'w \<Rightarrow> ('w \<times> string list) option" where
  "installLinux S w =
     try_command S [''Installing via official script...''] [''sh'', ''-c'', ''curl -fsSL https://ollama.com/install.sh | sh'']
       (\<lambda>v. with_lines [''Script install failed, trying direct binary download...'']
         (install_binary S ''No root access, installing to '' (''https://ollama.com/download/ollama-linux-'' @ sy_GOARCH S) v)) w"

definition windows_installer :: "'w system \<Rightarrow> 'w \<Rightarrow> ('w \<times> string list) option" where
  "windows_installer S w =
     (let dest = sy_TempDir S @ bs @ ''OllamaSetup.exe'' in
      map_option (\<lambda>(w1, out, err).
        case err of
          Some e \<Rightarrow> (w1, out @ [''Download failed: '' @ e, ''[DONE] error''])
        | None \<Rightarrow>
          (case sy_Run S [dest, ''/VERYSILENT'', ''/NORESTART''] w1 of (w2, r) \<Rightarrow>
             if runStart r = None \<and> runWait r = None
             then (w2, out @ [''Running installer (a window may appear)...'', ''Ollama installed!''])
             else (fst (sy_Start S [''cmd'', ''/c'', ''start'', dest] w2),
               out @ [''Running installer (a window may appear)...'', ''Silent install failed, launching installer UI...'',
                 ''Please complete the installer and refresh this page'', ''[DONE] manual_wait''])))
      (downloadFile S ''https://ollama.com/download/OllamaSetup.exe'' dest w))"

definition installWindows :: "'w system \<Rightarrow> 'w \<Rightarrow> ('w \<times> string list) option" where
  "installWindows S w =
     (let direct = (\<lambda>v. with_lines [''Downloading Ollama installer for Windows...''] (windows_installer S v))
      in if sy_LookPath S ''winget'' w \<noteq> None
         then try_command S [''Installing via winget...'']
                [''winget'', ''install'', ''--id'', ''Ollama.Ollama'', ''-e'', ''--accept-source-agreements'', ''--accept-package-agreements'']
                direct w
         else direct w)"

text \<open>A line of a server-sent event.\<close>

definition sse :: "string \<Rightarrow> string" where
  "sse s = ''data: '' @ s @ [CHR 0x0A, CHR 0x0A]"

text \<open>The switch on the operating system, and what follows it.\<close>

definition install_for_os :: "'w system \<Rightarrow> 'w \<Rightarrow> ('w \<times> string list) option" where
  "install_for_os S w =
     (if sy_GOOS S = ''darwin'' then installDarwin S w
      else if sy_GOOS S = ''linux'' then installLinux S w
      else installWindows S w)"

definition finish_install :: "'w system \<Rightarrow> 'w \<times> string list \<Rightarrow> 'w \<times> string list" where
  "finish_install S r =
     (case r of (w1, out) \<Rightarrow>
        if ollamaInstalled S w1
        then (case startOllamaBg S w1 of (w2, later_out) \<Rightarrow> (w2, out @ [''Starting Ollama...''] @ later_out @ [''[DONE] ok'']))
        else (w1, out))"

definition sse_response :: "'w \<times> string list \<Rightarrow> 'w \<times> response" where
  "sse_response r = (fst r, \<lparr>hrStatus = 200, hrBody = concat (map sse (snd r))\<rparr>)"

definition handleOllamaInstall :: "'w system \<Rightarrow> string \<Rightarrow> 'w \<Rightarrow> ('w \<times> response) option" where
  "handleOllamaInstall S httpMethod w =
     (if httpMethod \<noteq> ''POST'' then Some (w, http_Error ''POST only'' 405)
      else if ollamaInstalled S w then
        Some (w, json_response (JObj [(''message'', JStr ''already installed''), (''ok'', JBool True)]))
      else if sy_GOOS S = ''darwin'' \<or> sy_GOOS S = ''linux'' \<or> sy_GOOS S = ''windows'' then
        map_option (\<lambda>r. sse_response (finish_install S r)) (install_for_os S w)
      else Some (sse_response (w, [''[DONE] manual: Unsupported OS '' @ [CHR 0xE2, CHR 0x80, CHR 0x94] @
              '' please install from https://ollama.com/download''])))"

section \<open>Models\<close>

text \<open>The bytes of a body, as \<open>io.Copy\<close> passes them on.\<close>

fun body_bytes :: "(string \<times> bool) list \<Rightarrow> string option" where
  "body_bytes [] = None"
| "body_bytes ((chunk, ended) # later) = (if ended then Some chunk else map_option (\<lambda>later_out. chunk @ later_out) (body_bytes later))"

text \<open>\<open>name\<close> is what the decoder left in the variable \<open>body\<close>.\<close>

definition handleModels :: "'w system \<Rightarrow> string \<Rightarrow> string \<Rightarrow> 'w \<Rightarrow> ('w \<times> response) option" where
  "handleModels S httpMethod name w =
     (if httpMethod = ''GET'' then
        (case sy_Get S ''http://localhost:11434/api/tags'' w of
           (w1, Inl err) \<Rightarrow> Some (w1, http_Error err 502)
         | (w1, Inr resp) \<Rightarrow> map_option (\<lambda>b. (w1, \<lparr>hrStatus = 200, hrBody = b\<rparr>)) (body_bytes (resReads resp)))
      else if httpMethod = ''DELETE'' then
        (case sy_Request S ''DELETE'' ''http://localhost:11434/api/delete'' (json_Render (JObj [(''name'', JStr name)])) w of
           (w1, Inl err) \<Rightarrow> Some (w1, http_Error err 502)
         | (w1, Inr resp) \<Rightarrow> map_option (\<lambda>b. (w1, \<lparr>hrStatus = nat (resStatus resp), hrBody = b\<rparr>)) (body_bytes (resReads resp)))
      else Some (w, http_Error ''method not allowed'' 405))"

definition handleModelPull :: "'w system \<Rightarrow> string \<Rightarrow> string \<Rightarrow> 'w \<Rightarrow> ('w \<times> response) option" where
  "handleModelPull S httpMethod name w =
     (if httpMethod \<noteq> ''POST'' then Some (w, http_Error ''POST only'' 405)
      else (case sy_Request S ''POST'' ''http://localhost:11434/api/pull'' (json_Render (JObj [(''name'', JStr name), (''stream'', JBool True)])) w of
              (w1, Inl err) \<Rightarrow> Some (w1, http_Error err 502)
            | (w1, Inr resp) \<Rightarrow>
              map_option (\<lambda>out. sse_response (w1, out)) (output_lines (resReads resp))))"

text \<open>The list of models the page suggests; the texts are UTF-8.\<close>

record modelInfo =
  miName :: string
  miParams :: string
  miRAM :: string
  miDesc :: string
  miTags :: string
  miRP :: int
  miBest :: bool

definition modelInfo_json :: "modelInfo \<Rightarrow> json" where
  "modelInfo_json x = JObj ([(''name'', JStr (miName x)), (''params'', JStr (miParams x)), (''ram'', JStr (miRAM x)),
     (''desc'', JStr (miDesc x)), (''tags'', JStr (miTags x)), (''rp'', int_json (miRP x))] @
     (if miBest x then [(''best'', JBool True)] else []))"

definition recommendedModels :: "modelInfo list" where
  "recommendedModels =
    [
     \<lparr>miName = ''nemotron-mini'', miParams = ''4B'', miRAM = ''~3 GB'',
       miDesc = [CHR 0xE2, CHR 0xAD, CHR 0x90] @ '' Best small model. NVIDIA-tuned for roleplay and on-device chat. Fast, commercial-friendly, and handles persona instructions well. Recommended default.'',
       miTags = ''roleplay, lightweight, best'', miRP = 5, miBest = True\<rparr>,
     \<lparr>miName = ''llama3.2:3b'', miParams = ''3B'', miRAM = ''~2 GB'',
       miDesc = ''Meta'' @ [CHR 0x27] @ ''s compact model. Very fast and natural conversation. Great choice when two personas run on the same machine.'',
       miTags = ''chat, lightweight, fast'', miRP = 4, miBest = False\<rparr>,
     \<lparr>miName = ''qwen3:4b'', miParams = ''4B'', miRAM = ''~3 GB'',
       miDesc = ''Alibaba'' @ [CHR 0x27] @ ''s Qwen3. Strong instruction following, excellent bilingual (English + Chinese) support. Balanced speed and quality.'',
       miTags = ''bilingual, instruction, fast'', miRP = 4, miBest = False\<rparr>,
     \<lparr>miName = ''gemma2:2b'', miParams = ''2B'', miRAM = ''~2 GB'',
       miDesc = ''Google'' @ [CHR 0x27] @ ''s tiny model. Very fast responses. Best for low-spec machines or quick testing.'',
       miTags = ''lightweight, fast, testing'', miRP = 3, miBest = False\<rparr>,
     \<lparr>miName = ''phi3:mini'', miParams = ''3.8B'', miRAM = ''~3 GB'',
       miDesc = ''Microsoft'' @ [CHR 0x27] @ ''s small model. Surprisingly capable for its size. Good logic and conversation flow.'',
       miTags = ''compact, efficient'', miRP = 3, miBest = False\<rparr>,
     \<lparr>miName = ''llama3:8b'', miParams = ''8B'', miRAM = ''~5 GB'',
       miDesc = ''Meta'' @ [CHR 0x27] @ ''s mid-size model. Natural conversational tone, strong at staying in character. Solid quality on a 16 GB+ machine.'',
       miTags = ''chat, natural, mid-size'', miRP = 4, miBest = False\<rparr>,
     \<lparr>miName = ''mistral:7b'', miParams = ''7B'', miRAM = ''~4.5 GB'',
       miDesc = ''Fast, creative, expressive. Great for storytelling personas. Needs ~8 GB free RAM.'',
       miTags = ''creative, roleplay'', miRP = 4, miBest = False\<rparr>,
     \<lparr>miName = ''deepseek-r1:8b'', miParams = ''8B'', miRAM = ''~5 GB'',
       miDesc = ''Reasoning model '' @ [CHR 0xE2, CHR 0x80, CHR 0x94] @ '' not ideal for casual chat, it over-thinks. Keep for reasoning demos only.'',
       miTags = ''reasoning, slow'', miRP = 2, miBest = False\<rparr>
    ]"

definition handleRecommended :: response where
  "handleRecommended = json_response (JArr (map modelInfo_json recommendedModels))"

section \<open>A sample machine\<close>

text \<open>Ollama answers from question \<open>n\<close> on.  The state counts the questions.\<close>

definition sample_machine :: "string \<Rightarrow> string option \<Rightarrow> nat \<Rightarrow> nat system" where
  "sample_machine os bin n =
     \<lparr>sy_GOOS = os, sy_GOARCH = ''arm64'', sy_Getenv = (\<lambda>_. ''/home/al''), sy_TempDir = ''/tmp'',
      sy_LookPath = (\<lambda>p _. if p = ''ollama'' then bin else None), sy_Stat = (\<lambda>_ _. False),
      sy_Probe = (\<lambda>v. (Suc v, if v < n then Some ''refused'' else None)), sy_Sleep = (\<lambda>v. v),
      sy_Start = (\<lambda>_ v. (v, None)), sy_Run = (\<lambda>_ v. (v, \<lparr>runStart = None, runOutput = [(''done'', False), ([], True)], runWait = None\<rparr>)),
      sy_MkdirAll = (\<lambda>_ v. (v, None)), sy_Create = (\<lambda>_ v. (v, None)), sy_Write = (\<lambda>_ _ v. v), sy_Chmod = (\<lambda>_ v. v),
      sy_Get = (\<lambda>_ v. (v, Inr \<lparr>resStatus = 200, resLength = 2, resReads = [(''ab'', False), ([], True)]\<rparr>)),
      sy_Request = (\<lambda>_ _ _ v. (v, Inl ''refused''))\<rparr>"

section \<open>Waiting comes to an end\<close>

text \<open>An answer is the last thing that happened when a wait reports that Ollama is up.\<close>

definition answered :: "'w system \<Rightarrow> 'w \<Rightarrow> bool" where
  "answered S w' \<longleftrightarrow> (\<exists>v. sy_Probe S v = (w', None))"

lemma poll_answered: "poll S n w = (w', True) \<Longrightarrow> answered S w'"
  by (induction n arbitrary: w) (auto simp: answered_def split: prod.splits option.splits)

lemma start_and_wait_answered: "start_and_wait S cmd w = (w', True) \<Longrightarrow> answered S w'"
  by (auto simp: start_and_wait_def waitForOllama_def dest: poll_answered split: prod.splits option.splits)

lemma scan_paths_answered: "scan_paths S ps w = (w', True) \<Longrightarrow> answered S w'"
  by (induction ps arbitrary: w) (auto dest: start_and_wait_answered split: if_splits prod.splits bool.splits)

lemma open_app_answered: "open_app S w = (w', True) \<Longrightarrow> answered S w'"
  by (auto simp: open_app_def waitForOllama_def dest: poll_answered split: if_splits prod.splits)

text \<open>A machine that counts the questions put to Ollama.\<close>

definition counts_probes :: "'w system \<Rightarrow> ('w \<Rightarrow> nat) \<Rightarrow> bool" where
  "counts_probes S c \<longleftrightarrow>
     (\<forall>v. c (fst (sy_Probe S v)) = Suc (c v) \<and> c (sy_Sleep S v) = c v) \<and>
     (\<forall>cmd v. c (fst (sy_Start S cmd v)) = c v \<and> c (fst (sy_Run S cmd v)) = c v)"

lemma poll_count: "counts_probes S c \<Longrightarrow> c (fst (poll S n w)) \<le> c w + n"
proof (induction n arbitrary: w)
  case (Suc n)
  have "c (fst (sy_Probe S (sy_Sleep S w))) = Suc (c w)" using Suc.prems by (simp add: counts_probes_def)
  then show ?case
    using Suc.IH [OF Suc.prems, of "fst (sy_Probe S (sy_Sleep S w))"] by (auto split: prod.splits option.splits)
qed simp

lemma start_and_wait_count:
  assumes "counts_probes S c"
  shows "c (fst (start_and_wait S cmd w)) \<le> c w + 30"
proof -
  have "c (fst (sy_Start S cmd w)) = c w" using assms by (simp add: counts_probes_def)
  then show ?thesis
    using poll_count [OF assms, of 30 "fst (sy_Start S cmd w)"]
    by (auto simp: start_and_wait_def waitForOllama_def split: prod.splits option.splits)
qed

lemma scan_paths_count:
  assumes "counts_probes S c"
  shows "c (fst (scan_paths S ps w)) \<le> c w + 30 * length ps"
proof (induction ps arbitrary: w)
  case (Cons p ps)
  show ?case
    using start_and_wait_count [OF assms, of "serve p" w] Cons [of w] Cons [of "fst (start_and_wait S (serve p) w)"]
    by (auto split: prod.splits bool.splits)
qed simp

lemma open_app_count:
  assumes "counts_probes S c"
  shows "c (fst (open_app S w)) \<le> c w + 30"
proof -
  have "c (fst (sy_Run S [''open'', ''-a'', ''Ollama''] w)) = c w" using assms by (simp add: counts_probes_def)
  then show ?thesis
    using poll_count [OF assms, of 30 "fst (sy_Run S [''open'', ''-a'', ''Ollama''] w)"]
    by (auto simp: open_app_def waitForOllama_def split: prod.splits)
qed

text \<open>The three strategies one after another, and the questions each may ask.\<close>

lemma handleOllamaStart_cases:
  assumes "handleOllamaStart S ''POST'' w = (w', r)"
  shows "r = not_started \<or> answered S w'"
  using assms
  by (auto simp: handleOllamaStart_def answered_def [symmetric]
      dest!: start_and_wait_answered open_app_answered scan_paths_answered
      split: prod.splits bool.splits option.splits if_splits) (auto simp: answered_def)

lemma handleOllamaStart_count:
  assumes C: "counts_probes S c"
  shows "c (fst (handleOllamaStart S m w)) \<le> c w + 91"
proof -
  obtain w1 e where p: "sy_Probe S w = (w1, e)" by fastforce
  then have c1: "c w1 = Suc (c w)" using C by (auto simp: counts_probes_def) (metis fst_conv)
  obtain w2 b2 where s2: "(if ollamaBin S w1 \<noteq> [] then start_and_wait S (serve (ollamaBin S w1)) w1 else (w1, False)) = (w2, b2)"
    by fastforce
  obtain w3 b3 where s3: "(if sy_GOOS S = ''darwin'' then open_app S w2 else (w2, False)) = (w3, b3)" by fastforce
  obtain w4 b4 where s4: "(if sy_GOOS S = ''windows'' then scan_paths S (windows_paths S) w3 else (w3, False)) = (w4, b4)" by fastforce
  have c2: "c w2 \<le> c w1 + 30"
    using s2 start_and_wait_count [OF C, of "serve (ollamaBin S w1)" w1] by (auto split: if_splits)
  have c3: "c w3 \<le> c w2 + (if sy_GOOS S = ''darwin'' then 30 else 0)"
    using s3 open_app_count [OF C, of w2] by (auto split: if_splits)
  have c4: "c w4 \<le> c w3 + (if sy_GOOS S = ''windows'' then 60 else 0)"
    using s4 scan_paths_count [OF C, of "windows_paths S" w3] by (auto simp: windows_paths_def split: if_splits)
  have "c (fst (handleOllamaStart S m w)) \<in> {c w, c w1, c w2, c w3, c w4}"
    using p s2 s3 s4 by (auto simp only: handleOllamaStart_def prod.case fst_conv split: if_splits option.splits bool.splits)
  then show ?thesis using c1 c2 c3 c4 by (auto split: if_splits)
qed

text \<open>C32. Starting Ollama comes to an end and does not claim too much: a request asks Ollama at most 91 times whether it
  is up, whatever the system, the programs found and the answers; and the response is the error unless the last thing that
  happened was an answer of Ollama.  \<open>c\<close> counts the questions in the state of the machine.\<close>

theorem starting_ollama_ends:
  assumes "counts_probes S c" and "handleOllamaStart S ''POST'' w = (w', r)"
  shows "c w' \<le> c w + 91 \<and> (r = not_started \<or> (\<exists>v. sy_Probe S v = (w', None)))"
  using handleOllamaStart_count [OF assms(1), of "''POST''" w] handleOllamaStart_cases [OF assms(2)] assms(2)
  by (auto simp: answered_def)

theorem starting_ollama_ends_witness:
  "handleOllamaStart (sample_machine ''linux'' (Some ''/bin/ollama'') 3) ''POST'' 0 = (4, started ''cli'') \<and> (4::nat) \<le> 91"
proof -
  let ?S = "sample_machine ''linux'' (Some ''/bin/ollama'') 3"
  have "counts_probes ?S id" by (simp add: counts_probes_def sample_machine_def)
  moreover have "handleOllamaStart ?S ''POST'' 0 = (4, started ''cli'')" by code_simp
  ultimately show ?thesis using starting_ollama_ends [of ?S id 0 4 "started ''cli''"] by simp
qed

section \<open>Installing comes to an end\<close>

lemma copy_body_ends: "\<exists>r \<in> set rs. snd r \<Longrightarrow> copy_body S dest whole rs d l w \<noteq> None"
proof (induction rs arbitrary: d l w)
  case (Cons r rs)
  show ?case
  proof (cases "snd r")
    case False
    then have "\<exists>r \<in> set rs. snd r" using Cons.prems by simp
    with False show ?thesis by (cases r) (simp add: Let_def Cons.IH del: not_None_eq)
  qed (cases r, simp add: Let_def)
qed simp

lemma output_lines_ends: "\<exists>r \<in> set rs. snd r \<Longrightarrow> output_lines rs \<noteq> None"
  by (induction rs rule: output_lines.induct) (force simp: Let_def simp del: not_None_eq)+

text \<open>Every body the machine answers with, and every output of a program, has an end.\<close>

definition bodies_end :: "'w system \<Rightarrow> bool" where
  "bodies_end S \<longleftrightarrow>
     (\<forall>url v resp. snd (sy_Get S url v) = Inr resp \<longrightarrow> (\<exists>r \<in> set (resReads resp). snd r)) \<and>
     (\<forall>cmd v. \<exists>r \<in> set (runOutput (snd (sy_Run S cmd v))). snd r)"

lemma downloadFile_ends:
  assumes "bodies_end S"
  shows "downloadFile S url dest w \<noteq> None"
proof (cases "sy_Get S url w")
  case (Pair w1 g)
  show ?thesis
  proof (cases g)
    case (Inr resp)
    then have "\<exists>r \<in> set (resReads resp). snd r" using assms Pair by (simp add: bodies_end_def) (metis snd_conv)
    from copy_body_ends [OF this] show ?thesis using Pair Inr by (auto simp: downloadFile_def split: prod.splits option.splits)
  qed (use Pair in \<open>simp add: downloadFile_def\<close>)
qed

lemma runCmdStreaming_ends:
  assumes "bodies_end S"
  shows "runCmdStreaming S cmd w \<noteq> None"
proof -
  have "output_lines (runOutput (snd (sy_Run S cmd w))) \<noteq> None"
    using assms by (intro output_lines_ends) (simp add: bodies_end_def)
  then show ?thesis by (auto simp: runCmdStreaming_def split: prod.splits option.splits)
qed

lemma install_binary_ends: "bodies_end S \<Longrightarrow> install_binary S no_access url w \<noteq> None"
  using downloadFile_ends [of S] by (auto simp: install_binary_def Let_def simp del: not_None_eq split: prod.splits option.splits)

lemma windows_installer_ends: "bodies_end S \<Longrightarrow> windows_installer S w \<noteq> None"
  using downloadFile_ends by (simp add: windows_installer_def Let_def del: not_None_eq)

lemma try_command_ends: "bodies_end S \<Longrightarrow> (\<And>v. rest v \<noteq> None) \<Longrightarrow> try_command S announce cmd rest w \<noteq> None"
  using runCmdStreaming_ends [of S cmd w] by (auto simp: try_command_def split: prod.splits option.splits)

lemma with_lines_None [simp]: "with_lines first r = None \<longleftrightarrow> r = None"
  by (simp add: with_lines_def)

lemma install_for_os_ends: "bodies_end S \<Longrightarrow> install_for_os S w \<noteq> None"
  by (simp add: install_for_os_def installDarwin_def installLinux_def installWindows_def Let_def
      install_binary_ends windows_installer_ends try_command_ends del: not_None_eq)

text \<open>Whatever the machine then answers, the page is told that all is well once a program is found.\<close>

lemma install_ok_without_an_answer:
  "ollamaInstalled S w1 \<Longrightarrow> \<exists>w2 out1. finish_install S (w1, out) = (w2, out @ out1 @ [''[DONE] ok''])"
  by (auto simp: finish_install_def split: prod.splits)

text \<open>And without one, it gets no closing line after a download that went well.\<close>

lemma install_without_a_last_line: "\<not> ollamaInstalled S w1 \<Longrightarrow> finish_install S (w1, out) = (w1, out)"
  by (simp add: finish_install_def)

text \<open>C33. Installing Ollama comes to an end: when every download and every output of a program ends, the handler returns,
  having written what the installer of the system wrote; after it comes \<open>[DONE] ok\<close> when the program can be found then,
  and nothing otherwise.\<close>

theorem installing_ollama_ends:
  assumes "bodies_end S"
    and "\<not> ollamaInstalled S w" and "sy_GOOS S = ''darwin'' \<or> sy_GOOS S = ''linux'' \<or> sy_GOOS S = ''windows''"
  shows "\<exists>w1 out w' r. install_for_os S w = Some (w1, out) \<and> handleOllamaInstall S ''POST'' w = Some (w', r) \<and>
    (if ollamaInstalled S w1 then \<exists>out1. hrBody r = concat (map sse (out @ out1 @ [''[DONE] ok'']))
     else w' = w1 \<and> hrBody r = concat (map sse out))"
proof -
  obtain w1 out where i: "install_for_os S w = Some (w1, out)" using install_for_os_ends [OF assms(1), of w] by auto
  then have h: "handleOllamaInstall S ''POST'' w = Some (sse_response (finish_install S (w1, out)))"
    using assms by (simp only: handleOllamaInstall_def option.map) auto
  show ?thesis
  proof (cases "ollamaInstalled S w1")
    case True
    from install_ok_without_an_answer [OF this, of out] obtain w2 out1
      where "finish_install S (w1, out) = (w2, out @ out1 @ [''[DONE] ok''])" by blast
    with i h True show ?thesis by (auto simp: sse_response_def)
  next
    case False
    with i h install_without_a_last_line [OF this, of out] show ?thesis by (simp add: sse_response_def)
  qed
qed

theorem installing_ollama_ends_witness:
  "\<exists>w' r. handleOllamaInstall (sample_machine ''darwin'' None 3) ''POST'' 0 = Some (w', r)"
proof -
  let ?S = "sample_machine ''darwin'' None 3"
  have "bodies_end ?S" by (simp add: bodies_end_def sample_machine_def)
  moreover have "\<not> ollamaInstalled ?S 0" by code_simp
  moreover have "sy_GOOS ?S = ''darwin''" by (simp add: sample_machine_def)
  ultimately show ?thesis using installing_ollama_ends [of ?S 0] by blast
qed

text \<open>A download that breaks off is one that is complete: the length the server announced is only shown.\<close>

lemma broken_download_is_complete:
  assumes "sy_Get S url w = (w1, Inr resp)" and "resStatus resp = 200" and "sy_Create S dest w1 = (w2, None)"
    and "resReads resp = [(chunk, True)]"
  shows "\<exists>w3 out. downloadFile S url dest w = Some (w3, out @ [''Download complete!''], None)"
  using assms by (simp add: downloadFile_def Let_def)

end
