(* ===== verification/Room_Life.thy ===== *)
theory Room_Life
  imports Causality
begin

text \<open>
  Rooms one after another: a page joins a room, leaves it and joins the next, while calls that began in a room are still
  under way.

  The program shares objects by pointers.  A call of \<open>signAndPublish\<close> copies the pointers of its room before it takes
  \<open>sendMu\<close>, and the goroutines of a room read its channels until these are empty, also after \<open>resetRoom\<close>; but \<open>prevHash\<close> and
  the ledger new messages go to are fields of the one \<open>appState\<close>.  Here a room left keeps its objects in \<open>lfPast\<close>, under
  the number it had, and a call knows the number of its room.  A received message is taken by the ledger in one step and
  merged, shown and handed to the agent in another; \<open>Relay_message\<close> is both without anything in between, and a repair is one step.
\<close>

section \<open>State\<close>

text \<open>A call of \<open>signAndPublish\<close> with what it copied; its message once it is signed.\<close>

record ('sk, 'pk) send_call =
  scRoom :: nat
  scPeer :: string
  scIdentity :: "('sk, 'pk) Identity"
  scMsg :: "Message option"

text \<open>\<open>lfAccepts\<close> are the calls of \<open>acceptMessage\<close> whose message is in the ledger of their room already.  Three things are only
  noted: the messages \<open>signAndPublish\<close> signed, with the room of the call -- and not those the attack laboratory signs, which
  neither read nor write the chain faithfully: \<open>signedDemoMessage\<close> leaves \<open>prevHash\<close> alone, \<open>buildFloodDemoPayloads\<close> starts its own --,
  that the own counter wrapped around, and that a call signed after its room was left.\<close>

record ('sk, 'pk) life =
  lfApp :: "('sk, 'pk) appState"
  lfPast :: "nat \<Rightarrow> ('sk, 'pk) appState option"
  lfCalls :: "('sk, 'pk) send_call list"
  lfAccepts :: "(nat \<times> Message \<times> bool \<times> bool) list"
  lfSigned :: "(nat \<times> Message) list"
  lfWrapped :: bool
  lfStale :: bool

definition life_start :: "('sk, 'pk) life" where
  "life_start = \<lparr>lfApp = appState_start, lfPast = (\<lambda>_. None), lfCalls = [], lfAccepts = [], lfSigned = [], lfWrapped = False, lfStale = False\<rparr>"

definition live :: "nat \<Rightarrow> ('sk, 'pk) life \<Rightarrow> bool" where
  "live n L \<longleftrightarrow> asReady (lfApp L) \<and> asRoomNo (lfApp L) = n"

definition objects :: "nat \<Rightarrow> ('sk, 'pk) life \<Rightarrow> ('sk, 'pk) appState option" where
  "objects n L = (if live n L then Some (lfApp L) else lfPast L n)"

definition signed_in :: "nat \<Rightarrow> ('sk, 'pk) life \<Rightarrow> Message list" where
  "signed_in n L = map snd (filter (\<lambda>(k, _). k = n) (lfSigned L))"

section \<open>Steps\<close>

text \<open>\<open>signAndPublish\<close> in three parts: copying the pointers, the section under \<open>sendMu\<close>, and the rest.\<close>

definition life_call :: "('sk, 'pk) life \<Rightarrow> ('sk, 'pk) life" where
  "life_call L =
     (let st = lfApp L in
      if \<not> asReady st then L
      else (case (asRoom st, asVC st, asIdentity st) of
              (Some room, Some vc, Some identity) \<Rightarrow>
                L\<lparr>lfCalls := lfCalls L @ [\<lparr>scRoom = asRoomNo st, scPeer = asPeerID st, scIdentity = identity, scMsg = None\<rparr>]\<rparr>
            | _ \<Rightarrow> L))"

definition life_sign ::
  "('sk, 'pk) setting \<Rightarrow> string \<Rightarrow> string \<Rightarrow> string \<Rightarrow> bool \<Rightarrow> string list \<Rightarrow> bool \<Rightarrow> nat \<Rightarrow> ('sk, 'pk) life \<Rightarrow> ('sk, 'pk) life" where
  "life_sign W uuid senderName content isAI mentions mentionAll i L =
     (if i < length (lfCalls L) \<and> scMsg (lfCalls L ! i) = None then
        (let c = lfCalls L ! i; n = scRoom c in
         case objects n L of
           None \<Rightarrow> L
         | Some st \<Rightarrow>
           (case asVC st of
              None \<Rightarrow> L
            | Some vc \<Rightarrow>
              (case sign_section (s_P W) (s_sha256 W) uuid senderName content isAI mentions mentionAll (scIdentity c) vc
                      (st\<lparr>asPeerID := scPeer c, asPrevHash := asPrevHash (lfApp L)\<rparr>) of
                 (msg, st1) \<Rightarrow>
                   (let L1 = L\<lparr>lfCalls := (lfCalls L)[i := c\<lparr>scMsg := Some msg\<rparr>], lfSigned := lfSigned L @ [(n, msg)]\<rparr> in
                    if live n L
                    then L1\<lparr>lfApp := (lfApp L)\<lparr>asVC := asVC st1, asPrevHash := asPrevHash st1\<rparr>,
                           lfWrapped := (lfWrapped L \<or> wraps (lfApp L))\<rparr>
                    else L1\<lparr>lfApp := (lfApp L)\<lparr>asPrevHash := asPrevHash st1\<rparr>,
                           lfPast := (lfPast L)(n := Some (st\<lparr>asVC := asVC st1\<rparr>)), lfStale := True\<rparr>))))
      else L)"

definition life_publish :: "unicode \<Rightarrow> nat \<Rightarrow> bool \<Rightarrow> ('sk, 'pk) life \<Rightarrow> ('sk, 'pk) life" where
  "life_publish U i failed L =
     (if i < length (lfCalls L) then
        (let c = lfCalls L ! i; n = scRoom c; L1 = L\<lparr>lfCalls := take i (lfCalls L) @ drop (Suc i) (lfCalls L)\<rparr> in
         case scMsg c of
           None \<Rightarrow> L
         | Some msg \<Rightarrow>
           if live n L then L1\<lparr>lfApp := fst (publish_section U failed msg (lfApp L))\<rparr>
           else if failed then L1
           else L1\<lparr>lfPast := (lfPast L)(n := map_option (\<lambda>st. on_ledger (\<lambda>l. fst (Add U (Some msg) l)) (on_room (Publish msg) st)) (lfPast L n)),
                  lfApp := broadcastDiagnostics (broadcast (envelopeFromMessage msg (\<not> mIsAI msg)) (lfApp L))\<rparr>)
      else L)"

text \<open>Joining, each time with its own answers of the random generator and the network, and leaving.\<close>

definition life_join :: "('sk, 'pk) setting \<Rightarrow> wsEnvelope \<Rightarrow> ('sk, 'pk) life \<Rightarrow> ('sk, 'pk) life" where
  "life_join W env L = L\<lparr>lfApp := fst (init W env (lfApp L))\<rparr>"

definition life_leave :: "('sk, 'pk) life \<Rightarrow> ('sk, 'pk) life" where
  "life_leave L = L\<lparr>lfApp := resetRoom (lfApp L),
     lfPast := (if asReady (lfApp L) then (lfPast L)(asRoomNo (lfApp L) := Some (stopAI (lfApp L))) else lfPast L)\<rparr>"

text \<open>The goroutines of room \<open>n\<close>: they read the channels of that room and work on the current \<open>appState\<close>.\<close>

definition set_room :: "nat \<Rightarrow> ChatRoom \<Rightarrow> ('sk, 'pk) life \<Rightarrow> ('sk, 'pk) life" where
  "set_room n room L =
     (if live n L then L\<lparr>lfApp := (lfApp L)\<lparr>asRoom := Some room\<rparr>\<rparr>
      else L\<lparr>lfPast := (lfPast L)(n := map_option (\<lambda>st. st\<lparr>asRoom := Some room\<rparr>) (lfPast L n))\<rparr>)"

definition room_of :: "nat \<Rightarrow> ('sk, 'pk) life \<Rightarrow> ChatRoom option" where
  "room_of n L = Option.bind (objects n L) asRoom"

definition relay_message :: "unicode \<Rightarrow> (string \<Rightarrow> string) \<Rightarrow> time \<Rightarrow> nat \<Rightarrow> ('sk, 'pk) life \<Rightarrow> ('sk, 'pk) life" where
  "relay_message U quote now n L =
     (case room_of n L of
        None \<Rightarrow> L
      | Some room \<Rightarrow>
        (case crMessages room of
           [] \<Rightarrow> L
         | msg # rest \<Rightarrow>
           (let L1 = set_room n (room\<lparr>crMessages := rest\<rparr>) L
            in L1\<lparr>lfApp := fst (acceptMessage U quote now (Some msg) False True (lfApp L1))\<rparr>)))"

text \<open>The same with other steps in between.  The second part works on the objects the call copied, and on the one hub.\<close>

definition take_message :: "unicode \<Rightarrow> (string \<Rightarrow> string) \<Rightarrow> nat \<Rightarrow> ('sk, 'pk) life \<Rightarrow> ('sk, 'pk) life" where
  "take_message U quote n L =
     (case room_of n L of
        None \<Rightarrow> L
      | Some room \<Rightarrow>
        (case crMessages room of
           [] \<Rightarrow> L
         | msg # rest \<Rightarrow>
           (let L1 = set_room n (room\<lparr>crMessages := rest\<rparr>) L
            in case accept_ledger U quote msg (lfApp L1) of
                 (st1, ok) \<Rightarrow> L1\<lparr>lfApp := st1,
                   lfAccepts := (if ok then lfAccepts L1 @ [(asRoomNo (lfApp L1), msg, False, True)] else lfAccepts L1)\<rparr>)))"

definition finish_message :: "unicode \<Rightarrow> nat \<Rightarrow> time \<Rightarrow> ('sk, 'pk) life \<Rightarrow> ('sk, 'pk) life" where
  "finish_message U i now L =
     (if i < length (lfAccepts L)
      then (case lfAccepts L ! i of
              (n, m, self, trig) \<Rightarrow>
                (let L1 = L\<lparr>lfAccepts := take i (lfAccepts L) @ drop (Suc i) (lfAccepts L)\<rparr> in
                 if live n L then L1\<lparr>lfApp := accept_rest U now m self trig (lfApp L)\<rparr>
                 else L1\<lparr>lfPast := (lfPast L)(n := map_option
                               (\<lambda>st. to_agent U now trig m (st\<lparr>asVC := map_option (Merge (clock_of m)) (asVC st)\<rparr>)) (lfPast L n)),
                        lfApp := broadcastDiagnostics (broadcastSecurityTrace (ledger_accept_trace m)
                          (broadcast (envelopeFromMessage m self) (lfApp L)))\<rparr>))
      else L)"

definition answer_request :: "Control \<Rightarrow> ('sk, 'pk) appState \<Rightarrow> ChatRoom \<Rightarrow> ChatRoom" where
  "answer_request ctrl st room =
     (case asLedger st of
        None \<Rightarrow> room
      | Some ledger \<Rightarrow>
        (let requester = (if cForwardedBy ctrl \<noteq> [] then cForwardedBy ctrl else cFromPeerID ctrl);
             missing = MissingFrom (cKnownIDs ctrl) 80 ledger
         in if requester = asPeerID st \<or> missing = [] then room
            else PublishSyncResponse (cRequestID ctrl) (asPeerID st) missing room))"

definition relay_control :: "unicode \<Rightarrow> (string \<Rightarrow> string) \<Rightarrow> time \<Rightarrow> nat \<Rightarrow> ('sk, 'pk) life \<Rightarrow> ('sk, 'pk) life" where
  "relay_control U quote now n L =
     (case room_of n L of
        None \<Rightarrow> L
      | Some room \<Rightarrow>
        (case crControls room of
           [] \<Rightarrow> L
         | ctrl # rest \<Rightarrow>
           (let room1 = room\<lparr>crControls := rest\<rparr>; L1 = set_room n room1 L in
            if cKind ctrl = ''sync_request'' then set_room n (answer_request ctrl (lfApp L) room1) L1
            else if cKind ctrl = ''sync_response'' then L1\<lparr>lfApp := handleControl U quote now ctrl (lfApp L1)\<rparr>
            else L1)))"

text \<open>All other operations of a room in operation, as in \<open>perform_app\<close>; sending and receiving are above.\<close>

definition life_run :: "('sk, 'pk) life \<Rightarrow> ('sk, 'pk) run" where
  "life_run L = \<lparr>rApp = lfApp L, rFlight = [], rPending = [], rSigned = [], rWrapped = lfWrapped L\<rparr>"

fun separate :: "app_op \<Rightarrow> bool" where
  "separate (Sign_op uuid senderName content isAI mentions mentionAll) = True"
| "separate (Publish_op i failed) = True"
| "separate (Accept_add m self triggerAI) = True"
| "separate (Accept_rest i now) = True"
| "separate _ = False"

definition life_app :: "('sk, 'pk) setting \<Rightarrow> (string \<Rightarrow> string) \<Rightarrow> app_op \<Rightarrow> ('sk, 'pk) life \<Rightarrow> ('sk, 'pk) life" where
  "life_app W quote op L =
     (if asReady (lfApp L) \<and> \<not> separate op
      then L\<lparr>lfApp := rApp (perform_app W quote op (life_run L)), lfWrapped := rWrapped (perform_app W quote op (life_run L))\<rparr>
      else L)"

datatype ('sk, 'pk) life_op =
    Join_op "('sk, 'pk) setting" wsEnvelope
  | Leave_op
  | Call_op
  | Sign_call string string string bool "string list" bool nat
  | Publish_call nat bool
  | Relay_message time nat
  | Take_message nat
  | Finish_message nat time
  | Relay_control time nat
  | App_op app_op

fun perform_life :: "('sk, 'pk) setting \<Rightarrow> (string \<Rightarrow> string) \<Rightarrow> ('sk, 'pk) life_op \<Rightarrow> ('sk, 'pk) life \<Rightarrow> ('sk, 'pk) life" where
  "perform_life W quote (Join_op W1 env) L = life_join W1 env L"
| "perform_life W quote Leave_op L = life_leave L"
| "perform_life W quote Call_op L = life_call L"
| "perform_life W quote (Sign_call uuid senderName content isAI mentions mentionAll i) L =
     life_sign W uuid senderName content isAI mentions mentionAll i L"
| "perform_life W quote (Publish_call i failed) L = life_publish (s_U W) i failed L"
| "perform_life W quote (Relay_message now n) L = relay_message (s_U W) quote now n L"
| "perform_life W quote (Take_message n) L = take_message (s_U W) quote n L"
| "perform_life W quote (Finish_message i now) L = finish_message (s_U W) i now L"
| "perform_life W quote (Relay_control now n) L = relay_control (s_U W) quote now n L"
| "perform_life W quote (App_op op) L = life_app W quote op L"

section \<open>What the operations leave alone\<close>

definition channels :: "('sk, 'pk) appState \<Rightarrow> (Message list \<times> Control list) option" where
  "channels st = map_option (\<lambda>room. (crMessages room, crControls room)) (asRoom st)"

definition frame :: "('sk, 'pk) appState \<Rightarrow> bool \<times> nat \<times> string \<times> string \<times> (Message list \<times> Control list) option" where
  "frame st = (asReady st, asRoomNo st, asPeerID st, asPrevHash st, channels st)"

named_theorems frame_simps "operations that keep the frame"

lemma frame_broadcast [frame_simps]: "frame (broadcast env st) = frame st"
  by (simp add: frame_def channels_def broadcast_def)

lemma frame_diagnostics [frame_simps]: "frame (broadcastDiagnostics st) = frame st"
  by (simp add: broadcastDiagnostics_def frame_simps split: option.split)

lemma frame_trace [frame_simps]: "frame (broadcastSecurityTrace tr st) = frame st"
  by (simp add: broadcastSecurityTrace_def frame_simps)

lemma frame_on_ledger [frame_simps]: "frame (on_ledger f st) = frame st"
  by (simp add: frame_def channels_def on_ledger_def)

lemma frame_update [frame_simps]:
  "frame (st\<lparr>asLedger := l\<rparr>) = frame st" "frame (st\<lparr>asVC := v\<rparr>) = frame st" "frame (st\<lparr>asOrch := orch\<rparr>) = frame st"
  "frame (st\<lparr>asBatcher := b\<rparr>) = frame st" "frame (st\<lparr>asBatches := bs\<rparr>) = frame st"
  by (simp_all add: frame_def channels_def)

text \<open>Publishing leaves the channels alone.\<close>

lemma published_channels [simp]:
  "crMessages (Publish m room) = crMessages room" "crControls (Publish m room) = crControls room"
  "crMessages (PublishActivity name action active room) = crMessages room" "crControls (PublishActivity name action active room) = crControls room"
  "crMessages (PublishSyncRequest uuid p ids room) = crMessages room" "crControls (PublishSyncRequest uuid p ids room) = crControls room"
  "crMessages (PublishSyncResponse uuid p ms room) = crMessages room" "crControls (PublishSyncResponse uuid p ms room) = crControls room"
  by (simp_all add: Publish_def PublishActivity_def PublishSyncRequest_def PublishSyncResponse_def)

lemma frame_on_room:
  assumes "\<And>room. crMessages (f room) = crMessages room \<and> crControls (f room) = crControls room"
  shows "frame (on_room f st) = frame st"
  using assms by (simp add: frame_def channels_def on_room_def option.map_comp comp_def)

lemma frame_published [frame_simps]:
  "frame (on_room (Publish m) st) = frame st"
  "frame (on_room (PublishActivity name action active) st) = frame st"
  "asRoom st = Some room \<Longrightarrow> frame (st\<lparr>asRoom := Some (PublishSyncResponse uuid p ms room)\<rparr>) = frame st"
  "asRoom st = Some room \<Longrightarrow> frame (st\<lparr>asLedger := l, asRoom := Some (PublishSyncRequest uuid p ids room)\<rparr>) = frame st"
  by (simp_all add: frame_on_room) (simp_all add: frame_def channels_def)

lemma frame_to_agent [frame_simps]: "frame (to_agent U now trig msg st) = frame st"
  unfolding to_agent_def prod.case
  by (cases "asBatcher st"; cases "asOrch st") (simp_all add: frame_simps batcher_add_def split: prod.split)

lemma frame_accept_ledger [frame_simps]: "frame (fst (accept_ledger U quote m st)) = frame st"
  by (simp add: accept_ledger_def Let_def frame_simps split: option.split prod.split bool.split)

lemma frame_accept_rest [frame_simps]: "frame (accept_rest U now m self trig st) = frame st"
  by (simp add: accept_rest_def Let_def frame_simps)

lemma frame_acceptMessage [frame_simps]: "frame (fst (acceptMessage U quote now msg self trig st)) = frame st"
proof (cases msg)
  case (Some m)
  obtain st1 ok where "accept_ledger U quote m st = (st1, ok)" by (metis surj_pair)
  then show ?thesis using frame_accept_ledger [of U quote m st] Some by (cases ok) (simp_all add: acceptMessage_def frame_simps)
qed (simp add: acceptMessage_def)

lemma frame_accept_all [frame_simps]: "frame (fst (accept_all U quote now msgs st)) = frame st"
  by (induction msgs arbitrary: st) (simp_all add: split_beta frame_simps)

lemma frame_repair [frame_simps]: "frame (repair_begin st) = frame st" "frame (repair_end repaired st) = frame st"
  by (simp_all add: repair_begin_def repair_end_def frame_simps)

lemma frame_handleControl [frame_simps]: "frame (handleControl U quote now ctrl st) = frame st"
  by (simp add: handleControl_def Let_def split_beta frame_simps split: option.split)

lemma frame_requestSync [frame_simps]: "frame (requestSync uuid st) = frame st"
  by (simp add: requestSync_def Let_def frame_simps split: option.split)

lemma frame_sync_timeout [frame_simps]: "frame (sync_timeout no st) = frame st"
  by (simp add: sync_timeout_def frame_simps split: option.split)

lemma frame_handlers [frame_simps]:
  "frame (handleActivity act st) = frame st" "frame (handleRejected reject st) = frame st" "frame (handleTick st) = frame st"
  by (simp_all add: handleActivity_def handleRejected_def handleTick_def Let_def frame_simps split: option.split)

lemma frame_publish_section [frame_simps]: "frame (fst (publish_section U failed msg st)) = frame st"
  by (simp add: publish_section_def Let_def frame_simps)

lemma frame_signedDemoMessage [frame_simps]: "frame (fst (signedDemoMessage P uuid name content vcOverride st)) = frame st"
  by (simp add: signedDemoMessage_def Let_def frame_simps split: option.split)

text \<open>\<open>Others\<close> may fill the channels of the room, and the rest of the frame stays.\<close>

lemma frame_perform_app:
  "\<not> separate op \<Longrightarrow> (case op of Others room h orch b batches \<Rightarrow> False | _ \<Rightarrow> True) \<Longrightarrow> frame (rApp (perform_app W quote op r)) = frame (rApp r)"
  by (cases op) (simp_all add: on_app_def frame_simps)

lemma perform_app_clock:
  assumes "app_op_ok op" and "\<not> separate op" and "app_inv (rWrapped r) A Q (rApp r)"
  shows "app_inv (rWrapped (perform_app W quote op r)) A Q (rApp (perform_app W quote op r))"
proof (cases op)
  case (Others room h orch b batches)
  with assms(3) show ?thesis by (simp add: on_app_def app_inv_def)
qed (use assms in \<open>auto simp: on_app_def core_simps intro: signedDemoMessage_inv handleControl_inv requestSync_inv
  sync_timeout_inv handleRejected_inv repair_inv\<close>)

lemma frame_others: "frame (rApp (perform_app W quote (Others room h orch b batches) r)) =
    (asReady (rApp r), asRoomNo (rApp r), asPeerID (rApp r), asPrevHash (rApp r), Some (crMessages room, crControls room))"
  by (simp add: on_app_def frame_def channels_def)

section \<open>The chain of the own messages\<close>

definition hash_of :: "(string \<Rightarrow> string) \<Rightarrow> Message \<Rightarrow> string" where
  "hash_of sha256 m = (case Hash sha256 m of Inl _ \<Rightarrow> [] | Inr h \<Rightarrow> h)"

text \<open>Each message names the hash of the one before it, the first one \<open>prev\<close>.\<close>

fun chained :: "(string \<Rightarrow> string) \<Rightarrow> string \<Rightarrow> Message list \<Rightarrow> bool" where
  "chained sha256 prev [] = True"
| "chained sha256 prev (m # ms) = (mPrevHash m = prev \<and> chained sha256 (hash_of sha256 m) ms)"

definition chain_end :: "(string \<Rightarrow> string) \<Rightarrow> Message list \<Rightarrow> string" where
  "chain_end sha256 ms = (if ms = [] then [] else hash_of sha256 (last ms))"

lemma chained_snoc_from: "chained sha256 prev (ms @ [m]) =
    (chained sha256 prev ms \<and> mPrevHash m = (if ms = [] then prev else hash_of sha256 (last ms)))"
  by (induction ms arbitrary: prev) auto

lemma chained_snoc: "chained sha256 [] (ms @ [m]) = (chained sha256 [] ms \<and> mPrevHash m = chain_end sha256 ms)"
  by (simp add: chained_snoc_from chain_end_def)

lemma chain_end_snoc [simp]: "chain_end sha256 (ms @ [m]) = hash_of sha256 m"
  by (simp add: chain_end_def)

lemma sign_section_prev:
  "sign_section P sha256 uuid name content isAI mentions all identity vc st = (msg, st') \<Longrightarrow> asPrevHash st' = hash_of sha256 msg"
  by (auto simp: sign_section_def Let_def hash_of_def)

lemma sorted_snoc: "sorted_wrt (<) (xs @ [x]) = (sorted_wrt (<) xs \<and> (\<forall>y \<in> set xs. y < (x :: 'a :: order)))"
  by (simp add: sorted_wrt_append)

section \<open>The invariant\<close>

definition chan_ok :: "('sk, 'pk) appState \<Rightarrow> bool" where
  "chan_ok st \<longleftrightarrow> (\<forall>msgs ctrls. channels st = Some (msgs, ctrls) \<longrightarrow>
     (\<forall>m \<in> set msgs. clock_wf (mVectorClock m)) \<and>
     (\<forall>c \<in> set ctrls. \<forall>m. Some m \<in> set (cMessages c) \<longrightarrow> clock_wf (mVectorClock m)))"

definition call_ok :: "('sk, 'pk) life \<Rightarrow> ('sk, 'pk) send_call \<Rightarrow> bool" where
  "call_ok L c \<longleftrightarrow> scRoom c \<le> asRoomNo (lfApp L) \<and>
     (live (scRoom c) L \<longrightarrow> scPeer c = asPeerID (lfApp L) \<and> (\<forall>m. scMsg c = Some m \<longrightarrow> m \<in> set (signed_in (scRoom c) L)))"

definition chain_ok :: "(string \<Rightarrow> string) \<Rightarrow> ('sk, 'pk) life \<Rightarrow> bool" where
  "chain_ok sha256 L \<longleftrightarrow>
     (\<forall>n. chained sha256 [] (signed_in n L) \<and> (\<not> lfWrapped L \<longrightarrow> sorted_wrt (<) (map own_clock (signed_in n L)))) \<and>
     asPrevHash (lfApp L) = (if asReady (lfApp L) then chain_end sha256 (signed_in (asRoomNo (lfApp L)) L) else [])"

text \<open>The clock is ahead of every message signed in the room; the ledger does not matter here.\<close>

definition clock_ok :: "('sk, 'pk) life \<Rightarrow> bool" where
  "clock_ok L = app_inv (lfWrapped L) (set (signed_in (asRoomNo (lfApp L)) L)) UNIV (lfApp L)"

definition life_inv :: "(string \<Rightarrow> string) \<Rightarrow> ('sk, 'pk) life \<Rightarrow> bool" where
  "life_inv sha256 L \<longleftrightarrow>
     (asReady (lfApp L) \<longrightarrow> clock_ok L \<and> (\<forall>m \<in> set (signed_in (asRoomNo (lfApp L)) L). mSenderID m = asPeerID (lfApp L))) \<and>
     chan_ok (lfApp L) \<and> (\<forall>n st. lfPast L n = Some st \<longrightarrow> chan_ok st) \<and>
     (\<forall>(n, m) \<in> set (lfSigned L). n \<le> asRoomNo (lfApp L)) \<and>
     (\<forall>c \<in> set (lfCalls L). call_ok L c) \<and> (\<forall>(n, m, _) \<in> set (lfAccepts L). clock_wf (mVectorClock m)) \<and>
     (\<not> lfStale L \<longrightarrow> chain_ok sha256 L)"

text \<open>Messages come from the decoder, so their clocks are maps.\<close>

fun life_op_ok :: "('sk, 'pk) life_op \<Rightarrow> bool" where
  "life_op_ok (App_op op) = (app_op_ok op \<and>
     (case op of Others room h orch b batches \<Rightarrow>
        (\<forall>m \<in> set (crMessages room). clock_wf (mVectorClock m)) \<and>
        (\<forall>c \<in> set (crControls room). \<forall>m. Some m \<in> set (cMessages c) \<longrightarrow> clock_wf (mVectorClock m))
      | _ \<Rightarrow> True))"
| "life_op_ok _ = True"

section \<open>Every step keeps it\<close>

lemma frame_fields:
  "frame st = frame st' \<longleftrightarrow> asReady st = asReady st' \<and> asRoomNo st = asRoomNo st' \<and> asPeerID st = asPeerID st' \<and>
     asPrevHash st = asPrevHash st' \<and> channels st = channels st'"
  by (simp add: frame_def)

lemma signed_in_simps [simp]:
  "signed_in n (L\<lparr>lfApp := st\<rparr>) = signed_in n L" "signed_in n (L\<lparr>lfPast := past\<rparr>) = signed_in n L"
  "signed_in n (L\<lparr>lfCalls := calls\<rparr>) = signed_in n L" "signed_in n (L\<lparr>lfWrapped := w\<rparr>) = signed_in n L"
  "signed_in n (L\<lparr>lfStale := s\<rparr>) = signed_in n L" "signed_in n (L\<lparr>lfAccepts := accepts'\<rparr>) = signed_in n L"
  by (simp_all add: signed_in_def)

lemma signed_in_snoc: "signed_in n (L\<lparr>lfSigned := lfSigned L @ [(k, m)]\<rparr>) = (if k = n then signed_in n L @ [m] else signed_in n L)"
  by (simp add: signed_in_def)

lemma signed_in_set: "m \<in> set (signed_in n L) \<longleftrightarrow> (n, m) \<in> set (lfSigned L)"
  by (force simp: signed_in_def)

lemma chan_ok_frame: "channels st = channels st' \<Longrightarrow> chan_ok st = chan_ok st'"
  by (simp add: chan_ok_def)

lemma life_inv_app:
  assumes inv: "life_inv h L" and frame: "frame st = frame (lfApp L)"
    and run: "asReady (lfApp L) \<Longrightarrow> app_inv (w) (set (signed_in (asRoomNo (lfApp L)) L)) UNIV (st)"
    and w: "lfWrapped L \<Longrightarrow> w"
  shows "life_inv h (L\<lparr>lfApp := st, lfWrapped := w\<rparr>)"
  using inv run w frame [unfolded frame_fields] chan_ok_frame [of st "lfApp L"]
  unfolding life_inv_def by (auto simp: clock_ok_def call_ok_def live_def chain_ok_def)

corollary life_inv_app1:
  assumes "life_inv h L" and "frame st = frame (lfApp L)"
    and "asReady (lfApp L) \<Longrightarrow> app_inv (lfWrapped L) (set (signed_in (asRoomNo (lfApp L)) L)) UNIV (st)"
  shows "life_inv h (L\<lparr>lfApp := st\<rparr>)"
  using life_inv_app [OF assms] by simp

lemma life_inv_past:
  assumes "life_inv h L" and "\<And>st. st' = Some st \<Longrightarrow> chan_ok st"
  shows "life_inv h (L\<lparr>lfPast := (lfPast L)(n := st')\<rparr>)"
  using assms unfolding life_inv_def by (auto simp: clock_ok_def call_ok_def live_def chain_ok_def)

lemma life_inv_calls:
  assumes "life_inv h L" and "\<And>c. c \<in> set calls \<Longrightarrow> call_ok L c"
  shows "life_inv h (L\<lparr>lfCalls := calls\<rparr>)"
  using assms unfolding life_inv_def by (auto simp: clock_ok_def call_ok_def live_def chain_ok_def)

lemma life_clock: "life_inv h L \<Longrightarrow> asReady (lfApp L) \<Longrightarrow> app_inv (lfWrapped L) (set (signed_in (asRoomNo (lfApp L)) L)) UNIV (lfApp L)"
  by (simp add: life_inv_def clock_ok_def)

lemma life_call_inv: "life_inv h L \<Longrightarrow> life_inv h (life_call L)"
  by (auto simp: life_call_def Let_def split: option.split intro!: life_inv_calls)
    (auto simp: life_inv_def call_ok_def)

lemma init_frame:
  assumes "init W env st0 = (st, err)"
  shows "asReady st0 \<Longrightarrow> st = st0"
    and "\<not> asReady st0 \<Longrightarrow> err \<noteq> None \<Longrightarrow> \<not> asReady st \<and> asRoomNo st = asRoomNo st0 \<and> asPrevHash st = asPrevHash st0 \<and> channels st = channels st0"
    and "\<not> asReady st0 \<Longrightarrow> err = None \<Longrightarrow> asReady st \<and> asRoomNo st = Suc (asRoomNo st0) \<and> asPrevHash st = asPrevHash st0 \<and> channels st = Some ([], [])"
  using assms by (auto simp: init_def Let_def channels_def JoinChatRoom_def split: sum.splits option.splits)

lemma life_join_inv:
  assumes inv: "life_inv h L"
  shows "life_inv h (life_join W1 env L)"
proof -
  obtain st err where init: "init W1 env (lfApp L) = (st, err)" by (metis surj_pair)
  note frame = init_frame [OF init]
  have join: "life_join W1 env L = L\<lparr>lfApp := st\<rparr>" by (simp add: life_join_def init)
  show ?thesis
  proof (cases "asReady (lfApp L)")
    case True
    then show ?thesis using frame(1) inv by (simp add: join)
  next
    case out: False
    show ?thesis
    proof (cases "err = None")
      case True
      have new: "signed_in (asRoomNo st) L = []"
        using inv frame(3) [OF out True] unfolding life_inv_def signed_in_def by (auto simp: filter_empty_conv)
      have "run_inv (run_start st)" using init_inv [of W1 env "lfApp L" st] init out True by simp
      then have "app_inv False {} {} st" by (simp add: run_inv_def run_start_def unmerged_def)
      then have run: "app_inv (lfWrapped L) {} UNIV st" by (auto simp: app_inv_def known_def)
      have calls: "call_ok (L\<lparr>lfApp := st\<rparr>) c" if "c \<in> set (lfCalls L)" for c
        using inv that frame(3) [OF out True] unfolding life_inv_def by (fastforce simp: call_ok_def live_def)
      show ?thesis
        using inv run new calls out frame(3) [OF out True] unfolding join life_inv_def
        by (auto simp: clock_ok_def chain_ok_def chan_ok_def chain_end_def)
    next
      case False
      from frame(2) [OF out this] inv out show ?thesis unfolding join life_inv_def
        by (auto simp: chain_ok_def call_ok_def live_def chan_ok_def)
    qed
  qed
qed

lemma life_leave_inv:
  assumes "life_inv h L"
  shows "life_inv h (life_leave L)"
proof -
  have "channels (stopAI st) = channels st" for st :: "('a, 'b) appState" by (simp add: channels_def stopAI_def)
  then have "chan_ok (stopAI (lfApp L))" using assms chan_ok_frame by (auto simp: life_inv_def)
  with assms show ?thesis unfolding life_inv_def life_leave_def
    by (auto simp: resetRoom_def live_def call_ok_def chain_ok_def chan_ok_def channels_def)
qed

lemma life_app_inv:
  assumes ok: "life_op_ok (App_op op)" and inv: "life_inv h L"
  shows "life_inv h (life_app W quote op L)"
proof (cases "asReady (lfApp L) \<and> \<not> separate op")
  case True
  let ?r = "perform_app W quote op (life_run L)"
  have r: "rApp (life_run L) = lfApp L" "rWrapped (life_run L) = lfWrapped L" by (simp_all add: life_run_def)
  have run: "app_inv (rWrapped ?r) (set (signed_in (asRoomNo (lfApp L)) L)) UNIV (rApp ?r)"
    using ok True life_clock [OF inv] by (intro perform_app_clock) (auto simp: r)
  have w: "rWrapped ?r" if "lfWrapped L"
    using that True by (cases op) (simp_all add: life_run_def on_app_def)
  show ?thesis
  proof (cases "case op of Others room g orch b batches \<Rightarrow> False | _ \<Rightarrow> True")
    case keeps: True
    have "frame (rApp ?r) = frame (lfApp L)" using frame_perform_app [OF _ keeps, of W quote "life_run L"] True by (simp add: r)
    from life_inv_app [OF inv this run w] True show ?thesis by (simp add: life_app_def)
  next
    case False
    then obtain room g orch b batches where op: "op = Others room g orch b batches" by (auto split: app_op.splits)
    have fr: "frame (rApp ?r) = (asReady (lfApp L), asRoomNo (lfApp L), asPeerID (lfApp L), asPrevHash (lfApp L),
        Some (crMessages room, crControls room))" unfolding op frame_others by (simp add: r)
    have "chan_ok (rApp ?r)" using ok fr by (simp add: op chan_ok_def frame_def)
    with inv run fr True w show ?thesis
      unfolding life_inv_def by (auto simp: life_app_def clock_ok_def chain_ok_def call_ok_def live_def frame_def)
  qed
qed (use inv in \<open>auto simp: life_app_def\<close>)

lemma life_publish_inv:
  assumes inv: "life_inv h L"
  shows "life_inv h (life_publish U i failed L)"
proof (cases "i < length (lfCalls L) \<and> scMsg (lfCalls L ! i) \<noteq> None")
  case True
  then obtain msg where msg: "scMsg (lfCalls L ! i) = Some msg" by auto
  let ?n = "scRoom (lfCalls L ! i)" and ?calls = "take i (lfCalls L) @ drop (Suc i) (lfCalls L)"
  have c: "call_ok L (lfCalls L ! i)" using inv True by (simp add: life_inv_def)
  have inv1: "life_inv h (L\<lparr>lfCalls := ?calls\<rparr>)"
    using inv by (intro life_inv_calls) (auto simp: life_inv_def dest: in_set_takeD in_set_dropD)
  show ?thesis
  proof (cases "live ?n L")
    case here: True
    then have mem: "msg \<in> set (signed_in (asRoomNo (lfApp L)) L)" using c msg by (auto simp: call_ok_def live_def)
    have "app_inv (lfWrapped L) (set (signed_in (asRoomNo (lfApp L)) L)) UNIV (fst (publish_section U failed msg (lfApp L)))"
      using life_clock [OF inv] here mem publish_section_inv by (auto simp: live_def)
    with life_inv_app1 [OF inv1, of "fst (publish_section U failed msg (lfApp L))"] show ?thesis
      using True here msg by (simp add: life_publish_def Let_def frame_simps)
  next
    case False
    let ?st = "broadcastDiagnostics (broadcast (envelopeFromMessage msg (\<not> mIsAI msg)) (lfApp L))"
    let ?past = "map_option (\<lambda>st. on_ledger (\<lambda>l. fst (Add U (Some msg) l)) (on_room (Publish msg) st)) (lfPast L ?n)"
    have "frame (on_ledger (\<lambda>l. fst (Add U (Some msg) l)) (on_room (Publish msg) st)) = frame st" for st :: "('a, 'b) appState"
      by (simp add: frame_simps)
    then have past: "chan_ok st" if "?past = Some st" for st
      using that inv chan_ok_frame unfolding life_inv_def frame_fields by blast
    have inv2: "life_inv h (L\<lparr>lfCalls := ?calls, lfPast := (lfPast L)(?n := ?past)\<rparr>)"
      using life_inv_past [OF inv1, of ?past ?n] past by (simp del: map_option_eq_Some)
    have "life_inv h ((L\<lparr>lfCalls := ?calls, lfPast := (lfPast L)(?n := ?past)\<rparr>)\<lparr>lfApp := ?st\<rparr>)"
      using life_clock [OF inv] by (intro life_inv_app1 [OF inv2]) (simp_all add: frame_simps core_simps)
    with inv1 True False msg show ?thesis by (simp add: life_publish_def Let_def)
  qed
qed (use inv in \<open>auto simp: life_publish_def Let_def split: option.split\<close>)

lemma life_inv_set_room:
  assumes inv: "life_inv h L" and room: "room_of n L = Some room"
    and sub: "set (crMessages room1) \<subseteq> set (crMessages room)" "set (crControls room1) \<subseteq> set (crControls room)"
  shows "life_inv h (set_room n room1 L)"
proof (cases "live n L")
  case True
  then have here: "asReady (lfApp L)" "asRoom (lfApp L) = Some room" using room by (simp_all add: room_of_def objects_def live_def)
  have "app_inv (lfWrapped L) (set (signed_in (asRoomNo (lfApp L)) L)) UNIV ((lfApp L)\<lparr>asRoom := Some room1\<rparr>)"
    using life_clock [OF inv here(1)] by (simp add: app_inv_def)
  moreover have "chan_ok ((lfApp L)\<lparr>asRoom := Some room1\<rparr>)"
    using inv here(2) sub by (fastforce simp: life_inv_def chan_ok_def channels_def)
  ultimately show ?thesis
    using inv True unfolding life_inv_def by (auto simp: set_room_def clock_ok_def chain_ok_def call_ok_def live_def)
next
  case False
  then obtain st where st: "lfPast L n = Some st" "asRoom st = Some room"
    using room by (auto simp: room_of_def objects_def bind_eq_Some_conv)
  then have "chan_ok (st\<lparr>asRoom := Some room1\<rparr>)"
    using inv sub by (fastforce simp: life_inv_def chan_ok_def channels_def)
  with life_inv_past [OF inv, of "Some (st\<lparr>asRoom := Some room1\<rparr>)" n] False st show ?thesis by (simp add: set_room_def)
qed

text \<open>What waits in the channels of a room came from the decoder.\<close>

lemma room_chan_ok:
  assumes inv: "life_inv h L" and room: "room_of n L = Some room"
  shows "m \<in> set (crMessages room) \<Longrightarrow> clock_wf (mVectorClock m)"
    and "c \<in> set (crControls room) \<Longrightarrow> Some m \<in> set (cMessages c) \<Longrightarrow> clock_wf (mVectorClock m)"
proof -
  obtain st where "objects n L = Some st" "asRoom st = Some room" using room by (auto simp: room_of_def bind_eq_Some_conv)
  moreover from this(1) inv have "chan_ok st" by (auto simp: life_inv_def objects_def split: if_splits)
  ultimately show "m \<in> set (crMessages room) \<Longrightarrow> clock_wf (mVectorClock m)"
    and "c \<in> set (crControls room) \<Longrightarrow> Some m \<in> set (cMessages c) \<Longrightarrow> clock_wf (mVectorClock m)"
    by (auto simp: chan_ok_def channels_def)
qed

lemma relay_message_inv:
  assumes inv: "life_inv h L"
  shows "life_inv h (relay_message U quote now n L)"
proof (cases "room_of n L")
  case (Some room)
  show ?thesis
  proof (cases "crMessages room")
    case (Cons msg rest)
    let ?L = "set_room n (room\<lparr>crMessages := rest\<rparr>) L"
    have inv1: "life_inv h ?L" by (rule life_inv_set_room [OF inv Some]) (use Cons in auto)
    have "clock_wf (mVectorClock msg)" using room_chan_ok(1) [OF inv Some] Cons by simp
    then have "life_inv h (?L\<lparr>lfApp := fst (acceptMessage U quote now (Some msg) False True (lfApp ?L))\<rparr>)"
      using life_clock [OF inv1] by (intro life_inv_app1 [OF inv1])
        (auto simp: frame_simps intro: acceptMessage_inv)
    with Some Cons show ?thesis by (simp add: relay_message_def Let_def)
  qed (use inv Some in \<open>simp add: relay_message_def\<close>)
qed (use inv in \<open>simp add: relay_message_def\<close>)

lemma life_inv_accepts:
  assumes "life_inv h L" and "\<And>n m x. (n, m, x) \<in> set accepts' \<Longrightarrow> clock_wf (mVectorClock m)"
  shows "life_inv h (L\<lparr>lfAccepts := accepts'\<rparr>)"
  using assms unfolding life_inv_def by (auto simp: clock_ok_def call_ok_def live_def chain_ok_def)

lemma take_message_inv:
  assumes inv: "life_inv h L"
  shows "life_inv h (take_message U quote n L)"
proof (cases "room_of n L")
  case (Some room)
  show ?thesis
  proof (cases "crMessages room")
    case (Cons msg rest)
    let ?L = "set_room n (room\<lparr>crMessages := rest\<rparr>) L"
    have inv1: "life_inv h ?L" by (rule life_inv_set_room [OF inv Some]) (use Cons in auto)
    have wf: "clock_wf (mVectorClock msg)" using room_chan_ok(1) [OF inv Some] Cons by simp
    obtain st1 ok where step: "accept_ledger U quote msg (lfApp ?L) = (st1, ok)" by (metis surj_pair)
    have "frame st1 = frame (lfApp ?L)" using frame_accept_ledger [of U quote msg "lfApp ?L"] step by simp
    moreover have "app_inv w A UNIV st1" if "app_inv w A UNIV (lfApp ?L)" for w A
      using accept_ledger_inv [OF that step] by (cases ok) simp_all
    ultimately have inv2: "life_inv h (?L\<lparr>lfApp := st1\<rparr>)"
      using life_clock [OF inv1] by (intro life_inv_app1 [OF inv1]) auto
    from inv1 have "clock_wf (mVectorClock m)" if "(k, m, x) \<in> set (lfAccepts ?L)" for k m x
      using that unfolding life_inv_def by fastforce
    with wf have "life_inv h (?L\<lparr>lfApp := st1, lfAccepts := (if ok then lfAccepts ?L @ [(asRoomNo (lfApp ?L), msg, False, True)] else lfAccepts ?L)\<rparr>)"
      by (intro life_inv_accepts [OF inv2]) (auto split: if_splits)
    with Some Cons step show ?thesis by (simp add: take_message_def Let_def)
  qed (use inv Some in \<open>simp add: take_message_def\<close>)
qed (use inv in \<open>simp add: take_message_def\<close>)

lemma finish_message_inv:
  assumes inv: "life_inv h L"
  shows "life_inv h (finish_message U i now L)"
proof (cases "i < length (lfAccepts L)")
  case True
  obtain n m self trig where m: "lfAccepts L ! i = (n, m, self, trig)" by (metis surj_pair)
  let ?rest = "take i (lfAccepts L) @ drop (Suc i) (lfAccepts L)"
  have wfs: "clock_wf (mVectorClock m')" if "(k, m', x) \<in> set (lfAccepts L)" for k m' x
    using that inv unfolding life_inv_def by fastforce
  have wf: "clock_wf (mVectorClock m)" using wfs nth_mem [OF True] by (simp add: m)
  have inv1: "life_inv h (L\<lparr>lfAccepts := ?rest\<rparr>)"
    using wfs by (intro life_inv_accepts [OF inv]) (auto dest: in_set_takeD in_set_dropD)
  show ?thesis
  proof (cases "live n L")
    case here: True
    have "life_inv h ((L\<lparr>lfAccepts := ?rest\<rparr>)\<lparr>lfApp := accept_rest U now m self trig (lfApp L)\<rparr>)"
      using life_clock [OF inv] wf
      by (intro life_inv_app1 [OF inv1]) (auto simp: frame_simps intro: accept_rest_inv [of _ _ UNIV])
    with True here m show ?thesis by (simp add: finish_message_def)
  next
    case False
    let ?past = "map_option (\<lambda>st. to_agent U now trig m (st\<lparr>asVC := map_option (Merge (clock_of m)) (asVC st)\<rparr>)) (lfPast L n)"
    let ?app = "broadcastDiagnostics (broadcastSecurityTrace (ledger_accept_trace m) (broadcast (envelopeFromMessage m self) (lfApp L)))"
    have "frame (to_agent U now trig m (st\<lparr>asVC := map_option (Merge (clock_of m)) (asVC st)\<rparr>)) = frame st" for st :: "('a, 'b) appState"
      by (simp add: frame_simps)
    then have past: "chan_ok st" if "?past = Some st" for st
      using that inv chan_ok_frame unfolding life_inv_def frame_fields by blast
    have inv2: "life_inv h (L\<lparr>lfAccepts := ?rest, lfPast := (lfPast L)(n := ?past)\<rparr>)"
      using life_inv_past [OF inv1, of ?past n] past by (simp del: map_option_eq_Some)
    have "life_inv h ((L\<lparr>lfAccepts := ?rest, lfPast := (lfPast L)(n := ?past)\<rparr>)\<lparr>lfApp := ?app\<rparr>)"
      using life_clock [OF inv] by (intro life_inv_app1 [OF inv2]) (simp_all add: frame_simps core_simps)
    with True False m show ?thesis by (simp add: finish_message_def)
  qed
qed (use inv in \<open>simp add: finish_message_def\<close>)

lemma answer_request_channels [simp]:
  "crMessages (answer_request ctrl st room) = crMessages room" "crControls (answer_request ctrl st room) = crControls room"
  by (simp_all add: answer_request_def Let_def split: option.split)

lemma room_of_set_room: "room_of n L = Some room \<Longrightarrow> room_of n (set_room n room1 L) = Some room1"
  by (auto simp: room_of_def set_room_def objects_def live_def bind_eq_Some_conv)

lemma relay_control_inv:
  assumes inv: "life_inv h L"
  shows "life_inv h (relay_control U quote now n L)"
proof (cases "room_of n L")
  case (Some room)
  show ?thesis
  proof (cases "crControls room")
    case (Cons ctrl rest)
    let ?room = "room\<lparr>crControls := rest\<rparr>"
    let ?L = "set_room n ?room L"
    have inv1: "life_inv h ?L" by (rule life_inv_set_room [OF inv Some]) (use Cons in auto)
    have request: "life_inv h (set_room n (answer_request ctrl (lfApp L) ?room) ?L)"
      by (rule life_inv_set_room [OF inv1 room_of_set_room [OF Some]]) simp_all
    have "\<forall>m. Some m \<in> set (cMessages ctrl) \<longrightarrow> clock_wf (mVectorClock m)" using room_chan_ok(2) [OF inv Some, of ctrl] Cons by auto
    then have "life_inv h (?L\<lparr>lfApp := handleControl U quote now ctrl (lfApp ?L)\<rparr>)"
      using life_clock [OF inv1] by (intro life_inv_app1 [OF inv1])
        (simp_all add: frame_simps handleControl_inv)
    with inv1 request Some Cons show ?thesis by (simp add: relay_control_def Let_def)
  qed (use inv Some in \<open>simp add: relay_control_def\<close>)
qed (use inv in \<open>simp add: relay_control_def\<close>)

subsection \<open>Signing\<close>

lemma sign_section_state:
  assumes "sign_section P sha256 uuid name content isAI mentions all identity vc st = (msg, st')"
  shows "st\<lparr>asVC := asVC st', asPrevHash := asPrevHash st'\<rparr> = st'" "mPrevHash msg = asPrevHash st"
    "asReady st' = asReady st" "asRoomNo st' = asRoomNo st" "asPeerID st' = asPeerID st" "channels st' = channels st" "mSenderID msg = asPeerID st"
    "asVC st' = Some (Increment (asPeerID st) vc)"
  using assms by (auto simp: sign_section_def Let_def NewMessage_def channels_def)

lemma tick_greater:
  assumes "(k :: u64) \<noteq> - 1" and "x \<le> k"
  shows "x < k + 1"
proof -
  have "1 + k \<noteq> 0" using assms(1) by (metis add.commute add_eq_0_iff2)
  then have "unat (k + 1) = Suc (unat k)" using unatSuc [of k] by (simp add: add.commute)
  with assms(2) show ?thesis by (simp add: word_le_nat_alt word_less_nat_alt)
qed

text \<open>A message signed in the current room is newer than all before it, and continues the chain.\<close>

lemma sign_current:
  assumes inv: "life_inv h L" and ready: "asReady (lfApp L)" and vc: "asVC (lfApp L) = Some vc"
    and sign: "sign_section P h uuid name content isAI mentions all identity vc (lfApp L) = (msg, st1)"
  shows "app_inv (lfWrapped L \<or> wraps (lfApp L)) (insert msg (set (signed_in (asRoomNo (lfApp L)) L))) UNIV st1"
    and "\<not> lfWrapped L \<Longrightarrow> \<not> wraps (lfApp L) \<Longrightarrow> \<forall>m \<in> set (signed_in (asRoomNo (lfApp L)) L). own_clock m < own_clock msg"
proof -
  let ?A = "set (signed_in (asRoomNo (lfApp L)) L)"
  have app: "app_inv (lfWrapped L) ?A UNIV (lfApp L)" using life_clock [OF inv ready] .
  show "app_inv (lfWrapped L \<or> wraps (lfApp L)) (insert msg ?A) UNIV st1" by (rule sign_section_inv [OF app vc sign])
  show "\<forall>m \<in> ?A. own_clock m < own_clock msg" if w: "\<not> lfWrapped L" "\<not> wraps (lfApp L)"
  proof
    fix m assume m: "m \<in> ?A"
    let ?p = "asPeerID (lfApp L)"
    have wf: "go_wf (clock vc)" and known: "counters (clock_of m) \<le> counters (clock vc)"
      using app vc w(1) m by (auto simp: app_inv_def known_def)
    note signed = sign_section_result [OF sign wf]
    have "counters (clock_of m) ?p < counters (clock vc) ?p + 1"
      using w(2) vc known by (intro tick_greater) (auto simp: wraps_def le_fun_def)
    moreover have "own_clock m = counters (clock_of m) ?p" using inv ready m by (auto simp: life_inv_def counters_def)
    moreover have "own_clock msg = counters (clock vc) ?p + 1"
      using signed(1,3) counters_Increment [of ?p vc] by (simp add: clock_of_def counters_def fun_eq_iff)
    ultimately show "own_clock m < own_clock msg" by simp
  qed
qed

lemma life_inv_sign_current:
  assumes inv: "life_inv h L" and ready: "asReady (lfApp L)" and vc: "asVC (lfApp L) = Some vc"
    and sign: "sign_section P h uuid name content isAI mentions all identity vc (lfApp L) = (msg, st1)"
  shows "life_inv h (L\<lparr>lfSigned := lfSigned L @ [(asRoomNo (lfApp L), msg)], lfApp := st1, lfWrapped := (lfWrapped L \<or> wraps (lfApp L))\<rparr>)"
proof -
  let ?n = "asRoomNo (lfApp L)"
  note same = sign_section_state [OF sign] and prev = sign_section_prev [OF sign]
  note new = sign_current [OF inv ready vc sign]
  have chain: "chain_ok h (L\<lparr>lfSigned := lfSigned L @ [(?n, msg)], lfApp := st1, lfWrapped := (lfWrapped L \<or> wraps (lfApp L))\<rparr>)" if "\<not> lfStale L"
  proof -
    from that inv have old: "chain_ok h L" by (simp add: life_inv_def)
    then have "mPrevHash msg = chain_end h (signed_in ?n L)" using same(2) ready by (simp add: chain_ok_def)
    with old new(2) ready same(3,4) prev show ?thesis
      by (auto simp: chain_ok_def signed_in_snoc chained_snoc sorted_snoc)
  qed
  show ?thesis
    using inv new(1) chain same(3-7) ready chan_ok_frame [OF same(6)] unfolding life_inv_def
    by (auto simp: clock_ok_def signed_in_snoc call_ok_def live_def)
qed

lemma life_sign_inv:
  assumes inv: "life_inv (s_sha256 W) L"
  shows "life_inv (s_sha256 W) (life_sign W uuid name content isAI mentions all i L)"
proof (cases "i < length (lfCalls L) \<and> scMsg (lfCalls L ! i) = None \<and>
    (\<exists>st. objects (scRoom (lfCalls L ! i)) L = Some st \<and> asVC st \<noteq> None)")
  case True
  define c where "c = lfCalls L ! i"
  obtain st vc where c: "i < length (lfCalls L)" "scMsg c = None" "objects (scRoom c) L = Some st" "asVC st = Some vc"
    using True by (auto simp: c_def)
  have call: "call_ok L c" using inv c(1) by (simp add: life_inv_def c_def)
  let ?h = "s_sha256 W"
  obtain msg st1 where sign: "sign_section (s_P W) ?h uuid name content isAI mentions all (scIdentity c) vc
      (st\<lparr>asPeerID := scPeer c, asPrevHash := asPrevHash (lfApp L)\<rparr>) = (msg, st1)" by (metis surj_pair)
  let ?calls = "(lfCalls L)[i := c\<lparr>scMsg := Some msg\<rparr>]"
  have elem: "c' = c\<lparr>scMsg := Some msg\<rparr> \<or> c' \<in> set (lfCalls L)" if "c' \<in> set ?calls" for c'
    using that set_update_subset_insert [of "lfCalls L" i "c\<lparr>scMsg := Some msg\<rparr>"] by blast
  show ?thesis
  proof (cases "live (scRoom c) L")
    case True
    then have here: "asReady (lfApp L)" "scRoom c = asRoomNo (lfApp L)" "st = lfApp L" "scPeer c = asPeerID (lfApp L)"
      using c(3) call by (auto simp: live_def objects_def call_ok_def)
    have sign1: "sign_section (s_P W) ?h uuid name content isAI mentions all (scIdentity c) vc (lfApp L) = (msg, st1)"
      using sign here by simp
    let ?L = "L\<lparr>lfSigned := lfSigned L @ [(asRoomNo (lfApp L), msg)], lfApp := st1, lfWrapped := (lfWrapped L \<or> wraps (lfApp L))\<rparr>"
    have inv1: "life_inv ?h ?L" using life_inv_sign_current [OF inv here(1) _ sign1] c(4) here(3) by simp
    have same: "asReady st1" "asRoomNo st1 = asRoomNo (lfApp L)" "asPeerID st1 = asPeerID (lfApp L)"
      using sign_section_state [OF sign1] here(1) by simp_all
    have "call_ok ?L (c\<lparr>scMsg := Some msg\<rparr>)"
      using call same here by (simp add: call_ok_def live_def signed_in_set)
    moreover have "call_ok ?L c'" if "c' \<in> set (lfCalls L)" for c' using that inv1 by (simp add: life_inv_def)
    ultimately have "call_ok ?L c'" if "c' \<in> set ?calls" for c' using elem [OF that] by blast
    then have "life_inv ?h (?L\<lparr>lfCalls := ?calls\<rparr>)" by (rule life_inv_calls [OF inv1])
    moreover have "life_sign W uuid name content isAI mentions all i L = ?L\<lparr>lfCalls := ?calls\<rparr>"
      using c sign1 here True sign_section_state(1) [OF sign1] by (simp add: life_sign_def Let_def c_def [symmetric])
    ultimately show ?thesis by simp
  next
    case False
    then have past: "lfPast L (scRoom c) = Some st" using c(3) by (simp add: objects_def)
    let ?L = "L\<lparr>lfCalls := ?calls, lfSigned := lfSigned L @ [(scRoom c, msg)], lfApp := (lfApp L)\<lparr>asPrevHash := asPrevHash st1\<rparr>,
      lfPast := (lfPast L)(scRoom c := Some (st\<lparr>asVC := asVC st1\<rparr>)), lfStale := True\<rparr>"
    have "chan_ok st" using inv past by (auto simp: life_inv_def)
    then have chan: "chan_ok (st\<lparr>asVC := asVC st1\<rparr>)" by (simp add: chan_ok_def channels_def)
    have signed: "signed_in n ?L = signed_in n L" if "n \<noteq> scRoom c" for n using that by (simp add: signed_in_def)
    have run: "app_inv w A Q ((lfApp L)\<lparr>asPrevHash := x\<rparr>) = app_inv w A Q (lfApp L)" for x A Q w by (simp add: app_inv_def)
    have clk: "asReady (lfApp L) \<Longrightarrow> clock_ok ?L \<and> (\<forall>m \<in> set (signed_in (asRoomNo (lfApp L)) ?L). mSenderID m = asPeerID (lfApp L))"
      using inv False signed [of "asRoomNo (lfApp L)"] by (simp add: life_inv_def clock_ok_def live_def run)
    have "call_ok ?L (c\<lparr>scMsg := Some msg\<rparr>)" using call False by (auto simp: call_ok_def live_def)
    moreover have "call_ok ?L c'" if "c' \<in> set (lfCalls L)" for c'
    proof -
      have "call_ok L c'" using that inv by (simp add: life_inv_def)
      then show ?thesis by (auto simp: call_ok_def live_def signed_in_set)
    qed
    ultimately have calls: "call_ok ?L c'" if "c' \<in> set ?calls" for c' using elem [OF that] by blast
    have "chan_ok ((lfApp L)\<lparr>asPrevHash := asPrevHash st1\<rparr>)" using inv by (simp add: life_inv_def chan_ok_def channels_def)
    moreover have "\<forall>(n, m) \<in> set (lfSigned L @ [(scRoom c, msg)]). n \<le> asRoomNo (lfApp L)"
      using inv call by (simp add: life_inv_def call_ok_def)
    moreover have "\<forall>n st'. ((lfPast L)(scRoom c := Some (st\<lparr>asVC := asVC st1\<rparr>))) n = Some st' \<longrightarrow> chan_ok st'"
      using inv chan by (simp add: life_inv_def)
    moreover have "\<forall>(n, m, _) \<in> set (lfAccepts L). clock_wf (mVectorClock m)" using inv by (simp add: life_inv_def)
    ultimately have "life_inv ?h ?L" using clk calls unfolding life_inv_def by simp
    moreover have "life_sign W uuid name content isAI mentions all i L = ?L"
      using c sign False by (simp add: life_sign_def Let_def c_def [symmetric])
    ultimately show ?thesis by simp
  qed
next
  case False
  then have "life_sign W uuid name content isAI mentions all i L = L"
    by (cases "objects (scRoom (lfCalls L ! i)) L") (auto simp: life_sign_def Let_def)
  with inv show ?thesis by simp
qed

text \<open>One operation; the locale gives every sequence.\<close>

interpretation life: invariant_machine "perform_life W quote" life_op_ok "life_inv (s_sha256 W)" for W quote
proof unfold_locales
  show "life_op_ok op \<Longrightarrow> life_inv (s_sha256 W) L \<Longrightarrow> life_inv (s_sha256 W) (perform_life W quote op L)" for op L
    by (cases op) (simp_all only: perform_life.simps life_join_inv life_leave_inv life_call_inv life_sign_inv life_publish_inv
        relay_message_inv take_message_inv finish_message_inv relay_control_inv life_app_inv)
qed

lemma life_start_inv: "life_inv h life_start"
  by (simp add: life_inv_def life_start_def appState_start_def chan_ok_def channels_def chain_ok_def signed_in_def)

section \<open>Properties\<close>

text \<open>C2. The messages \<open>signAndPublish\<close> signs in a room -- those of the user and of the agent, not those the attack laboratory signs
  with the same key, which reuse \<open>prevHash\<close> or begin a chain of their own -- form a chain, whatever happens: messages received
  and repaired, calls of \<open>signAndPublish\<close> under way at the same time, attacks launched, rooms left and joined again.  The first
  one names no predecessor, each other one the hash of the one signed before it, and their counters grow strictly unless one
  wrapped around.  The exception is a call that signs after its room was left.\<close>

theorem own_messages_form_a_chain:
  assumes "list_all life_op_ok ops" and "L = fold (perform_life W quote) ops life_start" and "\<not> lfStale L"
  shows "chained (s_sha256 W) [] (signed_in n L) \<and> (lfWrapped L \<or> sorted_wrt (<) (map own_clock (signed_in n L)))"
proof -
  have "life_inv (s_sha256 W) L" unfolding assms(2) by (rule life.run_inv [OF assms(1) life_start_inv])
  with assms(3) show ?thesis by (auto simp: life_inv_def chain_ok_def)
qed

text \<open>Leaving and joining again, seen from the room left.\<close>

lemma leave_join:
  assumes ready: "asReady (lfApp L)" and n: "asRoomNo (lfApp L) = n"
    and join: "init W1 env (resetRoom (lfApp L)) = (st, None)"
    and L1: "L1 = life_join W1 env (life_leave L)"
  shows "lfApp L1 = st" "lfPast L1 n = Some (stopAI (lfApp L))" "\<not> live n L1" "asReady st" "asRoomNo st = Suc n"
    "asLedger st = Some (NewLedger DefaultMaxMessages)" "asVC st = Some VectorClock_New"
    "asBatcher st = Some NewBatcher" "asRoom st \<noteq> None" "asIdentity st \<noteq> None" "asOrch st \<noteq> None"
proof -
  have out: "\<not> asReady (resetRoom (lfApp L))" "asRoomNo (resetRoom (lfApp L)) = n" using n by (simp_all add: resetRoom_def)
  note joined = init_joined [OF join out(1)] and fr = init_frame(3) [OF join out(1) refl]
  show "lfApp L1 = st" "lfPast L1 n = Some (stopAI (lfApp L))" "asReady st" "asRoomNo st = Suc n"
    "asLedger st = Some (NewLedger DefaultMaxMessages)" "asVC st = Some VectorClock_New"
    "asBatcher st = Some NewBatcher" "asRoom st \<noteq> None" "asIdentity st \<noteq> None" "asOrch st \<noteq> None"
    using joined fr out join ready n by (simp_all add: L1 life_join_def life_leave_def)
  then show "\<not> live n L1" by (simp add: live_def)
qed

lemma accepted_is_shown:
  assumes "asLedger st = Some l" and "accepts (Some m) l" and "asBatcher st = Some b" and "Batcher_Add (aiMessageFromTypes m) now b = ([], b1)"
    and "st1 = fst (acceptMessage U quote now (Some m) False True st)"
  shows "\<forall>(c, frames) \<in> set (hubClients (asHub st1)). wsEnvelope_Marshal (envelopeFromMessage m False) \<in> set frames"
    and "asLedger st1 = Some (insert_message U m l)" and "asBatcher st1 = Some b1"
  using assms
  by (auto simp: acceptMessage_eq AddWithReason_accept Let_def to_agent_def batcher_add_def broadcast_def broadcastDiagnostics_def
      broadcastSecurityTrace_def hub_broadcast_def safeConn_write_def ledger_accept_trace_def hand_over_def split: prod.splits option.splits)

text \<open>C16. A room left leaks into the next one.  The goroutine that reads the messages of a room goes on until its channel is
  empty, and hands them to the application as it is then: a message that waited when the room was left is accepted by
  the ledger of the next room, shown on the pages there, and collected for the new agent.\<close>

theorem left_room_leaks:
  assumes "asReady (lfApp L)" and "asRoomNo (lfApp L) = n" and "asRoom (lfApp L) = Some room" and "crMessages room = m # rest"
    and "mID m \<noteq> []" and "init W1 env (resetRoom (lfApp L)) = (st, None)"
    and "L1 = fold (perform_life W quote) [Leave_op, Join_op W1 env, Relay_message now n] L"
  shows "asReady (lfApp L1) \<and> asRoomNo (lfApp L1) = Suc n \<and>
    (\<exists>l b. asLedger (lfApp L1) = Some l \<and> mID m \<in> lIds l \<and> asBatcher (lfApp L1) = Some b \<and> bMessages b = [aiMessageFromTypes m]) \<and>
    (\<forall>(c, frames) \<in> set (hubClients (asHub (lfApp L1))). wsEnvelope_Marshal (envelopeFromMessage m False) \<in> set frames)"
proof -
  define L0 where "L0 = life_join W1 env (life_leave L)"
  note next_room = leave_join [OF assms(1,2,6) L0_def]
  have room: "room_of n L0 = Some room"
    using next_room(2,3) assms(3) by (simp add: room_of_def objects_def stopAI_def)
  let ?st1 = "fst (acceptMessage (s_U W) quote now (Some m) False True st)"
  have app: "lfApp L1 = ?st1"
    using next_room(1,3) room assms(4) by (simp add: assms(7) L0_def [symmetric] relay_message_def Let_def set_room_def)
  have acc: "accepts (Some m) (NewLedger DefaultMaxMessages)" using assms(5) by (simp add: accepts_def NewLedger_def)
  have "Batcher_Add x now NewBatcher = ([], added x now NewBatcher) \<and> bMessages (added x now NewBatcher) = [x]" for x :: ChatMessage
    by (simp add: Batcher_Add_added capacityTrigger_def) (simp add: NewBatcher_def added_def Let_def stop_timer_def)
  then obtain b1 where b1: "Batcher_Add (aiMessageFromTypes m) now NewBatcher = ([], b1)" "bMessages b1 = [aiMessageFromTypes m]"
    by blast
  note shown = accepted_is_shown [OF next_room(6) acc next_room(8) b1(1) refl, of "s_U W" quote]
  have fr: "frame ?st1 = frame st" by (simp add: frame_simps)
  have kept: "overflow (NewLedger DefaultMaxMessages) = 0" by (simp add: overflow_def NewLedger_def DefaultMaxMessages_def)
  show ?thesis
    using shown b1(2) fr next_room(4,5) by (simp add: app frame_fields insert_message_simps kept)
qed

lemma init_peer:
  assumes "init W env st0 = (st, None)" and "\<not> asReady st0" and "GenerateIdentity (s_P W) = Inr identity"
  shows "asPeerID st = p_String (s_P W) (PeerID identity)"
  using assms by (auto simp: init_def Let_def split: sum.splits option.splits)

lemma hash_of_ne:
  assumes "\<And>d. sha256 d \<noteq> []"
  shows "hash_of sha256 m \<noteq> []"
proof -
  have "sha256 (projr (SignableBytes m)) \<noteq> []" by (rule assms)
  then obtain c cs where "sha256 (projr (SignableBytes m)) = c # cs" by (auto simp: neq_Nil_conv)
  then show ?thesis by (simp add: hash_of_def Hash_def SignableBytes_def hex_EncodeToString_def hex_byte_def)
qed

text \<open>A call takes the pointers of the room in operation.\<close>

lemma life_call_joined:
  assumes "asReady (lfApp L)" and "asRoom (lfApp L) = Some room" and "asVC (lfApp L) = Some vc" and "asIdentity (lfApp L) = Some identity"
  shows "life_call L = L\<lparr>lfCalls := lfCalls L @
    [\<lparr>scRoom = asRoomNo (lfApp L), scPeer = asPeerID (lfApp L), scIdentity = identity, scMsg = None\<rparr>]\<rparr>"
  using assms by (simp add: life_call_def Let_def)

text \<open>What a call signs, in the room in operation and in one that was left.\<close>

lemma life_sign_live:
  assumes c: "i < length (lfCalls L)" "scMsg (lfCalls L ! i) = None" "live (scRoom (lfCalls L ! i)) L" "scPeer (lfCalls L ! i) = asPeerID (lfApp L)"
    and vc: "asVC (lfApp L) = Some vc" and L1: "L1 = life_sign W uuid name content isAI mentions all i L"
  shows "\<exists>msg. lfSigned L1 = lfSigned L @ [(asRoomNo (lfApp L), msg)] \<and>
    mPrevHash msg = asPrevHash (lfApp L) \<and> mSenderID msg = asPeerID (lfApp L) \<and> lfStale L1 = lfStale L \<and>
    lfCalls L1 = (lfCalls L)[i := (lfCalls L ! i)\<lparr>scMsg := Some msg\<rparr>] \<and>
    lfApp L1 = (lfApp L)\<lparr>asVC := Some (Increment (asPeerID (lfApp L)) vc), asPrevHash := hash_of (s_sha256 W) msg\<rparr>"
proof -
  obtain msg st1 where sign: "sign_section (s_P W) (s_sha256 W) uuid name content isAI mentions all (scIdentity (lfCalls L ! i)) vc (lfApp L) = (msg, st1)"
    by (metis surj_pair)
  note st1 = sign_section_state [OF sign] sign_section_prev [OF sign]
  have "(lfApp L)\<lparr>asPeerID := scPeer (lfCalls L ! i), asPrevHash := asPrevHash (lfApp L)\<rparr> = lfApp L" using c(4) by simp
  with c sign vc st1(8,9) have "lfSigned L1 = lfSigned L @ [(asRoomNo (lfApp L), msg)] \<and> lfStale L1 = lfStale L \<and>
    lfCalls L1 = (lfCalls L)[i := (lfCalls L ! i)\<lparr>scMsg := Some msg\<rparr>] \<and>
    lfApp L1 = (lfApp L)\<lparr>asVC := Some (Increment (asPeerID (lfApp L)) vc), asPrevHash := hash_of (s_sha256 W) msg\<rparr>"
    by (simp add: L1 life_sign_def Let_def objects_def) (simp add: live_def)
  with st1(2,7) show ?thesis by blast
qed

lemma life_sign_past:
  assumes c: "i < length (lfCalls L)" "lfCalls L ! i = \<lparr>scRoom = n, scPeer = p, scIdentity = identity, scMsg = None\<rparr>" "\<not> live n L"
    and st: "lfPast L n = Some st" "asVC st = Some vc"
  shows "\<exists>msg. lfSigned (life_sign W uuid name content isAI mentions all i L) = lfSigned L @ [(n, msg)] \<and> mSenderID msg = p \<and>
    lfApp (life_sign W uuid name content isAI mentions all i L) = (lfApp L)\<lparr>asPrevHash := hash_of (s_sha256 W) msg\<rparr> \<and>
    length (lfCalls (life_sign W uuid name content isAI mentions all i L)) = length (lfCalls L)"
proof -
  obtain msg st1 where sign: "sign_section (s_P W) (s_sha256 W) uuid name content isAI mentions all identity vc
      (st\<lparr>asPeerID := p, asPrevHash := asPrevHash (lfApp L)\<rparr>) = (msg, st1)"
    by (metis surj_pair)
  have "mSenderID msg = p" using sign_section_state(7) [OF sign] by simp
  moreover note sign_section_prev [OF sign]
  ultimately show ?thesis using c st sign by (simp add: life_sign_def Let_def objects_def)
qed

text \<open>C17. A call of \<open>signAndPublish\<close> that is under way when its room is left taints the next one: it stores the hash of its
  message in \<open>prevHash\<close>, which \<open>resetRoom\<close> has already cleared, so that the first message of the peer in the next room
  names as its predecessor a message of another room that another peer sent: every room has a new key, and what is assumed is
  that the new key has another peer identifier and that hashes are not empty.\<close>

theorem call_under_way_taints_the_next_room:
  assumes "asReady (lfApp L)" and "asRoomNo (lfApp L) = n" and "asVC (lfApp L) = Some vc" and "\<forall>(k, m) \<in> set (lfSigned L). k \<le> n"
    and "i < length (lfCalls L)" and "lfCalls L ! i = \<lparr>scRoom = n, scPeer = asPeerID (lfApp L), scIdentity = identity, scMsg = None\<rparr>"
    and "L1 = fold (perform_life W quote) [Leave_op, Sign_call uuid name content isAI mentions all i, Join_op W1 env, Call_op,
      Sign_call uuid1 name1 content1 isAI1 mentions1 all1 (length (lfCalls L))] L"
    and "\<And>prev. snd (init W1 env ((resetRoom (lfApp L))\<lparr>asPrevHash := prev\<rparr>)) = None" and "\<And>d. s_sha256 W d \<noteq> []"
    and "GenerateIdentity (s_P W1) = Inr fresh" and "p_String (s_P W1) (PeerID fresh) \<noteq> asPeerID (lfApp L)"
  shows "\<exists>old new. signed_in n L1 = signed_in n L @ [old] \<and> signed_in (Suc n) L1 = [new] \<and>
    mSenderID old = asPeerID (lfApp L) \<and> mSenderID new = asPeerID (lfApp L1) \<and> mSenderID old \<noteq> mSenderID new \<and>
    mPrevHash new = hash_of (s_sha256 W) old \<and> mPrevHash new \<noteq> []"
proof -
  define L2 where "L2 = life_leave L"
  define L3 where "L3 = life_sign W uuid name content isAI mentions all i L2"
  define L4 where "L4 = life_join W1 env L3"
  define L5 where "L5 = life_call L4"
  have L1: "L1 = life_sign W uuid1 name1 content1 isAI1 mentions1 all1 (length (lfCalls L)) L5"
    by (simp add: assms(7) L2_def L3_def L4_def L5_def)
  have L2: "lfSigned L2 = lfSigned L" "lfCalls L2 = lfCalls L" "lfApp L2 = resetRoom (lfApp L)" "lfPast L2 n = Some (stopAI (lfApp L))"
      "\<not> live n L2" using assms(1,2) by (simp_all add: L2_def life_leave_def live_def resetRoom_def)
  have vc: "asVC (stopAI (lfApp L)) = Some vc" using assms(3) by (simp add: stopAI_def)
  have "\<exists>old. lfSigned L3 = lfSigned L @ [(n, old)] \<and> mSenderID old = asPeerID (lfApp L) \<and>
      lfApp L3 = (resetRoom (lfApp L))\<lparr>asPrevHash := hash_of (s_sha256 W) old\<rparr> \<and> length (lfCalls L3) = length (lfCalls L)"
    using life_sign_past [of i L2 n "asPeerID (lfApp L)" identity "stopAI (lfApp L)" vc W uuid name content isAI mentions all]
      L2 vc assms(5,6) by (simp add: L3_def)
  then obtain old where old: "lfSigned L3 = lfSigned L @ [(n, old)]" "mSenderID old = asPeerID (lfApp L)"
      "lfApp L3 = (resetRoom (lfApp L))\<lparr>asPrevHash := hash_of (s_sha256 W) old\<rparr>" "length (lfCalls L3) = length (lfCalls L)"
    by blast
  obtain st err where init: "init W1 env (lfApp L3) = (st, err)" by (metis surj_pair)
  have out: "\<not> asReady (lfApp L3)" by (simp add: old(3) resetRoom_def)
  have L4: "lfApp L4 = st" "lfSigned L4 = lfSigned L3" "lfCalls L4 = lfCalls L3" by (simp_all add: L4_def life_join_def init)
  have keeps: "asPeerID (lfApp (life_sign W u na co ai me al j L')) = asPeerID (lfApp L')" for u na co ai me al j L'
    by (simp add: life_sign_def Let_def split: option.split prod.split)
  have err: "err = None" using assms(8) [of "hash_of (s_sha256 W) old"] init by (simp add: old(3))
  note joined = init_joined [OF init [unfolded err] out] and fr = init_frame(3) [OF init out err]
  have ready: "asReady st" by (rule joined(1))
  obtain room identity1 where objs: "asRoom st = Some room" "asIdentity st = Some identity1" using joined by auto
  have number: "asRoomNo st = Suc n" "asPrevHash st = hash_of (s_sha256 W) old" using fr assms(2) by (simp_all add: old(3) resetRoom_def)
  have L5: "L5 = L4\<lparr>lfCalls := lfCalls L3 @ [\<lparr>scRoom = Suc n, scPeer = asPeerID st, scIdentity = identity1, scMsg = None\<rparr>]\<rparr>"
    using life_call_joined [of L4] L4 ready objs joined(4) number by (simp add: L5_def)
  have "lfCalls L5 ! length (lfCalls L) = \<lparr>scRoom = Suc n, scPeer = asPeerID st, scIdentity = identity1, scMsg = None\<rparr>"
    by (simp add: L5 old(4) [symmetric])
  then have "\<exists>new. lfSigned L1 = lfSigned L5 @ [(Suc n, new)] \<and> mPrevHash new = hash_of (s_sha256 W) old \<and> mSenderID new = asPeerID st"
    using life_sign_live [of "length (lfCalls L)" L5 VectorClock_New L1 W uuid1 name1 content1 isAI1 mentions1 all1]
      L1 L4 number ready joined(4) old(4) by (auto simp: L5 live_def)
  then obtain new where new: "lfSigned L1 = lfSigned L5 @ [(Suc n, new)]" "mPrevHash new = hash_of (s_sha256 W) old" "mSenderID new = asPeerID st"
    by blast
  have peer: "asPeerID (lfApp L1) = asPeerID st" by (simp add: L1 keeps L5 L4)
  have other: "asPeerID st = p_String (s_P W1) (PeerID fresh)" by (rule init_peer [OF init [unfolded err] out assms(10)])
  have none: "signed_in (Suc n) L = []" using assms(4) by (auto simp: signed_in_def filter_empty_conv)
  have "signed_in k L1 = signed_in k L @ (if k = n then [old] else []) @ (if k = Suc n then [new] else [])" for k
    using new(1) old(1) L4(2) by (simp add: signed_in_def L5)
  with none have "signed_in n L1 = signed_in n L @ [old]" "signed_in (Suc n) L1 = [new]" by simp_all
  with new old(2) peer other assms(11) hash_of_ne [of "s_sha256 W" old, OF assms(9)] show ?thesis by auto
qed

section \<open>Nothing binds a message to its room\<close>

text \<open>The topic is not among the signed bytes, and neither the validator nor the read loop looks at it: what one room accepts and
  hands over, another room with the same history accepts and hands over as well.\<close>

abbreviation topic :: "string \<Rightarrow> ChatRoom \<Rightarrow> ChatRoom" where
  "topic t cr \<equiv> cr\<lparr>crTopicName := t\<rparr>"

lemma recordRejected_topic: "recordRejected pid reason (topic t cr) = topic t (recordRejected pid reason cr)"
  by (simp add: recordRejected_def)

lemma verifyMessage_topic: "verifyMessage P msg (topic t cr) = map_prod (topic t) id (verifyMessage P msg cr)"
  by (simp add: verifyMessage_def split_beta)

lemma verify_all_topic: "verify_all P msgs (topic t cr) = map_option (map_prod id (topic t)) (verify_all P msgs cr)"
proof (induction msgs arbitrary: cr)
  case (Cons msg msgs)
  obtain cr1 ok where v: "verifyMessage P msg cr = (cr1, ok)" by (metis surj_pair)
  have v': "verifyMessage P msg (topic t cr) = (topic t cr1, ok)" by (simp only: verifyMessage_topic v map_prod_simp id_apply)
  show ?case
    unfolding verify_all.simps v v' prod.case Cons.IH recordRejected_topic option.map_comp
    by (auto simp: map_option_case split: option.splits prod.splits)
qed simp

lemma validator_topic:
  "validator P J sha256 quote data from now (topic t cr) = map_prod (topic t) id (validator P J sha256 quote data from now cr)"
  by (simp add: validator_def emitSecurityTrace_def Let_def split: prod.split option.split)

lemma readLoop_step_topic: "readLoop_step P e (topic t cr) = map_option (topic t) (readLoop_step P e cr)"
proof (cases "verify_all P (cMessages (fst (Control_Unmarshal (snd e)))) cr")
qed (simp_all add: readLoop_step_def verify_all_topic verifyMessage_topic recordRejected_topic Let_def split_beta split: option.split)

section \<open>Witnesses\<close>

text \<open>The samples join a room with the sample setting, and call \<open>signAndPublish\<close> from there.\<close>

definition sample_life :: "(string, string) life" where
  "sample_life = life_join sample_setting wsEnvelope_zero life_start"

lemma sample_life_app: "lfApp sample_life = sample_state" "lfCalls sample_life = []" "lfSigned sample_life = []" "\<not> lfStale sample_life"
  using sample_init by (simp_all add: sample_life_def life_join_def life_start_def)

lemma sample_room_no: "asRoomNo sample_state = 1"
  using init_frame(3) [OF sample_init] by (simp add: appState_start_def)

text \<open>The next room has a key of its own.\<close>

definition next_setting :: "(string, string) setting" where
  "next_setting = sample_setting\<lparr>s_P := toy\<lparr>p_GenerateEd25519Key := Inr (''n'', ''n'')\<rparr>\<rparr>"

lemma sample_rejoin:
  "snd (init next_setting wsEnvelope_zero ((resetRoom st)\<lparr>asPrevHash := prev\<rparr>)) = None"
  "snd (init sample_setting wsEnvelope_zero (resetRoom st)) = None"
  "GenerateIdentity (s_P next_setting) = Inr (toy_id ''n'')" "p_String (s_P next_setting) (PeerID (toy_id ''n'')) = ''n''"
  by (simp_all add: resetRoom_def init_def Let_def GenerateIdentity_def next_setting_def sample_setting_def toy_def toy_id_def NewNode_def sample_net_def)

definition sample_call :: "(string, string) send_call" where
  "sample_call = \<lparr>scRoom = 1, scPeer = ''k'', scIdentity = toy_id ''k'', scMsg = None\<rparr>"

lemma sample_call: "asReady (lfApp L) \<Longrightarrow> lfApp L = sample_state \<Longrightarrow> life_call L = L\<lparr>lfCalls := lfCalls L @ [sample_call]\<rparr>"
  using sample_joined sample_peer sample_room_no life_call_joined [of L] by (auto simp: sample_call_def)

definition sample_ops :: "(string, string) life_op list" where
  "sample_ops = [Join_op sample_setting wsEnvelope_zero, Call_op, Call_op, Sign_call ''m1'' ''Kay'' ''first'' False [] False 0,
     Sign_call ''m2'' ''AI'' ''second'' True [] False 1]"

theorem own_messages_form_a_chain_witness:
  "\<exists>m1 m2. signed_in 1 (fold (perform_life sample_setting id) sample_ops life_start) = [m1, m2] \<and>
    mPrevHash m1 = [] \<and> mPrevHash m2 = hash_of (take 8) m1"
proof -
  define L2 where "L2 = sample_life\<lparr>lfCalls := [sample_call, sample_call]\<rparr>"
  define L3 where "L3 = life_sign sample_setting ''m1'' ''Kay'' ''first'' False [] False 0 L2"
  define L4 where "L4 = life_sign sample_setting ''m2'' ''AI'' ''second'' True [] False 1 L3"
  have run: "fold (perform_life sample_setting id) sample_ops life_start = L4"
    by (simp add: sample_ops_def sample_life_def [symmetric] sample_call sample_life_app sample_joined L2_def L3_def L4_def)
  have L2: "lfApp L2 = sample_state" "lfSigned L2 = []" "\<not> lfStale L2" "lfCalls L2 = [sample_call, sample_call]"
    by (simp_all add: L2_def sample_life_app)
  have call: "scRoom sample_call = 1" "scPeer sample_call = ''k''" "scMsg sample_call = None" by (simp_all add: sample_call_def)
  obtain m1 where m1: "lfSigned L3 = [(1, m1)]" "\<not> lfStale L3" "lfCalls L3 = [sample_call\<lparr>scMsg := Some m1\<rparr>, sample_call]"
      "lfApp L3 = sample_state\<lparr>asVC := Some (Increment ''k'' VectorClock_New), asPrevHash := hash_of (s_sha256 sample_setting) m1\<rparr>"
    using life_sign_live [of 0 L2 VectorClock_New L3 sample_setting, OF _ _ _ _ _ L3_def] L2 call sample_joined(1,2) sample_room_no sample_peer(1)
    by (auto simp: live_def)
  obtain m2 where m2: "lfSigned L4 = [(1, m1), (1, m2)]" "\<not> lfStale L4"
    using life_sign_live [of 1 L3 "Increment ''k'' VectorClock_New" L4 sample_setting, OF _ _ _ _ _ L4_def] m1 call sample_joined(1) sample_room_no sample_peer(1)
    by (auto simp: live_def)
  have "list_all life_op_ok sample_ops" by (simp add: sample_ops_def)
  from own_messages_form_a_chain [OF this refl, of sample_setting id 1] m2 show ?thesis
    by (simp add: run signed_in_def) (simp add: sample_setting_def)
qed

theorem left_room_leaks_witness:
  "\<exists>room l. asLedger (lfApp (fold (perform_life sample_setting id) [Leave_op, Join_op sample_setting wsEnvelope_zero, Relay_message 0 1]
      (sample_life\<lparr>lfApp := sample_state\<lparr>asRoom := Some room\<rparr>\<rparr>))) = Some l \<and> crMessages room = [sample_message] \<and> mID sample_message \<in> lIds l"
proof -
  obtain room0 where "asRoom sample_state = Some room0" using sample_joined(4) by auto
  let ?room = "room0\<lparr>crMessages := [sample_message]\<rparr>"
  let ?L = "sample_life\<lparr>lfApp := sample_state\<lparr>asRoom := Some ?room\<rparr>\<rparr>"
  obtain st where st: "init sample_setting wsEnvelope_zero (resetRoom (lfApp ?L)) = (st, None)"
    using sample_rejoin(2) [of "lfApp ?L"] by (metis prod.collapse)
  have "mID sample_message \<noteq> []" by (simp add: sample_message_def)
  from left_room_leaks [OF _ _ _ _ this st refl, of 1 ?room "[]" sample_setting id 0] show ?thesis
    using sample_joined sample_room_no by (intro exI [of _ ?room]) auto
qed

theorem call_under_way_taints_the_next_room_witness:
  "\<exists>L1 old new. L1 = fold (perform_life (sample_setting\<lparr>s_sha256 := \<lambda>d. CHR ''h'' # take 8 d\<rparr>) id)
      [Leave_op, Sign_call ''m1'' ''Kay'' ''late'' False [] False 0, Join_op next_setting wsEnvelope_zero, Call_op,
        Sign_call ''m2'' ''Kay'' ''new'' False [] False 1] (sample_life\<lparr>lfCalls := [sample_call]\<rparr>) \<and>
    signed_in 1 L1 = [old] \<and> signed_in 2 L1 = [new] \<and> mSenderID old \<noteq> mSenderID new \<and> mPrevHash new \<noteq> []"
proof -
  let ?W = "sample_setting\<lparr>s_sha256 := \<lambda>d. CHR ''h'' # take 8 d\<rparr>"
  let ?L = "sample_life\<lparr>lfCalls := [sample_call]\<rparr>"
  let ?ops = "\<lambda>i. [Leave_op, Sign_call ''m1'' ''Kay'' ''late'' False [] False 0, Join_op next_setting wsEnvelope_zero, Call_op,
        Sign_call ''m2'' ''Kay'' ''new'' False [] False i]"
  let ?L1 = "fold (perform_life ?W id) (?ops 1) ?L"
  have "length (lfCalls ?L) = 1" by simp
  then have run: "?L1 = fold (perform_life ?W id) (?ops (length (lfCalls ?L))) ?L" by simp
  have "\<exists>old new. signed_in 1 ?L1 = signed_in 1 ?L @ [old] \<and> signed_in (Suc 1) ?L1 = [new] \<and>
      mSenderID old = asPeerID (lfApp ?L) \<and> mSenderID new = asPeerID (lfApp ?L1) \<and> mSenderID old \<noteq> mSenderID new \<and>
      mPrevHash new = hash_of (s_sha256 ?W) old \<and> mPrevHash new \<noteq> []"
    by (rule call_under_way_taints_the_next_room [OF _ _ _ _ _ _ run _ _ sample_rejoin(3), where identity = "toy_id ''k''" and vc = VectorClock_New])
      (use sample_joined sample_room_no sample_peer sample_rejoin(1,4) in \<open>simp_all add: sample_life_app sample_call_def\<close>)
  moreover have "signed_in 1 ?L = []" by (simp add: signed_in_def sample_life_app)
  ultimately show ?thesis by (metis append_Nil Suc_1)
qed

end
