(* ===== verification/Main_Program.thy ===== *)
theory Main_Program
  imports Attack_Lab Ollama_Setup
begin

text \<open>
  \<open>main\<close> of \<open>cmd/main.go\<close>: what it starts, which handler a request goes to, and the life of a websocket.

  Reading the command line, serving and the file server are Go's library; the handlers are modelled where their parts of the
  program are.
\<close>

section \<open>Starting\<close>

text \<open>The flags with their defaults.\<close>

record flags =
  fPort :: int
  fP2PPort :: int

definition default_flags :: flags where
  "default_flags = \<lparr>fPort = 8080, fP2PPort = 0\<rparr>"

text \<open>Ollama is looked for first; then there is the state, the setting with the port, and the address served.\<close>

definition main_start ::
  "'w system \<Rightarrow> flags \<Rightarrow> ('sk, 'pk) setting \<Rightarrow> 'w \<Rightarrow> 'w \<times> ('sk, 'pk) appState \<times> ('sk, 'pk) setting \<times> string" where
  "main_start S f W w = (ensureOllama S w, appState_start, W\<lparr>s_p2pPort := fP2PPort f\<rparr>, '':'' @ decimal_int (fPort f))"

section \<open>Routes\<close>

datatype handler = OllamaStatus | OllamaInstall | OllamaStart | Models | ModelPull | Recommended | Memories | AttackDemo | ForgeDemo |
  PeerInfo | PeerConnect | WebSocket | Files

definition routes :: "(string \<times> handler) list" where
  "routes =
     [(''/api/ollama/status'', OllamaStatus), (''/api/ollama/install'', OllamaInstall), (''/api/ollama/start'', OllamaStart),
      (''/api/models'', Models), (''/api/models/pull'', ModelPull), (''/api/models/recommended'', Recommended),
      (''/api/memory'', Memories), (''/api/demo/attack'', AttackDemo), (''/api/demo/forge-message'', ForgeDemo),
      (''/api/peer/info'', PeerInfo), (''/api/peer/connect'', PeerConnect), (''/ws'', WebSocket)]"

text \<open>A pattern without a final slash matches its path only, \<open>/\<close> every other one.\<close>

definition route :: "string \<Rightarrow> handler" where
  "route path = (case map_of routes path of Some h \<Rightarrow> h | None \<Rightarrow> Files)"

lemma routes_distinct: "distinct (map fst routes)" "distinct (map snd routes)"
  by code_simp+

lemma route_iff: "h \<noteq> Files \<Longrightarrow> route path = h \<longleftrightarrow> (path, h) \<in> set routes"
  using routes_distinct(1) map_of_eq_Some_iff [OF routes_distinct(1), of path] by (auto simp: route_def split: option.split dest: eq_key_imp_eq_value)

section \<open>A websocket\<close>

definition ws_open :: "nat \<Rightarrow> ('sk, 'pk) appState \<Rightarrow> ('sk, 'pk) appState" where
  "ws_open c st = st\<lparr>asHub := hub_add c (asHub st)\<rparr>"

definition ws_close :: "nat \<Rightarrow> ('sk, 'pk) appState \<Rightarrow> ('sk, 'pk) appState" where
  "ws_close c st = st\<lparr>asHub := hub_remove c (asHub st)\<rparr>"

text \<open>The frames of one page, up to the first that could not be read, with what goes on elsewhere (\<open>elsewhere\<close>) before each.
  A wait for \<open>done\<close> leaves the page connected; a nil pointer ends the handler, which changed
  nothing then, and its deferred calls disconnect the page.\<close>

record 'st ws_input =
  wiNow :: time
  wiUUID :: string
  wiFailed :: bool
  wiRaw :: string
  wiElsewhere :: "'st \<Rightarrow> 'st"

fun ws_loop ::
  "('sk, 'pk) setting \<Rightarrow> nat \<Rightarrow> ('sk, 'pk) appState ws_input list \<Rightarrow> ('sk, 'pk) appState \<Rightarrow> ('sk, 'pk) appState outcome" where
  "ws_loop W c [] st = Done (ws_close c st)"
| "ws_loop W c (x # xs) st =
     (let st1 = wiElsewhere x st in
      case ws_frame W (wiNow x) (wiUUID x) (wiFailed x) c (wiRaw x) st1 of
        Done st2 \<Rightarrow> ws_loop W c xs st2
      | Blocked \<Rightarrow> Blocked
      | Panic \<Rightarrow> Done (ws_close c st1))"

definition ws_session ::
  "('sk, 'pk) setting \<Rightarrow> nat \<Rightarrow> ('sk, 'pk) appState ws_input list \<Rightarrow> ('sk, 'pk) appState \<Rightarrow> ('sk, 'pk) appState outcome" where
  "ws_session W c inputs st = ws_loop W c inputs (ws_open c st)"

text \<open>However the session goes, a page whose handler has ended is no longer written to.\<close>

lemma closed_page_is_gone: "c \<notin> fst ` set (hubClients (asHub (ws_close c st)))"
  using AList.delete_keys [of c "hubClients (asHub st)"] by (simp add: ws_close_def hub_remove_def flip: set_map)

lemma session_cleans_up: "ws_session W c inputs st = Done st' \<Longrightarrow> c \<notin> fst ` set (hubClients (asHub st'))"
proof -
  have "ws_loop W c inputs st0 = Done st' \<Longrightarrow> c \<notin> fst ` set (hubClients (asHub st'))" for st0
  proof (induction inputs arbitrary: st0)
    case Nil
    then show ?case using closed_page_is_gone [of c st0] by simp
  next
    case (Cons x xs)
    then show ?case using closed_page_is_gone [of c "wiElsewhere x st0"] by (simp add: Let_def split: outcome.splits)
  qed
  then show "ws_session W c inputs st = Done st' \<Longrightarrow> c \<notin> fst ` set (hubClients (asHub st'))" by (simp add: ws_session_def)
qed

end
