(* ===== verification/Spec2Isabelle.thy ===== *)
theory Spec2Isabelle
  imports Prelude Vector_Clock Go_Strings Go_Sort Go_JSON Go_Float Message Ledger Identity Trust Validate PubSub Mention
    Memory_Store Batcher Agent_Text Agent_Prompts Orchestrator Envelope Node App Server Attack_Lab Causality Attack_Defence
    Ollama_Setup Room_Life Main_Program
begin

text \<open>
  A model of the peer-to-peer chat program with autonomous agents, and its correctness properties.

  \<^bold>\<open>The program.\<close>  A process serves a browser page over a websocket and joins one room with other peers.  The room is a
  GossipSub topic of libp2p.  A user's message, or one of the agent that lives in the same process, is stamped with a vector
  clock, chained to its predecessor by a hash, signed and published.  What arrives from the topic goes through a validator
  (shape, size, signatures, rate, quarantine), through the read loop into the application, and into the ledger, which refuses
  replays and forks, keeps a bounded number of messages in causal order and can repair what a peer has missed.  Accepted
  messages merge into the clock, are shown on the pages and are collected in batches for the agent, which decides whether and
  what to reply with the help of a language model.  An attack laboratory publishes malicious packets on request.

  \<^bold>\<open>Where what is.\<close>  Paths are under \<open>src/\<close>.  A definition has the name of the Go function it models; state is a record
  with the fields of the Go struct, prefixed; a method that changes its receiver returns the new record.

  \<^item> \<open>Prelude\<close>: Go maps as lists of entries, sums and folds, and the locales \<open>invariant_machine\<close> and \<open>growing_machine\<close> for
    components driven by any sequence of operations; \<open>Ledger\<close>, \<open>Trust\<close>, \<open>Memory_Store\<close> and \<open>Causality\<close> interpret them.
  \<^item> \<open>Go_Strings\<close>, \<open>Go_Sort\<close>, \<open>Go_JSON\<close>, \<open>Go_Float\<close>: the parts of Go's library the results depend on -- UTF-8, case
    folding and trimming, the algorithm of \<open>sort.SliceStable\<close>, \<open>encoding/json\<close>, rounding of \<open>float64\<close>.
  \<^item> \<open>Vector_Clock\<close>: \<open>internal/clock/vector.go\<close>.  \<open>Message\<close>, \<open>Mention\<close>: \<open>internal/types\<close>.  \<open>Identity\<close>:
    \<open>internal/crypto/identity.go\<close>.  \<open>Ledger\<close>: \<open>internal/chat/ledger.go\<close>.
  \<^item> \<open>Trust\<close>, \<open>Validate\<close>, \<open>PubSub\<close>, \<open>Node\<close>: the files of \<open>internal/p2p\<close>.
  \<^item> \<open>Memory_Store\<close>, \<open>Batcher\<close>: their files in \<open>internal/ai\<close>.  \<open>Agent_Text\<close>, \<open>Agent_Prompts\<close>, \<open>Orchestrator\<close>:
    \<open>internal/ai/orchestrator.go\<close>, split into its helpers, its talk with the language model and its state machine.
  \<^item> \<open>Envelope\<close>, \<open>App\<close>, \<open>Server\<close>, \<open>Attack_Lab\<close>, \<open>Ollama_Setup\<close>: \<open>cmd/main.go\<close> -- the frames of the websocket, the
    running application, the life of a room and the requests of the page, the attack laboratory, and finding, starting and
    installing Ollama.
  \<^item> \<open>Main_Program\<close>: \<open>main\<close> -- its start, the routes, and a websocket from connecting to disconnecting.
  \<^item> \<open>Causality\<close>, \<open>Room_Life\<close>, \<open>Attack_Defence\<close>: the properties of the components together.  \<open>Causality\<close> runs a joined room;
    \<open>Room_Life\<close> joins and leaves rooms one after another, with \<open>signAndPublish\<close> cut where other calls come between and the
    goroutines of a room left still running; \<open>Attack_Defence\<close> brings the packets of the laboratory to another peer.

  \<^bold>\<open>What is shown.\<close>  Each property carries the number under which it is listed.

  \<^item> Clocks: \<open>Compare\<close> decides the causal order, \<open>Merge\<close> is the least upper bound, a reply is after what it answers
    unless the counter wraps, and \<open>Sum\<close> respects the order as long as 64 bits suffice.
  \<^item> Messages: the signed bytes bind every field, publishing and decoding are inverse.
  \<^item> Ledger: an invariant of every sequence of operations; no replay of a message with a positive counter and no fork of one
    with a predecessor, also after eviction; eviction and repair touch exactly the right messages; peers with the same
    messages show them in the same order if concurrency is transitive among them, and a message, its reply and a
    concurrent remark by peers in the wrong order are always shown in two orders.
  \<^item> Trust and validation: the tracker's invariant; quarantine exactly from the third count on, and for good; an upper bound
    for the packets of a peer in terms of the steps forward of its timestamps, in whatever order these arrive, and recovery;
    what is accepted was checked and, when nobody has come up with a signature its sender did not make, is authentic; what is
    honest is accepted; quarantine spreads to forwarders.
  \<^item> Room: under every interleaving of validator, queue, read loop and application only verified messages come out and nothing
    crashes; a repair of at most 64 KiB reaches its requester, and a longer one is held against the helper; the trace tells the
    verdict.
  \<^item> Agent: mentions are normalised and parsed back, memories survive a restart, batches lose only what \<open>Stop\<close> throws
    away and are in time, an addressed agent with an ASCII name replies, and in every interleaving of its operations an agent
    is silent where it must be and keeps its history short.
  \<^item> Application: over all rooms the messages \<open>signAndPublish\<close> signs form a hash chain with growing counters; in every run of a
    room its next message is after everything merged and everything it signed (unless its counter wrapped); what waits or is under way when a room is left leaks
    into the next one -- messages to its ledger, pages and agent, the hash of the last message to its chain; a message
    that poisons the clock makes the next one of the peer worthless, a message overtaken by the next is lost; five attacks of one packet
    are refused by the validator, the sixth, a replay, by the ledger (\<open>replayed_message_is_a_duplicate\<close>).
  \<^item> Ollama: starting and installing come to an end, and the former does not claim a success it did not see.

  \<^bold>\<open>Concurrency.\<close>  A section under one mutex is one function.  Where a function gives up its mutex, it is cut: \<open>sign_section\<close>
  and \<open>publish_section\<close>, \<open>accept_ledger\<close> and \<open>accept_rest\<close>, \<open>repair_begin\<close> and \<open>repair_end\<close>, \<open>Process_start\<close>, \<open>generate\<close> and \<open>Process_finish\<close>, \<open>drain\<close> and the waiting batches.  The relations
  \<open>room_step\<close> (validator, queue, read loop, application), \<open>batcher_step\<close> (calls, timers, goroutines waiting for
  the lock) and \<open>agent_step\<close> (the parts of the agent) and the operations of \<open>Causality\<close> interleave the parts.  In \<open>Room_Life\<close> a call keeps the number of the room it
  copied its pointers from, and a room left keeps its objects, so that sending, relaying and repairing go on after leaving;
  a repair, the agent's callbacks and the requests of the page are not cut there.

  \<^bold>\<open>Parameters.\<close>  What is not under \<open>src/\<close> is an argument: \<open>libp2p\<close> (keys, signatures, peer identifiers; \<open>key_pair\<close> states that
  a signature verifies under its key; that none anybody has come up with is forged is a hypothesis of
  \<open>accepted_messages_are_authentic\<close>), \<open>p2p_net\<close> and \<open>demo_net\<close> (hosts,
  discovery, dialling), \<open>unicode\<close> (case tables beyond ASCII), the SHA-256 function, \<open>quote\<close> (\<open>%q\<close>), \<open>json_text\<close> (texts of
  JSON errors), \<open>os\<close> and \<open>disk\<close>, \<open>ollama\<close> (what the language model answers), \<open>system\<close> (programs, files, HTTP).  Fresh
  identifiers, the time and whether publishing fails are arguments of the operations.  The properties hold for all of them.

  \<^bold>\<open>Bounds and fuel.\<close>  Clock counters are words of 64 bits and wrap.  Other integers that Go keeps in 64 bits are mathematical
  integers; they count messages, packets, bytes or nanoseconds.  \<open>float64\<close> is a rational, rounded after every operation;
  values stay far from infinity.  The JSON parser has the nesting limit of Go, and fuel for its recursion; \<open>parse_enough_fuel\<close>
  shows that twice the length of the input is enough, so the fuel is never used up.  The sort, the matchers and all
  other loops are proved to terminate.  The waits for Ollama have the numbers of attempts of the code (20 and 30).

  \<^bold>\<open>Not modelled.\<close>  Reading the command line, HTTP headers and time-outs, the file server and \<open>ListenAndServe\<close>; the decoding
  of HTTP request bodies (what the decoder left is an argument); contexts and their cancellation; closing topics, and the host
  when a room is left (its error is dropped); log output; the random pause before dialling a discovered peer and the outcome
  of the dial, which is only logged; \<open>publishForgedDemo\<close>, which nothing calls; the page itself (\<open>web\<close>), which is JavaScript.
\<close>

end
